(* ===== verification/Swim_Prelude.thy ===== *)
theory Swim_Prelude
  imports Main "HOL-Library.AList" "HOL-Library.Word"
begin

text \<open>
  Shared vocabulary of the development: the Python exceptions the code can raise, a state
  and exception monad in which an exception keeps the mutations made before it (as in Python),
  Python dictionaries as association lists in insertion order, a Hoare logic for the monad,
  and the generic lemmas on lists and dictionaries that the components use.
\<close>

subsection \<open>Values\<close>

text \<open>
  \<^item> \<open>bytes\<close> objects are lists of 8-bit words;
  \<^item> \<open>str\<close> objects are HOL strings;
  \<^item> a \<open>Mapping[str, bytes]\<close> of metadata is represented by the set of its items
    (\<open>frozenset(metadata.items())\<close>): the code only ever compares, copies and reads such a
    mapping, and never depends on its order.
\<close>

type_synonym bytes = "8 word list"
type_synonym metadata = "(string \<times> bytes) set"

text \<open>The exceptions that the modelled code raises or lets through.\<close>

datatype py_error =
    AssertionError
  | ValueError
  | KeyError
  | IndexError
  | StructError
  | UnpicklingError
  | OSError
  | ConfigError
  | TransientConfigError
  | TypeError
  | FileNotFoundError
  | FileExistsError
  | NotADirectoryError
  | OverflowError
  | UnicodeError
  | SystemExit
  | Ill_typed

text \<open>
  \<open>Ill_typed\<close> is no exception of Python. It stands where a value reaches a parameter whose annotation it
  does not fit: Python does not check annotations and goes on, and the model does not say how.
\<close>

text \<open>\<open>except OSError\<close> catches its subclasses as well.\<close>

definition is_os_error :: "py_error \<Rightarrow> bool" where
  "is_os_error e \<longleftrightarrow> e \<in> {OSError, FileNotFoundError, FileExistsError, NotADirectoryError}"

subsection \<open>The state and exception monad\<close>

text \<open>
  A statement of the code maps the state before it to a result (\<open>Inl\<close> an exception,
  \<open>Inr\<close> a value) and the state after it. An exception does not roll the state back.
\<close>

type_synonym ('s, 'a) py = "'s \<Rightarrow> (py_error + 'a) \<times> 's"

definition py_return :: "'a \<Rightarrow> ('s, 'a) py" where
  "py_return x = (\<lambda>s. (Inr x, s))"

definition py_raise :: "py_error \<Rightarrow> ('s, 'a) py" where
  "py_raise e = (\<lambda>s. (Inl e, s))"

definition py_bind :: "('s, 'a) py \<Rightarrow> ('a \<Rightarrow> ('s, 'b) py) \<Rightarrow> ('s, 'b) py" where
  "py_bind m f = (\<lambda>s. case m s of (Inl e, s') \<Rightarrow> (Inl e, s') | (Inr x, s') \<Rightarrow> f x s')"

definition py_seq :: "('s, 'a) py \<Rightarrow> ('s, 'b) py \<Rightarrow> ('s, 'b) py" where
  "py_seq m k = py_bind m (\<lambda>_. k)"

definition py_read :: "('s \<Rightarrow> 'a) \<Rightarrow> ('s, 'a) py" where
  "py_read g = (\<lambda>s. (Inr (g s), s))"

definition py_modify :: "('s \<Rightarrow> 's) \<Rightarrow> ('s, unit) py" where
  "py_modify g = (\<lambda>s. (Inr (), g s))"

definition py_assert :: "bool \<Rightarrow> ('s, unit) py" where
  "py_assert b = (if b then py_return () else py_raise AssertionError)"

text \<open>A fallible pure expression used as a statement.\<close>

definition py_lift :: "py_error + 'a \<Rightarrow> ('s, 'a) py" where
  "py_lift r = (\<lambda>s. (r, s))"

text \<open>\<open>for x in xs: body\<close>, and the run of a statement on one field of the state.\<close>

fun py_for :: "'b list \<Rightarrow> ('b \<Rightarrow> ('s, unit) py) \<Rightarrow> ('s, unit) py" where
  "py_for [] f = py_return ()"
| "py_for (x # xs) f = py_seq (f x) (py_for xs f)"

definition py_on :: "('s \<Rightarrow> 't) \<Rightarrow> ('t \<Rightarrow> 's \<Rightarrow> 's) \<Rightarrow> ('t, 'a) py \<Rightarrow> ('s, 'a) py" where
  "py_on get put m = (\<lambda>s. case m (get s) of (r, t) \<Rightarrow> (r, put t s))"

lemma py_return_run [simp]: "py_return x s = (Inr x, s)"
  by (simp add: py_return_def)

lemma py_raise_run [simp]: "py_raise e s = (Inl e, s)"
  by (simp add: py_raise_def)

lemma py_read_run [simp]: "py_read g s = (Inr (g s), s)"
  by (simp add: py_read_def)

lemma py_modify_run [simp]: "py_modify g s = (Inr (), g s)"
  by (simp add: py_modify_def)

lemma py_lift_run [simp]: "py_lift r s = (r, s)"
  by (simp add: py_lift_def)

lemma py_assert_run [simp]:
  "py_assert b s = (if b then Inr () else Inl AssertionError, s)"
  by (simp add: py_assert_def)

lemma py_on_run: "py_on get put m s = (fst (m (get s)), put (snd (m (get s))) s)"
  by (simp add: py_on_def split_beta)

text \<open>The run of a sequence, once the run of its head is known.\<close>

lemma py_bind_Inr: "m s = (Inr x, s') \<Longrightarrow> py_bind m f s = f x s'"
  by (simp add: py_bind_def)

lemma py_bind_Inl: "m s = (Inl e, s') \<Longrightarrow> py_bind m f s = (Inl e, s')"
  by (simp add: py_bind_def)

lemma py_seq_Inr: "m s = (Inr x, s') \<Longrightarrow> py_seq m k s = k s'"
  by (simp add: py_seq_def py_bind_Inr)

lemma py_seq_Inl: "m s = (Inl e, s') \<Longrightarrow> py_seq m k s = (Inl e, s')"
  by (simp add: py_seq_def py_bind_Inl)

lemmas py_run = py_bind_Inr py_bind_Inl py_seq_Inr py_seq_Inl

lemma py_bind_return [simp]: "py_bind (py_return x) f = f x"
  by (rule ext) (simp add: py_bind_def)

lemma py_bind_return_right [simp]: "py_bind m py_return = m"
  by (rule ext) (simp add: py_bind_def split: prod.split sum.split)

lemma py_bind_assoc: "py_bind (py_bind m f) g = py_bind m (\<lambda>x. py_bind (f x) g)"
  by (rule ext) (simp add: py_bind_def split: prod.split sum.split)

lemma py_bind_raise [simp]: "py_bind (py_raise e) f = py_raise e"
  by (rule ext) (simp add: py_bind_def)

text \<open>The sequence of fallible pure expressions.\<close>

definition result_bind :: "py_error + 'a \<Rightarrow> ('a \<Rightarrow> py_error + 'b) \<Rightarrow> py_error + 'b" where
  "result_bind r f = (case r of Inl e \<Rightarrow> Inl e | Inr x \<Rightarrow> f x)"

lemma result_bind_simps [simp]:
  "result_bind (Inl e) f = Inl e"
  "result_bind (Inr x) f = f x"
  by (simp_all add: result_bind_def)

lemma result_bind_Inr_iff: "result_bind r f = Inr y \<longleftrightarrow> (\<exists>x. r = Inr x \<and> f x = Inr y)"
  by (cases r) simp_all

subsection \<open>A Hoare logic for the monad\<close>

text \<open>
  \<open>hoare P m Q E\<close>: from a state in \<open>P\<close>, a normal return of \<open>m\<close> satisfies
  \<open>Q\<close> and an exception leaves a state in \<open>E\<close>. Every run ends in one of the two, so
  this is total correctness.
\<close>

definition hoare ::
    "('s \<Rightarrow> bool) \<Rightarrow> ('s, 'a) py \<Rightarrow> ('a \<Rightarrow> 's \<Rightarrow> bool) \<Rightarrow> (py_error \<Rightarrow> 's \<Rightarrow> bool) \<Rightarrow> bool" where
  "hoare P m Q E \<longleftrightarrow>
     (\<forall>s. P s \<longrightarrow> (case m s of (Inl e, s') \<Rightarrow> E e s' | (Inr x, s') \<Rightarrow> Q x s'))"

named_theorems hoare_intros

lemma hoareI:
  assumes "\<And>s x s'. P s \<Longrightarrow> m s = (Inr x, s') \<Longrightarrow> Q x s'"
    and "\<And>s e s'. P s \<Longrightarrow> m s = (Inl e, s') \<Longrightarrow> E e s'"
  shows "hoare P m Q E"
  using assms by (auto simp: hoare_def split: prod.split sum.split)

lemma hoare_normal: "hoare P m Q E \<Longrightarrow> P s \<Longrightarrow> m s = (Inr x, s') \<Longrightarrow> Q x s'"
  by (auto simp: hoare_def split: prod.splits sum.splits)

lemma hoare_exn: "hoare P m Q E \<Longrightarrow> P s \<Longrightarrow> m s = (Inl e, s') \<Longrightarrow> E e s'"
  by (auto simp: hoare_def split: prod.splits sum.splits)

lemma hoare_conseq:
  "hoare P m Q E \<Longrightarrow> (\<And>s. P' s \<Longrightarrow> P s) \<Longrightarrow> (\<And>x s. Q x s \<Longrightarrow> Q' x s) \<Longrightarrow>
     (\<And>e s. E e s \<Longrightarrow> E' e s) \<Longrightarrow> hoare P' m Q' E'"
  by (fastforce simp: hoare_def split: prod.splits sum.splits)

lemma hoare_bind [hoare_intros]:
  "hoare P m R E \<Longrightarrow> (\<And>x. hoare (R x) (f x) Q E) \<Longrightarrow> hoare P (py_bind m f) Q E"
  by (fastforce simp: hoare_def py_bind_def split: prod.splits sum.splits)

lemma hoare_seq [hoare_intros]:
  "hoare P m (\<lambda>_. R) E \<Longrightarrow> hoare R k Q E \<Longrightarrow> hoare P (py_seq m k) Q E"
  unfolding py_seq_def by (rule hoare_bind)

text \<open>
  An invariant that a statement keeps on both exits. A statement that keeps its state
  invariant composes with others by the rules below alone.
\<close>

abbreviation keeps :: "('s \<Rightarrow> bool) \<Rightarrow> ('s, 'a) py \<Rightarrow> bool" where
  "keeps I m \<equiv> hoare I m (\<lambda>_. I) (\<lambda>_. I)"

lemma keeps_iff: "keeps I m \<longleftrightarrow> (\<forall>s. I s \<longrightarrow> I (snd (m s)))"
  by (simp add: hoare_def split_beta split: sum.split)

lemma keepsD: "keeps I m \<Longrightarrow> I s \<Longrightarrow> I (snd (m s))"
  by (simp add: keeps_iff)

lemma keeps_return [hoare_intros]: "keeps I (py_return x)"
  by (simp add: hoare_def)

lemma keeps_raise [hoare_intros]: "keeps I (py_raise e)"
  by (simp add: hoare_def)

lemma keeps_read [hoare_intros]: "keeps I (py_read g)"
  by (simp add: hoare_def)

lemma keeps_lift [hoare_intros]: "keeps I (py_lift r)"
  by (simp add: hoare_def split: sum.split)

lemma keeps_assert [hoare_intros]: "keeps I (py_assert b)"
  by (simp add: hoare_def)

lemma keeps_modify: "(\<And>s. I s \<Longrightarrow> I (g s)) \<Longrightarrow> keeps I (py_modify g)"
  by (simp add: hoare_def)

lemma keeps_for: "(\<And>x. x \<in> set xs \<Longrightarrow> keeps I (f x)) \<Longrightarrow> keeps I (py_for xs f)"
  by (induction xs) (auto intro!: hoare_intros)

subsection \<open>Python dictionaries in insertion order\<close>

text \<open>
  A \<open>dict\<close> is an association list with distinct keys: \<open>map_of d k\<close> is
  \<open>d.get(k)\<close>, \<open>AList.update k v d\<close> is \<open>d[k] = v\<close> (in place for a key that is
  present, at the end for a new one) and \<open>AList.delete k d\<close> is the removal of a key.
\<close>

abbreviation keys_of :: "('k \<times> 'v) list \<Rightarrow> 'k set" where
  "keys_of d \<equiv> fst ` set d"

definition dict_has :: "('k \<times> 'v) list \<Rightarrow> 'k \<Rightarrow> bool" where
  "dict_has d k = (map_of d k \<noteq> None)"

lemma dict_has_iff: "dict_has d k \<longleftrightarrow> k \<in> keys_of d"
  by (simp add: dict_has_def map_of_eq_None_iff)

lemma map_of_keys: "map_of d k = Some v \<Longrightarrow> k \<in> keys_of d"
  by (force dest: map_of_SomeD)

lemma map_of_None_keys: "map_of d k = None \<longleftrightarrow> k \<notin> keys_of d"
  by (simp add: map_of_eq_None_iff)

lemma dict_length_update:
  "distinct (map fst d) \<Longrightarrow>
     length (AList.update k v d) = (if k \<in> keys_of d then length d else Suc (length d))"
  by (induction d) auto

lemma dict_length_delete:
  "distinct (map fst d) \<Longrightarrow>
     length (AList.delete k d) = (if k \<in> keys_of d then length d - 1 else length d)"
proof (induction d)
  case Nil
  then show ?case by simp
next
  case (Cons p d)
  obtain a b where p: "p = (a, b)" by force
  show ?case
  proof (cases "a = k")
    case True
    with Cons.prems p have "k \<notin> keys_of d" by (auto simp: image_iff)
    then have "AList.delete k d = d" by (intro delete_id) (auto simp: image_iff)
    with True p show ?thesis by simp
  next
    case False
    have "k \<in> keys_of d \<Longrightarrow> d \<noteq> []" by auto
    with False Cons p show ?thesis by (auto simp: Suc_pred)
  qed
qed

lemma dict_update_new: "k \<notin> keys_of d \<Longrightarrow> AList.update k v d = d @ [(k, v)]"
  by (induction d) auto

lemma keys_of_delete [simp]: "keys_of (AList.delete k d) = keys_of d - {k}"
  by (auto simp: AList.delete_eq image_iff)

lemma Max_insert_below:
  fixes a b :: "'a::linorder"
  assumes "finite S" and "a \<le> b"
  shows "Max (insert b (insert a S)) = Max (insert b S)"
    and "Max (insert a (insert b S)) = Max (insert b S)"
proof -
  have "b \<le> Max (insert b S)" using assms(1) by simp
  then have "max a (Max (insert b S)) = Max (insert b S)" using assms(2) by (simp add: max_absorb2)
  then show "Max (insert a (insert b S)) = Max (insert b S)" using assms(1) by (simp del: Max_insert add: Max.insert)
  then show "Max (insert b (insert a S)) = Max (insert b S)" by (simp only: insert_commute)
qed

lemma distinct_singleton: "distinct xs \<Longrightarrow> set xs = {x} \<Longrightarrow> xs = [x]"
proof (cases xs)
  case (Cons y ys)
  assume "distinct xs" "set xs = {x}"
  with Cons have "y = x" "set ys = {}" by (auto simp: subset_singleton_iff)
  with Cons show ?thesis by simp
qed simp

subsection \<open>Slices\<close>

text \<open>\<open>xs[a:b]\<close>, clamped at the end of the list as in Python.\<close>

definition py_slice :: "nat \<Rightarrow> nat \<Rightarrow> 'a list \<Rightarrow> 'a list" where
  "py_slice a b xs = take (b - a) (drop a xs)"

lemma length_py_slice [simp]: "length (py_slice a b xs) = min (b - a) (length xs - a)"
  by (simp add: py_slice_def min.commute)

lemma py_slice_append: "length p = a \<Longrightarrow> length q = b - a \<Longrightarrow> py_slice a b (p @ q @ r) = q"
  by (simp add: py_slice_def)

lemma py_slice_drop: "a \<le> b \<Longrightarrow> py_slice a b xs @ drop b xs = drop a xs"
  by (simp add: py_slice_def) (metis append_take_drop_id drop_drop le_add_diff_inverse2)

subsection \<open>Lists updated by index\<close>

text \<open>
  \<open>xs[i] = xs[-1]; del xs[-1]\<close>, the removal in constant time that \<open>WeakShuffle\<close>
  uses, removes exactly the element at \<open>i\<close>.
\<close>

lemma swap_remove_set:
  assumes "distinct xs" and "i < length xs" and "n = length xs - 1"
  shows "set (butlast (xs[i := xs ! n])) = set xs - {xs ! i}"
proof -
  from assms(2) obtain ys z where xs: "xs = ys @ [z]"
    by (metis length_0_conv not_less_zero rev_exhaust)
  with assms(1,3) have d: "distinct ys" "z \<notin> set ys" and n: "n = length ys"
    by auto
  show ?thesis
  proof (cases "i = n")
    case True
    with xs n d show ?thesis by simp
  next
    case False
    with assms(2) xs n have i: "i < length ys" by simp
    then have "butlast (xs[i := xs ! n]) = ys[i := z]"
      by (simp add: xs n list_update_append butlast_append)
    with i d xs show ?thesis
      by (auto simp: set_update_distinct nth_append)
  qed
qed

lemma swap_remove_distinct:
  assumes "distinct xs" and "i < length xs" and "n = length xs - 1"
  shows "distinct (butlast (xs[i := xs ! n]))"
proof -
  from assms(2) obtain ys z where xs: "xs = ys @ [z]"
    by (metis length_0_conv not_less_zero rev_exhaust)
  with assms show ?thesis
    by (auto simp: list_update_append butlast_append less_Suc_eq intro: distinct_list_update)
qed

end
