(* ===== verification/Swim_Status.thy ===== *)
theory Swim_Status
  imports Swim_Prelude
begin

text \<open>
  The enumeration \<open>Status\<close> of \<open>swimprotocol/status.py\<close>: an \<open>enum.Flag\<close> with three
  bits, so a word of three bits. The three real statuses are the single bits, the aggregates
  are their unions, and the transition filter is translated branch by branch.
\<close>

unbundle bit_operations_syntax

type_synonym status = "3 word"

definition ONLINE :: status where "ONLINE = 1"
definition OFFLINE :: status where "OFFLINE = 2"
definition SUSPECT :: status where "SUSPECT = 4"
definition AVAILABLE :: status where "AVAILABLE = ONLINE OR SUSPECT"
definition UNAVAILABLE :: status where "UNAVAILABLE = OFFLINE OR SUSPECT"
definition ALL_STATUS :: status where "ALL_STATUS = AVAILABLE OR UNAVAILABLE"

lemmas status_defs =
  ONLINE_def OFFLINE_def SUSPECT_def AVAILABLE_def UNAVAILABLE_def ALL_STATUS_def

text \<open>The values that \<open>Status.__members__\<close> lists, aggregates included, in source order.\<close>

definition all_statuses :: "status list" where
  "all_statuses = [ONLINE, OFFLINE, SUSPECT, AVAILABLE, UNAVAILABLE, ALL_STATUS]"

text \<open>\<open>bool(a & b)\<close>, the test the callers make on statuses.\<close>

definition overlaps :: "status \<Rightarrow> status \<Rightarrow> bool" where
  "overlaps a b \<longleftrightarrow> a AND b \<noteq> 0"

definition transition :: "status \<Rightarrow> status \<Rightarrow> py_error + status" where
  "transition self to =
     (if to = AVAILABLE \<or> to = UNAVAILABLE then Inl ValueError
      else if to = SUSPECT \<and> self = OFFLINE then Inr self
      else if to = OFFLINE \<and> self = ONLINE then Inr SUSPECT
      else Inr to)"

text \<open>
  \<open>Status.name\<close>: the \<open>enum\<close> library names a listed member by its name, a union that
  is not listed by the names of its bits joined with a bar, and gives \<open>None\<close> for the empty
  flag, on which the property's assertion fails.
\<close>

definition status_name :: "status \<Rightarrow> py_error + string" where
  "status_name s =
     (if s = ONLINE then Inr ''ONLINE''
      else if s = OFFLINE then Inr ''OFFLINE''
      else if s = SUSPECT then Inr ''SUSPECT''
      else if s = AVAILABLE then Inr ''AVAILABLE''
      else if s = UNAVAILABLE then Inr ''UNAVAILABLE''
      else if s = ALL_STATUS then Inr ''ALL''
      else if s = ONLINE OR OFFLINE then Inr ''ONLINE|OFFLINE''
      else Inl AssertionError)"

text \<open>The statuses that a member can hold, as opposed to the aggregates.\<close>

definition real_status :: "status \<Rightarrow> bool" where
  "real_status s \<longleftrightarrow> s = ONLINE \<or> s = OFFLINE \<or> s = SUSPECT"

subsection \<open>Facts\<close>

lemma status_distinct [simp]:
  "ONLINE \<noteq> OFFLINE" "ONLINE \<noteq> SUSPECT" "ONLINE \<noteq> AVAILABLE" "ONLINE \<noteq> UNAVAILABLE" "ONLINE \<noteq> ALL_STATUS"
  "OFFLINE \<noteq> ONLINE" "OFFLINE \<noteq> SUSPECT" "OFFLINE \<noteq> AVAILABLE" "OFFLINE \<noteq> UNAVAILABLE" "OFFLINE \<noteq> ALL_STATUS"
  "SUSPECT \<noteq> ONLINE" "SUSPECT \<noteq> OFFLINE" "SUSPECT \<noteq> AVAILABLE" "SUSPECT \<noteq> UNAVAILABLE" "SUSPECT \<noteq> ALL_STATUS"
  "AVAILABLE \<noteq> ONLINE" "AVAILABLE \<noteq> OFFLINE" "AVAILABLE \<noteq> SUSPECT" "AVAILABLE \<noteq> UNAVAILABLE"
  "AVAILABLE \<noteq> ALL_STATUS" "UNAVAILABLE \<noteq> ONLINE" "UNAVAILABLE \<noteq> OFFLINE" "UNAVAILABLE \<noteq> SUSPECT"
  "UNAVAILABLE \<noteq> AVAILABLE" "UNAVAILABLE \<noteq> ALL_STATUS" "ALL_STATUS \<noteq> ONLINE" "ALL_STATUS \<noteq> OFFLINE" "ALL_STATUS \<noteq> SUSPECT"
  "ALL_STATUS \<noteq> AVAILABLE" "ALL_STATUS \<noteq> UNAVAILABLE"
  by (simp_all add: status_defs)

text \<open>Which real status is counted under which member of the enumeration.\<close>

lemma overlaps_table [simp]:
  "overlaps ONLINE ONLINE" "\<not> overlaps ONLINE OFFLINE" "\<not> overlaps ONLINE SUSPECT"
  "overlaps ONLINE AVAILABLE" "\<not> overlaps ONLINE UNAVAILABLE" "overlaps ONLINE ALL_STATUS"
  "\<not> overlaps OFFLINE ONLINE" "overlaps OFFLINE OFFLINE" "\<not> overlaps OFFLINE SUSPECT"
  "\<not> overlaps OFFLINE AVAILABLE" "overlaps OFFLINE UNAVAILABLE" "overlaps OFFLINE ALL_STATUS"
  "\<not> overlaps SUSPECT ONLINE" "\<not> overlaps SUSPECT OFFLINE" "overlaps SUSPECT SUSPECT"
  "overlaps SUSPECT AVAILABLE" "overlaps SUSPECT UNAVAILABLE" "overlaps SUSPECT ALL_STATUS"
  by (simp_all add: overlaps_def status_defs)

lemma real_status_simps [simp]:
  "real_status ONLINE" "real_status OFFLINE" "real_status SUSPECT"
  "\<not> real_status AVAILABLE" "\<not> real_status UNAVAILABLE" "\<not> real_status ALL_STATUS"
  by (simp_all add: real_status_def)

lemma transition_real: "real_status s \<Longrightarrow> transition s t = Inr u \<Longrightarrow> real_status t \<Longrightarrow> real_status u"
  by (auto simp: transition_def split: if_splits)

lemma transition_Inl: "transition s t = Inl e \<longleftrightarrow> (t = AVAILABLE \<or> t = UNAVAILABLE) \<and> e = ValueError"
  by (auto simp: transition_def)

lemma transition_simps [simp]:
  "transition s ONLINE = Inr ONLINE"
  "transition s OFFLINE = Inr (if s = ONLINE then SUSPECT else OFFLINE)"
  "transition s SUSPECT = Inr (if s = OFFLINE then OFFLINE else SUSPECT)"
  "transition s AVAILABLE = Inl ValueError"
  "transition s UNAVAILABLE = Inl ValueError"
  "transition s ALL_STATUS = Inr ALL_STATUS"
  by (simp_all add: transition_def)

lemma distinct_all_statuses: "distinct all_statuses"
  by (simp add: all_statuses_def)

lemma set_all_statuses:
  "set all_statuses = {ONLINE, OFFLINE, SUSPECT, AVAILABLE, UNAVAILABLE, ALL_STATUS}"
  by (simp add: all_statuses_def)

subsection \<open>Properties\<close>

text \<open>
  Between real statuses the filter is total, ends in a real status, and is exactly the
  documented one: an offline member is never moved to suspect, an online member is never moved
  straight to offline but to suspect, every other request is granted, and a request that is
  repeated once is granted, unless it is to suspect an offline member.
\<close>

theorem transition_filters:
  assumes "real_status s" and "real_status t"
  shows "case transition s t of Inl e \<Rightarrow> False | Inr u \<Rightarrow> real_status u \<and>
    (s, u) \<noteq> (OFFLINE, SUSPECT) \<and> (s, u) \<noteq> (ONLINE, OFFLINE) \<and>
    (u \<noteq> t) = ((s, t) \<in> {(OFFLINE, SUSPECT), (ONLINE, OFFLINE)}) \<and>
    (transition u t = Inr t) = ((s, t) \<noteq> (OFFLINE, SUSPECT))"
  using assms by (auto simp: real_status_def)

theorem transition_filters_witness:
  "real_status ONLINE \<and> real_status OFFLINE \<and> transition ONLINE OFFLINE = Inr SUSPECT"
  using transition_filters [of ONLINE OFFLINE] by simp

text \<open>
  The filter raises for two of the aggregates only. The third aggregate \<open>ALL\<close>, and the
  unlisted unions, are granted and so can be assigned to a member.
\<close>

theorem transition_raises_iff:
  "(\<exists>e. transition s t = Inl e) = (t = AVAILABLE \<or> t = UNAVAILABLE)
   \<and> transition s ALL_STATUS = Inr ALL_STATUS \<and> transition s 0 = Inr 0
   \<and> transition s (ONLINE OR OFFLINE) = Inr (ONLINE OR OFFLINE)"
  by (simp add: transition_Inl) (simp add: transition_def status_defs)

end
