(* ===== verification/Swim_Packet.thy ===== *)
theory Swim_Packet
  imports Swim_Status
begin

text \<open>
  The packets of \<open>swimprotocol/packet.py\<close>: one constructor per class, the inherited
  \<open>source\<close> first.
\<close>

record source =
  src_name :: string
  src_validity :: bytes

datatype packet =
    Ping (packet_source: source)
  | PingReq (packet_source: source) (req_target: string)
  | Ack (packet_source: source)
  | Gossip (packet_source: source) (gossip_name: string) (gossip_clock: int)
      (gossip_status: status) (gossip_metadata: "metadata option")
  | GossipAck (packet_source: source) (ack_name: string) (ack_clock: int)

text \<open>The members that a packet names.\<close>

fun packet_names :: "packet \<Rightarrow> string set" where
  "packet_names (Ping src) = {src_name src}"
| "packet_names (PingReq src target) = {src_name src, target}"
| "packet_names (Ack src) = {src_name src}"
| "packet_names (Gossip src name clock st md) = {src_name src, name}"
| "packet_names (GossipAck src name clock) = {src_name src, name}"

end
