(* ===== verification/Swim_Shuffle.thy ===== *)
theory Swim_Shuffle
  imports Swim_Prelude
begin

text \<open>
  The class \<open>WeakShuffle\<close> of \<open>swimprotocol/shuffle.py\<close>: a set of weakly held objects with
  a random choice in constant time. The four containers of the class are four fields; each
  operation is the method of the same name, statement by statement, with the exceptions that
  \<open>del\<close> and indexing can raise. The collection of an element by the garbage collector is an
  operation of its own, because the class registers a callback for it.
\<close>

subsection \<open>State\<close>

text \<open>
  A weak reference \<open>ref(val, callback)\<close> is compared and hashed by its referent, so it is
  represented by the referent.
\<close>

datatype 'a weak_ref = Ref (referent: 'a)

record 'a weak_shuffle =
  weak_vals :: "('a \<times> 'a weak_ref) list"
  weak_vals_rev :: "('a weak_ref \<times> 'a) list"
  indexes :: "('a weak_ref \<times> nat) list"
  shuffle_values :: "'a weak_ref list"

definition empty_shuffle :: "'a weak_shuffle" where
  "empty_shuffle = \<lparr>weak_vals = [], weak_vals_rev = [], indexes = [], shuffle_values = []\<rparr>"

subsection \<open>Operations\<close>

text \<open>\<open>_finalize\<close>: \<open>index\<close> was popped before the lists are touched.\<close>

definition finalize :: "'a weak_ref \<Rightarrow> ('a weak_shuffle, unit) py" where
  "finalize weak_val = (\<lambda>s.
     case map_of (indexes s) weak_val of
       None \<Rightarrow> (Inr (), s)
     | Some index \<Rightarrow>
         let s = s\<lparr>indexes := AList.delete weak_val (indexes s)\<rparr>;
             end_index = int (length (shuffle_values s)) - 1;
             s = (if int index < end_index
                  then s\<lparr>shuffle_values :=
                         (shuffle_values s)[index := shuffle_values s ! nat end_index]\<rparr>
                  else s)
         in if shuffle_values s = [] then (Inl IndexError, s)
            else (Inr (), s\<lparr>shuffle_values := butlast (shuffle_values s)\<rparr>))"

definition shuffle_add :: "'a \<Rightarrow> 'a weak_shuffle \<Rightarrow> 'a weak_shuffle" where
  "shuffle_add val s =
     (if dict_has (weak_vals s) val then s
      else s\<lparr>weak_vals := AList.update val (Ref val) (weak_vals s),
             weak_vals_rev := AList.update (Ref val) val (weak_vals_rev s),
             indexes := AList.update (Ref val) (length (shuffle_values s)) (indexes s),
             shuffle_values := shuffle_values s @ [Ref val]\<rparr>)"

definition shuffle_discard :: "'a \<Rightarrow> ('a weak_shuffle, unit) py" where
  "shuffle_discard val = (\<lambda>s.
     case map_of (weak_vals s) val of
       None \<Rightarrow> (Inr (), s)
     | Some weak_val \<Rightarrow>
         let s = s\<lparr>weak_vals := AList.delete val (weak_vals s)\<rparr>
         in if dict_has (weak_vals_rev s) weak_val
            then finalize weak_val (s\<lparr>weak_vals_rev := AList.delete weak_val (weak_vals_rev s)\<rparr>)
            else (Inl KeyError, s))"

text \<open>
  \<open>choice\<close>: \<open>random.choice\<close> takes the element at a random index below the length; the
  random number is the argument \<open>draw\<close>. \<open>alive\<close> tells which referents still exist.
\<close>

definition shuffle_choice ::
    "('a \<Rightarrow> bool) \<Rightarrow> nat \<Rightarrow> 'a weak_shuffle \<Rightarrow> py_error + 'a" where
  "shuffle_choice alive draw s =
     (if shuffle_values s = [] then Inl KeyError
      else let weak_val = shuffle_values s ! (draw mod length (shuffle_values s))
           in if alive (referent weak_val) then Inr (referent weak_val)
              else Inl AssertionError)"

definition shuffle_contains :: "'a weak_shuffle \<Rightarrow> 'a \<Rightarrow> bool" where
  "shuffle_contains s val = dict_has (weak_vals s) val"

definition shuffle_iter :: "'a weak_shuffle \<Rightarrow> 'a list" where
  "shuffle_iter s = map fst (weak_vals s)"

definition shuffle_len :: "'a weak_shuffle \<Rightarrow> nat" where
  "shuffle_len s = length (weak_vals s)"

text \<open>\<open>WeakShuffle(init)\<close>.\<close>

definition shuffle_init :: "'a list \<Rightarrow> 'a weak_shuffle" where
  "shuffle_init vals = fold shuffle_add vals empty_shuffle"

text \<open>
  The object \<open>val\<close> is collected: the weak dictionaries drop its entries, and the weak
  reference that \<open>add\<close> made calls \<open>_finalize\<close>.
\<close>

definition shuffle_collect :: "'a \<Rightarrow> ('a weak_shuffle, unit) py" where
  "shuffle_collect val = (\<lambda>s.
     case map_of (weak_vals s) val of
       None \<Rightarrow> (Inr (), s)
     | Some weak_val \<Rightarrow>
         finalize weak_val
           (s\<lparr>weak_vals := AList.delete val (weak_vals s),
              weak_vals_rev := AList.delete weak_val (weak_vals_rev s)\<rparr>))"

subsection \<open>Abstraction and invariants\<close>

text \<open>The set that the object stands for.\<close>

definition shuffle_elems :: "'a weak_shuffle \<Rightarrow> 'a set" where
  "shuffle_elems s = keys_of (weak_vals s)"

text \<open>
  The structural invariant: the dictionaries have the same elements, one index and one list
  slot for each. It says nothing about what the indexes point to.
\<close>

definition shuffle_wf :: "'a weak_shuffle \<Rightarrow> bool" where
  "shuffle_wf s \<longleftrightarrow>
     distinct (map fst (weak_vals s)) \<and>
     (\<forall>(v, r) \<in> set (weak_vals s). r = Ref v) \<and>
     distinct (map fst (weak_vals_rev s)) \<and>
     keys_of (weak_vals_rev s) = Ref ` shuffle_elems s \<and>
     distinct (map fst (indexes s)) \<and>
     keys_of (indexes s) = Ref ` shuffle_elems s \<and>
     length (shuffle_values s) = length (indexes s)"

text \<open>
  The stronger invariant on which \<open>choice\<close> rests: the index of an element is its slot.
\<close>

definition shuffle_exact :: "'a weak_shuffle \<Rightarrow> bool" where
  "shuffle_exact s \<longleftrightarrow> shuffle_wf s \<and>
     (\<forall>(r, i) \<in> set (indexes s). i < length (shuffle_values s) \<and> shuffle_values s ! i = r)"

text \<open>What \<open>choice\<close> can return: the referents in the list.\<close>

definition shuffle_drawable :: "'a weak_shuffle \<Rightarrow> 'a set" where
  "shuffle_drawable s = referent ` set (shuffle_values s)"

subsection \<open>The structural invariant\<close>

lemma inj_Ref [simp]: "inj_on Ref A"
  by (simp add: inj_on_def)

lemma weak_vals_lookup:
  "shuffle_wf s \<Longrightarrow> map_of (weak_vals s) v = (if v \<in> shuffle_elems s then Some (Ref v) else None)"
  by (auto simp: shuffle_wf_def shuffle_elems_def map_of_None_keys
      dest!: bspec intro!: map_of_is_SomeI)

lemma shuffle_contains_elems: "shuffle_contains s v \<longleftrightarrow> v \<in> shuffle_elems s"
  by (simp add: shuffle_contains_def dict_has_iff shuffle_elems_def)

lemma finite_shuffle_elems [simp]: "finite (shuffle_elems s)"
  by (simp add: shuffle_elems_def)

lemma shuffle_len_card: "shuffle_wf s \<Longrightarrow> shuffle_len s = card (shuffle_elems s)"
  unfolding shuffle_wf_def shuffle_len_def shuffle_elems_def
  by (metis distinct_card length_map set_map)

lemma shuffle_values_length:
  assumes "shuffle_wf s"
  shows "length (shuffle_values s) = card (shuffle_elems s)"
proof -
  have "length (indexes s) = card (Ref ` shuffle_elems s)"
    using assms unfolding shuffle_wf_def by (metis distinct_card length_map set_map)
  with assms show ?thesis by (simp add: shuffle_wf_def card_image)
qed

lemma shuffle_values_Nil: "shuffle_wf s \<Longrightarrow> shuffle_values s = [] \<longleftrightarrow> shuffle_elems s = {}"
  using shuffle_values_length [of s] by fastforce

lemma index_lookup:
  "shuffle_wf s \<Longrightarrow> v \<in> shuffle_elems s \<Longrightarrow> \<exists>i. map_of (indexes s) (Ref v) = Some i"
  using map_of_None_keys [of "indexes s" "Ref v"] by (auto simp: shuffle_wf_def)

lemma shuffle_wf_empty [simp]: "shuffle_wf empty_shuffle"
  and shuffle_exact_empty [simp]: "shuffle_exact empty_shuffle"
  and shuffle_elems_empty [simp]: "shuffle_elems empty_shuffle = {}"
  by (simp_all add: shuffle_exact_def shuffle_wf_def empty_shuffle_def shuffle_elems_def)

lemma shuffle_add_elems [simp]: "shuffle_elems (shuffle_add v s) = insert v (shuffle_elems s)"
  by (auto simp: shuffle_add_def shuffle_elems_def dict_has_iff dom_update)

lemma shuffle_add_present [simp]: "v \<in> shuffle_elems s \<Longrightarrow> shuffle_add v s = s"
  by (simp add: shuffle_add_def dict_has_iff shuffle_elems_def)

lemma shuffle_add_new:
  assumes "shuffle_wf s" and "v \<notin> shuffle_elems s"
  shows "shuffle_add v s =
    \<lparr>weak_vals = weak_vals s @ [(v, Ref v)], weak_vals_rev = weak_vals_rev s @ [(Ref v, v)],
     indexes = indexes s @ [(Ref v, length (shuffle_values s))],
     shuffle_values = shuffle_values s @ [Ref v]\<rparr>"
proof -
  have "Ref v \<notin> keys_of (weak_vals_rev s)" "Ref v \<notin> keys_of (indexes s)"
    using assms by (auto simp: shuffle_wf_def)
  with assms(2) show ?thesis
    by (simp add: shuffle_add_def dict_has_iff shuffle_elems_def dict_update_new)
qed

lemma shuffle_add_wf:
  assumes "shuffle_wf s"
  shows "shuffle_wf (shuffle_add v s)"
proof (cases "v \<in> shuffle_elems s")
  case True
  with assms show ?thesis by simp
next
  case False
  from assms False have "Ref v \<notin> keys_of (weak_vals_rev s)" "Ref v \<notin> keys_of (indexes s)"
    by (auto simp: shuffle_wf_def)
  with assms False show ?thesis
    by (auto simp: shuffle_add_new shuffle_wf_def shuffle_elems_def)
qed

text \<open>
  What a removal does once its guards have passed: \<open>remove_at\<close> is the effect of \<open>_finalize\<close>
  on the slot list, common to \<open>discard\<close> and to the collection of an element.
\<close>

definition remove_at :: "nat \<Rightarrow> 'b list \<Rightarrow> 'b list" where
  "remove_at i xs = butlast (if Suc i < length xs then xs[i := xs ! (length xs - 1)] else xs)"

definition shuffle_removed :: "'a \<Rightarrow> 'a weak_shuffle \<Rightarrow> 'a weak_shuffle" where
  "shuffle_removed v s =
     \<lparr>weak_vals = AList.delete v (weak_vals s),
      weak_vals_rev = AList.delete (Ref v) (weak_vals_rev s),
      indexes = AList.delete (Ref v) (indexes s),
      shuffle_values = remove_at (the (map_of (indexes s) (Ref v))) (shuffle_values s)\<rparr>"

lemma length_remove_at [simp]: "length (remove_at i xs) = length xs - 1"
  by (simp add: remove_at_def)

lemma finalize_run:
  assumes "map_of (indexes s) r = Some i" and "shuffle_values s \<noteq> []"
  shows "finalize r s =
    (Inr (), s\<lparr>indexes := AList.delete r (indexes s),
               shuffle_values := remove_at i (shuffle_values s)\<rparr>)"
proof -
  have "(int i < int (length (shuffle_values s)) - 1) = (Suc i < length (shuffle_values s))"
    and "nat (int (length (shuffle_values s)) - 1) = length (shuffle_values s) - 1"
    by linarith+
  with assms show ?thesis
    by (simp add: finalize_def remove_at_def Let_def)
qed

lemma shuffle_removal_run:
  assumes "shuffle_wf s" and "v \<in> shuffle_elems s"
  shows "shuffle_discard v s = (Inr (), shuffle_removed v s)"
    and "shuffle_collect v s = (Inr (), shuffle_removed v s)"
proof -
  obtain i where i: "map_of (indexes s) (Ref v) = Some i"
    using index_lookup [OF assms] by blast
  have ne: "shuffle_values s \<noteq> []"
    using assms by (auto simp: shuffle_values_Nil)
  have rev: "dict_has (weak_vals_rev s) (Ref v)"
    using assms by (auto simp: dict_has_iff shuffle_wf_def)
  show "shuffle_discard v s = (Inr (), shuffle_removed v s)"
    using assms i ne rev
    by (simp add: shuffle_discard_def weak_vals_lookup finalize_run shuffle_removed_def)
  show "shuffle_collect v s = (Inr (), shuffle_removed v s)"
    using assms i ne
    by (simp add: shuffle_collect_def weak_vals_lookup finalize_run shuffle_removed_def)
qed

lemma shuffle_discard_absent [simp]:
  assumes "v \<notin> shuffle_elems s"
  shows "shuffle_discard v s = (Inr (), s)" and "shuffle_collect v s = (Inr (), s)"
proof -
  have "map_of (weak_vals s) v = None"
    using assms by (simp add: shuffle_elems_def map_of_None_keys)
  then show "shuffle_discard v s = (Inr (), s)" and "shuffle_collect v s = (Inr (), s)"
    by (simp_all add: shuffle_discard_def shuffle_collect_def)
qed

lemma shuffle_removed_elems [simp]:
  "shuffle_elems (shuffle_removed v s) = shuffle_elems s - {v}"
  by (simp add: shuffle_removed_def shuffle_elems_def)

lemma shuffle_removed_wf:
  assumes "shuffle_wf s" and "v \<in> shuffle_elems s"
  shows "shuffle_wf (shuffle_removed v s)"
proof -
  have "set (AList.delete v (weak_vals s)) \<subseteq> set (weak_vals s)"
    by (auto simp: AList.delete_eq)
  then have "\<forall>(w, r) \<in> set (AList.delete v (weak_vals s)). r = Ref w"
    using assms(1) by (auto simp: shuffle_wf_def)
  moreover have "Ref ` (keys_of (weak_vals s) - {v}) = Ref ` keys_of (weak_vals s) - {Ref v}"
    by (auto simp: image_iff)
  ultimately show ?thesis
    using assms unfolding shuffle_wf_def shuffle_removed_def shuffle_elems_def
    by (simp add: dict_length_delete distinct_delete)
qed

subsection \<open>The slot invariant\<close>

lemma shuffle_exact_wf [dest]: "shuffle_exact s \<Longrightarrow> shuffle_wf s"
  by (simp add: shuffle_exact_def)

lemma exact_slot:
  assumes "shuffle_exact s" and "v \<in> shuffle_elems s"
  obtains i where "map_of (indexes s) (Ref v) = Some i"
    and "i < length (shuffle_values s)" and "shuffle_values s ! i = Ref v"
proof -
  from assms obtain i where i: "map_of (indexes s) (Ref v) = Some i"
    using index_lookup [of s v] by auto
  then have "(Ref v, i) \<in> set (indexes s)" by (rule map_of_SomeD)
  with assms(1) i that show ?thesis by (auto simp: shuffle_exact_def)
qed

lemma exact_values:
  assumes "shuffle_exact s"
  shows "set (shuffle_values s) = Ref ` shuffle_elems s" and "distinct (shuffle_values s)"
proof -
  let ?V = "set (shuffle_values s)" and ?R = "Ref ` shuffle_elems s"
  have sub: "?R \<subseteq> ?V"
    using exact_slot [OF assms] by (metis image_subsetI nth_mem)
  have len: "length (shuffle_values s) = card ?R"
    using assms by (simp add: shuffle_values_length shuffle_exact_wf card_image)
  have "card ?V \<le> card ?R" using len by (metis card_length)
  with sub show eq: "?V = ?R" by (metis card_seteq List.finite_set)
  show "distinct (shuffle_values s)" using len eq by (simp add: card_distinct)
qed

lemma drawable_iff: "v \<in> shuffle_drawable s \<longleftrightarrow> Ref v \<in> set (shuffle_values s)"
  unfolding shuffle_drawable_def by (metis image_iff weak_ref.collapse weak_ref.sel)

lemma exact_drawable: "shuffle_exact s \<Longrightarrow> shuffle_drawable s = shuffle_elems s"
  by (simp add: shuffle_drawable_def exact_values image_image)

lemma shuffle_add_exact:
  assumes "shuffle_exact s"
  shows "shuffle_exact (shuffle_add v s)"
proof (cases "v \<in> shuffle_elems s")
  case True
  with assms show ?thesis by simp
next
  case False
  from assms have "shuffle_wf s" and "shuffle_wf (shuffle_add v s)"
    by (auto intro: shuffle_add_wf)
  with assms False show ?thesis
    by (auto simp: shuffle_exact_def shuffle_add_new nth_append)
qed

lemma shuffle_init_exact:
  "shuffle_exact (shuffle_init vals) \<and> shuffle_elems (shuffle_init vals) = set vals"
proof -
  have "shuffle_exact s \<Longrightarrow> shuffle_exact (fold shuffle_add vals s) \<and>
      shuffle_elems (fold shuffle_add vals s) = set vals \<union> shuffle_elems s" for s
    by (induction vals arbitrary: s) (simp_all add: shuffle_add_exact)
  from this [of empty_shuffle] show ?thesis by (simp add: shuffle_init_def)
qed

text \<open>The slots after a removal from an exact shuffle: one slot less, the right elements.\<close>

lemma exact_removed_values:
  assumes "shuffle_exact s" and "v \<in> shuffle_elems s"
  shows "set (shuffle_values (shuffle_removed v s)) = Ref ` (shuffle_elems s - {v})"
    and "distinct (shuffle_values (shuffle_removed v s))"
proof -
  let ?vs = "shuffle_values s" and ?n = "length (shuffle_values s) - 1"
  obtain i where i: "map_of (indexes s) (Ref v) = Some i" "i < length ?vs" "?vs ! i = Ref v"
    using assms by (rule exact_slot)
  have "\<not> Suc i < length ?vs \<Longrightarrow> ?vs[i := ?vs ! ?n] = ?vs"
    using i(2) by (metis Suc_lessI diff_Suc_1 list_update_id)
  then have eq: "shuffle_values (shuffle_removed v s) = butlast (?vs[i := ?vs ! ?n])"
    using i(1) by (auto simp: shuffle_removed_def remove_at_def)
  have d: "distinct ?vs" and e: "set ?vs = Ref ` shuffle_elems s"
    using assms(1) by (simp_all add: exact_values)
  show "set (shuffle_values (shuffle_removed v s)) = Ref ` (shuffle_elems s - {v})"
    using swap_remove_set [OF d i(2) refl] i(3) e eq by (auto simp: image_iff)
  show "distinct (shuffle_values (shuffle_removed v s))"
    using swap_remove_distinct [OF d i(2) refl] eq by simp
qed

lemma exact_removed_drawable:
  "shuffle_exact s \<Longrightarrow> v \<in> shuffle_elems s \<Longrightarrow>
     shuffle_drawable (shuffle_removed v s) = shuffle_elems s - {v}"
  by (simp add: shuffle_drawable_def exact_removed_values image_image)

text \<open>Removing the element of the last slot moves nothing, so the indexes stay exact.\<close>

lemma exact_removed_last:
  assumes "shuffle_exact s" and "v \<in> shuffle_elems s"
    and last: "map_of (indexes s) (Ref v) = Some (length (shuffle_values s) - 1)"
  shows "shuffle_exact (shuffle_removed v s)"
proof -
  let ?vs = "shuffle_values s"
  have vals: "shuffle_values (shuffle_removed v s) = butlast ?vs"
    using last by (simp add: shuffle_removed_def remove_at_def)
  have "i < length (butlast ?vs) \<and> butlast ?vs ! i = r"
    if "(r, i) \<in> set (AList.delete (Ref v) (indexes s))" for r i
  proof -
    from that have ri: "(r, i) \<in> set (indexes s)" "r \<noteq> Ref v" by (auto simp: AList.delete_eq)
    then have slot: "i < length ?vs" "?vs ! i = r"
      using assms(1) by (auto simp: shuffle_exact_def)
    moreover have "?vs ! (length ?vs - 1) = Ref v"
      using exact_slot [OF assms(1,2)] last by (metis option.inject)
    ultimately have "i \<noteq> length ?vs - 1" using ri(2) by auto
    with slot show ?thesis by (simp add: nth_butlast)
  qed
  then have "\<forall>(r, i) \<in> set (indexes (shuffle_removed v s)).
      i < length (butlast ?vs) \<and> butlast ?vs ! i = r"
    by (auto simp: shuffle_removed_def)
  with vals assms(1,2) show ?thesis
    by (auto simp: shuffle_exact_def shuffle_removed_wf)
qed

subsection \<open>The contract that the members rely on\<close>

text \<open>
  \<open>MutableSet\<close>: adding and discarding never raise and act as on sets. This is all of the
  class that \<open>Members\<close> needs to keep its status index; the random choice is not part of it.
\<close>

locale mutable_set =
  fixes add :: "'a \<Rightarrow> 's \<Rightarrow> 's"
    and discard :: "'a \<Rightarrow> ('s, unit) py"
    and contains :: "'s \<Rightarrow> 'a \<Rightarrow> bool"
    and len :: "'s \<Rightarrow> nat"
    and elems :: "'s \<Rightarrow> 'a set"
    and invar :: "'s \<Rightarrow> bool"
  assumes add_invar: "invar s \<Longrightarrow> invar (add x s)"
    and add_elems: "invar s \<Longrightarrow> elems (add x s) = insert x (elems s)"
    and discard_returns: "invar s \<Longrightarrow> fst (discard x s) = Inr ()"
    and discard_invar: "invar s \<Longrightarrow> invar (snd (discard x s))"
    and discard_elems: "invar s \<Longrightarrow> elems (snd (discard x s)) = elems s - {x}"
    and contains_elems: "invar s \<Longrightarrow> contains s x = (x \<in> elems s)"
    and len_elems: "invar s \<Longrightarrow> len s = card (elems s)"
begin

text \<open>Filing an element under a criterion, the step of \<open>_refresh_statuses\<close>.\<close>

definition refile :: "bool \<Rightarrow> 'a \<Rightarrow> 's \<Rightarrow> (py_error + unit) \<times> 's" where
  "refile b x s = (if b then (Inr (), add x s) else discard x s)"

lemma refile_spec:
  assumes "invar s"
  shows "fst (refile b x s) = Inr ()" and "invar (snd (refile b x s))"
    and "elems (snd (refile b x s)) = (if b then insert x (elems s) else elems s - {x})"
  using assms
  by (simp_all add: refile_def add_invar add_elems discard_returns discard_invar discard_elems)

lemma discard_run: "invar s \<Longrightarrow> discard x s = (Inr (), snd (discard x s))"
  by (metis discard_returns prod.collapse)

end

lemma shuffle_discard_spec:
  assumes "shuffle_wf s"
  shows "fst (shuffle_discard v s) = Inr () \<and> shuffle_wf (snd (shuffle_discard v s)) \<and>
    shuffle_elems (snd (shuffle_discard v s)) = shuffle_elems s - {v}"
  using assms
  by (cases "v \<in> shuffle_elems s") (auto simp: shuffle_removal_run shuffle_removed_wf)

interpretation ws: mutable_set
    shuffle_add shuffle_discard shuffle_contains shuffle_len shuffle_elems shuffle_wf
  by unfold_locales
    (simp_all add: shuffle_add_wf shuffle_discard_spec shuffle_contains_elems shuffle_len_card)

subsection \<open>Properties\<close>

text \<open>The shuffles that programs can build.\<close>

inductive shuffle_reachable :: "'a weak_shuffle \<Rightarrow> bool" where
  reach_empty: "shuffle_reachable empty_shuffle"
| reach_add: "shuffle_reachable s \<Longrightarrow> shuffle_reachable (shuffle_add v s)"
| reach_discard: "shuffle_reachable s \<Longrightarrow> shuffle_reachable (snd (shuffle_discard v s))"
| reach_collect: "shuffle_reachable s \<Longrightarrow> shuffle_reachable (snd (shuffle_collect v s))"

lemma shuffle_collect_spec:
  "shuffle_wf s \<Longrightarrow> shuffle_collect v s = shuffle_discard v s"
  by (cases "v \<in> shuffle_elems s") (simp_all add: shuffle_removal_run)

lemma reachable_wf: "shuffle_reachable s \<Longrightarrow> shuffle_wf s"
  by (induction rule: shuffle_reachable.induct)
    (simp_all add: shuffle_add_wf shuffle_discard_spec shuffle_collect_spec)

text \<open>
  C25: Every reachable \<open>WeakShuffle\<close> is a set: membership, length and iteration agree with one
  abstract set, on which \<open>add\<close>, \<open>discard\<close> and the collection of an element act as insertion
  and removal, none of them ever raising; its slot list has one entry per element, so
  \<open>choice\<close> raises \<open>KeyError\<close> exactly on the empty set.
\<close>

theorem shuffle_refines_set:
  assumes "shuffle_reachable s"
  shows "shuffle_contains s v = (v \<in> shuffle_elems s) \<and>
    shuffle_len s = card (shuffle_elems s) \<and>
    set (shuffle_iter s) = shuffle_elems s \<and> distinct (shuffle_iter s) \<and>
    shuffle_elems (shuffle_add v s) = insert v (shuffle_elems s) \<and>
    fst (shuffle_discard v s) = Inr () \<and>
    shuffle_elems (snd (shuffle_discard v s)) = shuffle_elems s - {v} \<and>
    fst (shuffle_collect v s) = Inr () \<and>
    shuffle_elems (snd (shuffle_collect v s)) = shuffle_elems s - {v} \<and>
    (shuffle_choice alive d s = Inl KeyError) = (shuffle_elems s = {})"
proof -
  have wf: "shuffle_wf s" using assms by (rule reachable_wf)
  have "set (shuffle_iter s) = shuffle_elems s \<and> distinct (shuffle_iter s)"
    using wf by (auto simp: shuffle_iter_def shuffle_elems_def shuffle_wf_def)
  moreover have "(shuffle_choice alive d s = Inl KeyError) = (shuffle_elems s = {})"
    using shuffle_values_Nil [OF wf] by (simp add: shuffle_choice_def Let_def)
  ultimately show ?thesis
    using wf by (simp add: ws.contains_elems ws.len_elems shuffle_discard_spec shuffle_collect_spec)
qed

theorem shuffle_refines_set_witness:
  "shuffle_reachable (shuffle_add (7::nat) empty_shuffle) \<and>
   shuffle_contains (shuffle_add (7::nat) empty_shuffle) 7"
proof -
  have r: "shuffle_reachable (shuffle_add (7::nat) empty_shuffle)"
    by (rule reach_add [OF reach_empty])
  then show ?thesis using shuffle_refines_set [OF r, of 7] by simp
qed

text \<open>The elements that \<open>choice\<close> can return are those of the slot list.\<close>

lemma choice_drawable:
  assumes "shuffle_values s \<noteq> []"
  shows "(\<exists>d < length (shuffle_values s). shuffle_choice (\<lambda>_. True) d s = Inr v)
    \<longleftrightarrow> v \<in> shuffle_drawable s"
proof -
  have "(shuffle_choice (\<lambda>_. True) d s = Inr v) = (referent (shuffle_values s ! d) = v)"
    if "d < length (shuffle_values s)" for d
    using that assms by (simp add: shuffle_choice_def Let_def)
  then show ?thesis
    unfolding shuffle_drawable_def image_iff by (metis in_set_conv_nth)
qed

lemma choice_in_drawable:
  "shuffle_choice alive d s = Inr v \<Longrightarrow> v \<in> shuffle_drawable s"
  by (auto simp: shuffle_choice_def shuffle_drawable_def Let_def split: if_splits)

text \<open>
  As long as elements are only added, or a removal takes the element of the last slot, the
  index of every element is its slot, and then \<open>choice\<close> is right: it returns an element of
  the set, and a draw below the length exists for every element. One removal of any element
  still leaves exactly the elements of the set to be drawn.
\<close>

theorem choice_correct_while_exact:
  assumes "shuffle_exact s"
  shows "shuffle_exact (shuffle_add v s) \<and>
    (map_of (indexes s) (Ref w) = Some (card (shuffle_elems s) - 1) \<longrightarrow>
       shuffle_exact (snd (shuffle_discard w s))) \<and>
    (shuffle_elems s \<noteq> {} \<longrightarrow> (\<exists>u \<in> shuffle_elems s. shuffle_choice (\<lambda>_. True) d s = Inr u)) \<and>
    (u \<in> shuffle_elems s \<longrightarrow>
       (\<exists>d < shuffle_len s. shuffle_choice (\<lambda>_. True) d s = Inr u)) \<and>
    shuffle_drawable (snd (shuffle_discard w s)) = shuffle_elems s - {w}"
proof (intro conjI impI)
  have wf: "shuffle_wf s" using assms by auto
  show "shuffle_exact (shuffle_add v s)" using assms by (rule shuffle_add_exact)
  show "shuffle_exact (snd (shuffle_discard w s))"
    if "map_of (indexes s) (Ref w) = Some (card (shuffle_elems s) - 1)"
    using that assms wf
    by (cases "w \<in> shuffle_elems s")
      (simp_all add: shuffle_removal_run exact_removed_last shuffle_values_length)
  show "\<exists>u \<in> shuffle_elems s. shuffle_choice (\<lambda>_. True) d s = Inr u" if "shuffle_elems s \<noteq> {}"
    using that wf assms choice_in_drawable [of "\<lambda>_. True" d s] exact_drawable [OF assms]
    by (simp add: shuffle_choice_def Let_def shuffle_values_Nil)
  show "\<exists>d < shuffle_len s. shuffle_choice (\<lambda>_. True) d s = Inr u" if "u \<in> shuffle_elems s"
    using that wf assms choice_drawable [of s u]
    by (auto simp: exact_drawable shuffle_values_Nil shuffle_len_card shuffle_values_length)
  show "shuffle_drawable (snd (shuffle_discard w s)) = shuffle_elems s - {w}"
    using assms wf exact_removed_drawable exact_drawable
    by (cases "w \<in> shuffle_elems s") (simp_all add: shuffle_removal_run)
qed

theorem choice_correct_while_exact_witness:
  "shuffle_exact (shuffle_init [1, 2, 3 :: nat]) \<and>
   (\<exists>d < shuffle_len (shuffle_init [1, 2, 3 :: nat]).
      shuffle_choice (\<lambda>_. True) d (shuffle_init [1, 2, 3 :: nat]) = Inr 3)"
  using shuffle_init_exact [of "[1, 2, 3 :: nat]"]
    choice_correct_while_exact [where u = 3 and s = "shuffle_init [1, 2, 3 :: nat]"]
  by simp

text \<open>
  A removal does not record the new slot of the element it moves. From any exact shuffle of
  three or more elements, discard an element \<open>x\<close> that is in neither of the last two slots and
  then the element \<open>z\<close> of the last slot: \<open>z\<close>, which is no longer in the set, can still be
  drawn, and the element \<open>y\<close> of the last slot but one, which is in the set, no longer can.
\<close>

theorem discard_moves_without_reindexing:
  assumes "shuffle_exact s" and "shuffle_len s = Suc (Suc k)"
    and "map_of (indexes s) (Ref x) = Some i" and "i < k"
    and "map_of (indexes s) (Ref y) = Some k" and "map_of (indexes s) (Ref z) = Some (Suc k)"
  shows "\<exists>t. py_seq (shuffle_discard x) (shuffle_discard z) s = (Inr (), t) \<and>
    z \<notin> shuffle_elems t \<and> z \<in> shuffle_drawable t \<and>
    y \<in> shuffle_elems t \<and> y \<notin> shuffle_drawable t"
proof -
  let ?vs = "shuffle_values s" and ?t = "shuffle_removed z (shuffle_removed x s)"
  have wf: "shuffle_wf s" using assms(1) by auto
  have len: "length ?vs = Suc (Suc k)"
    using assms(2) wf by (simp add: shuffle_len_card shuffle_values_length)
  have el: "x \<in> shuffle_elems s" "y \<in> shuffle_elems s" "z \<in> shuffle_elems s"
    using assms(3,5,6) [THEN map_of_keys] wf by (auto simp: shuffle_wf_def)
  have slots: "?vs ! i = Ref x" "?vs ! k = Ref y" "?vs ! Suc k = Ref z"
    using assms(1) assms(3,5,6) [THEN map_of_SomeD] by (auto simp: shuffle_exact_def)
  have d: "distinct ?vs" using assms(1) by (rule exact_values)
  have ne: "x \<noteq> y" "x \<noteq> z" "y \<noteq> z" using assms(3-6) by auto
  have wf': "shuffle_wf (shuffle_removed x s)" using wf el(1) by (rule shuffle_removed_wf)
  have run: "py_seq (shuffle_discard x) (shuffle_discard z) s = (Inr (), ?t)"
    using wf wf' el ne by (simp add: py_seq_Inr [OF shuffle_removal_run(1)] shuffle_removal_run)
  have vals: "shuffle_values ?t = butlast (butlast (?vs[i := Ref z]))"
    using assms(3,4,6) ne len slots(3)
    by (simp add: shuffle_removed_def remove_at_def)
  then have vs': "shuffle_values ?t = take k (?vs[i := Ref z])"
    using len by (simp add: butlast_conv_take take_butlast)
  have "Ref z \<in> set (shuffle_values ?t)"
    using vs' assms(4) len by (auto simp: in_set_conv_nth intro!: exI [of _ i])
  moreover have "Ref y \<notin> set (shuffle_values ?t)"
  proof
    assume "Ref y \<in> set (shuffle_values ?t)"
    then obtain j where "j < k" "?vs[i := Ref z] ! j = Ref y"
      using vs' len by (auto simp: in_set_conv_nth)
    then have "?vs ! j = ?vs ! k"
      using slots(2) ne(3) len by (cases "j = i") simp_all
    with d len \<open>j < k\<close> show False by (simp add: nth_eq_iff_index_eq)
  qed
  ultimately show ?thesis
    using run el ne by (simp add: drawable_iff)
qed

theorem discard_moves_without_reindexing_witness:
  "\<exists>t. py_seq (shuffle_discard 1) (shuffle_discard 3) (shuffle_init [1, 2, 3 :: nat]) = (Inr (), t) \<and>
    3 \<notin> shuffle_elems t \<and> 3 \<in> shuffle_drawable t \<and> 2 \<in> shuffle_elems t \<and> 2 \<notin> shuffle_drawable t"
proof -
  have s: "shuffle_len (shuffle_init [1, 2, 3 :: nat]) = Suc (Suc 1)"
    "map_of (indexes (shuffle_init [1, 2, 3 :: nat])) (Ref 1) = Some 0"
    "map_of (indexes (shuffle_init [1, 2, 3 :: nat])) (Ref 2) = Some 1"
    "map_of (indexes (shuffle_init [1, 2, 3 :: nat])) (Ref 3) = Some (Suc 1)"
    by (simp_all add: shuffle_init_def shuffle_add_def empty_shuffle_def dict_has_def shuffle_len_def)
  show ?thesis
    using discard_moves_without_reindexing [OF _ s(1,2) _ s(3,4)] shuffle_init_exact
    by fastforce
qed

end
