(* ===== verification/Swim_Listener.thy ===== *)
theory Swim_Listener
  imports Swim_Prelude
begin

text \<open>
  The classes \<open>Listener\<close> and \<open>CallbackPoll\<close> of \<open>swimprotocol/listener.py\<close>. A call of
  \<open>poll\<close> is two steps, around its \<open>await\<close>: it registers a fresh event with an empty list,
  and when the event is set it returns the list. \<open>CallbackPoll.run\<close> polls in a loop and has no
  other \<open>await\<close>, so between two polls nothing else runs.
\<close>

subsection \<open>State and operations\<close>

text \<open>
  \<open>_waiting\<close> maps an event (a number, drawn in order) to the items received so far and the
  flag of the event. The weak key of a finished poll is gone with the poll's local variable.
\<close>

record 'a listener =
  lst_waiting :: "(nat \<times> ('a list \<times> bool)) list"
  lst_next_event :: nat

definition listener_init :: "'a listener" where
  "listener_init = \<lparr>lst_waiting = [], lst_next_event = 0\<rparr>"

text \<open>\<open>poll\<close> up to its \<open>await\<close>.\<close>

definition poll_begin :: "'a listener \<Rightarrow> nat \<times> 'a listener" where
  "poll_begin l =
     (let event = lst_next_event l
      in (event, l\<lparr>lst_waiting := AList.update event ([], False) (lst_waiting l),
                   lst_next_event := Suc event\<rparr>))"

text \<open>\<open>poll\<close> after its \<open>await\<close>: \<open>None\<close> while the event is not set.\<close>

definition poll_return :: "nat \<Rightarrow> 'a listener \<Rightarrow> ('a list \<times> 'a listener) option" where
  "poll_return event l =
     (case map_of (lst_waiting l) event of
        Some (items, True) \<Rightarrow> Some (items, l\<lparr>lst_waiting := AList.delete event (lst_waiting l)\<rparr>)
      | _ \<Rightarrow> None)"

definition notify :: "'a \<Rightarrow> 'a listener \<Rightarrow> 'a listener" where
  "notify item l =
     l\<lparr>lst_waiting := map (\<lambda>(event, (args, _)). (event, (args @ [item], True))) (lst_waiting l)\<rparr>"

text \<open>
  A \<open>CallbackPoll\<close> task: the event of the poll it is in, and the items its callback was called
  with, in order (each call is a subtask of its own).
\<close>

record callback_poll =
  cb_event :: nat

definition callback_start :: "'a listener \<Rightarrow> callback_poll \<times> 'a listener" where
  "callback_start l = (case poll_begin l of (event, l') \<Rightarrow> (\<lparr>cb_event = event\<rparr>, l'))"

text \<open>
  One round of the loop of \<open>run\<close>: return from \<open>poll\<close>, call the callback on each item, poll
  again. The result holds the calls made; a task whose event is not set does not run.
\<close>

definition callback_round ::
    "callback_poll \<Rightarrow> 'a listener \<Rightarrow> 'a list \<times> callback_poll \<times> 'a listener" where
  "callback_round c l =
     (case poll_return (cb_event c) l of
        None \<Rightarrow> ([], c, l)
      | Some (items, l') \<Rightarrow> (case callback_start l' of (c', l'') \<Rightarrow> (items, c', l'')))"

subsection \<open>Runs\<close>

text \<open>
  The schedule of one \<open>CallbackPoll\<close> among everything else that uses the listener: a producer
  notifies an item, the task gets a turn, another poll begins or returns. Entering the context
  only creates the task: it begins its first poll in its first turn, and until then it has none.
\<close>

datatype 'a listener_event = Notify 'a | Round | Other_begin | Other_return nat

record 'a listener_run =
  run_listener :: "'a listener"
  run_callback :: "callback_poll option"
  run_calls :: "'a list"

fun listener_step :: "'a listener_run \<Rightarrow> 'a listener_event \<Rightarrow> 'a listener_run" where
  "listener_step r (Notify item) = r\<lparr>run_listener := notify item (run_listener r)\<rparr>"
| "listener_step r Round =
     (case run_callback r of
        None \<Rightarrow> (case callback_start (run_listener r) of (c, l) \<Rightarrow> r\<lparr>run_listener := l, run_callback := Some c\<rparr>)
      | Some c \<Rightarrow>
          (case callback_round c (run_listener r) of
             (items, c', l) \<Rightarrow> \<lparr>run_listener = l, run_callback = Some c', run_calls = run_calls r @ items\<rparr>))"
| "listener_step r Other_begin = r\<lparr>run_listener := snd (poll_begin (run_listener r))\<rparr>"
| "listener_step r (Other_return event) =
     (if Some event = map_option cb_event (run_callback r) then r
      else case poll_return event (run_listener r) of
             None \<Rightarrow> r
           | Some (_, l) \<Rightarrow> r\<lparr>run_listener := l\<rparr>)"

definition listener_run_from :: "'a listener \<Rightarrow> 'a listener_run" where
  "listener_run_from l = \<lparr>run_listener = l, run_callback = None, run_calls = []\<rparr>"

definition notified :: "'a listener_event list \<Rightarrow> 'a list" where
  "notified es = concat (map (\<lambda>e. case e of Notify x \<Rightarrow> [x] | _ \<Rightarrow> []) es)"

text \<open>The events from the first turn of the task on.\<close>

definition from_first_turn :: "'a listener_event list \<Rightarrow> 'a listener_event list" where
  "from_first_turn es = dropWhile (\<lambda>e. e \<noteq> Round) es"

definition pending_items :: "'a listener_run \<Rightarrow> 'a list" where
  "pending_items r =
     (case run_callback r of
        None \<Rightarrow> []
      | Some c \<Rightarrow>
          (case map_of (lst_waiting (run_listener r)) (cb_event c) of
             None \<Rightarrow> [] | Some (items, _) \<Rightarrow> items))"

subsection \<open>No item is lost\<close>

text \<open>What each operation does to the list of one waiting poll.\<close>

lemma map_of_notified:
  "map_of (map (\<lambda>(event, (args, _)). (event, (args @ [x], True))) xs) e =
     map_option (\<lambda>(items, _). (items @ [x], True)) (map_of xs e)"
  by (induction xs) auto

lemma waiting_notify [simp]:
  "map_of (lst_waiting (notify x l)) e =
     map_option (\<lambda>(items, _). (items @ [x], True)) (map_of (lst_waiting l) e)"
  by (simp add: notify_def map_of_notified)

lemma next_event_notify [simp]: "lst_next_event (notify x l) = lst_next_event l"
  by (simp add: notify_def)

lemma waiting_begin [simp]:
  "map_of (lst_waiting (snd (poll_begin l))) =
     (map_of (lst_waiting l))(lst_next_event l \<mapsto> ([], False))"
  "lst_next_event (snd (poll_begin l)) = Suc (lst_next_event l)"
  "fst (poll_begin l) = lst_next_event l"
  by (simp_all add: poll_begin_def Let_def update_conv')

lemma poll_return_Some:
  "poll_return e l = Some (items, l') \<longleftrightarrow>
     map_of (lst_waiting l) e = Some (items, True) \<and>
     l' = l\<lparr>lst_waiting := AList.delete e (lst_waiting l)\<rparr>"
  by (auto simp: poll_return_def split: option.splits bool.splits)

lemma poll_return_None:
  "poll_return e l = None \<longleftrightarrow> (\<forall>items. map_of (lst_waiting l) e \<noteq> Some (items, True))"
  by (auto simp: poll_return_def split: option.splits bool.splits)

text \<open>
  The events in use were drawn before; the event of a poll is set exactly when its list is
  nonempty.
\<close>

definition listener_inv :: "'a listener \<Rightarrow> bool" where
  "listener_inv l \<longleftrightarrow>
     (\<forall>e items flag. map_of (lst_waiting l) e = Some (items, flag) \<longrightarrow>
        e < lst_next_event l \<and> flag = (items \<noteq> []))"

lemma listener_inv_init: "listener_inv listener_init"
  by (simp add: listener_inv_def listener_init_def)

lemma listener_inv_notify: "listener_inv l \<Longrightarrow> listener_inv (notify x l)"
  by (auto simp: listener_inv_def)

lemma listener_inv_begin: "listener_inv l \<Longrightarrow> listener_inv (snd (poll_begin l))"
  by (auto simp: listener_inv_def less_SucI)

lemma listener_inv_return:
  "listener_inv l \<Longrightarrow> poll_return e l = Some (items, l') \<Longrightarrow> listener_inv l'"
  by (auto simp: listener_inv_def poll_return_Some delete_conv' split: if_splits)

lemma listener_inv_fresh: "listener_inv l \<Longrightarrow> map_of (lst_waiting l) (lst_next_event l) = None"
  by (cases "map_of (lst_waiting l) (lst_next_event l)") (auto simp: listener_inv_def)

text \<open>
  The poll of the task is registered, and what it has been called with followed by what its
  poll still holds is what the producers have notified since the task started.
\<close>

definition run_inv :: "'a list \<Rightarrow> 'a listener_run \<Rightarrow> bool" where
  "run_inv sent r \<longleftrightarrow> listener_inv (run_listener r) \<and>
     (\<exists>c items flag. run_callback r = Some c \<and>
        map_of (lst_waiting (run_listener r)) (cb_event c) = Some (items, flag) \<and> sent = run_calls r @ items)"

lemma callback_round_cases:
  assumes "map_of (lst_waiting l) (cb_event c) = Some (items, flag)"
  shows "callback_round c l =
    (if flag then
       (let l' = l\<lparr>lst_waiting := AList.delete (cb_event c) (lst_waiting l)\<rparr>
        in (items, \<lparr>cb_event = lst_next_event l\<rparr>, snd (poll_begin l')))
     else ([], c, l))"
  using assms
  by (cases flag)
    (simp_all add: callback_round_def poll_return_def callback_start_def split_beta)

lemma run_inv_step:
  assumes "run_inv sent r"
  shows "run_inv (sent @ notified [e]) (listener_step r e)"
proof -
  obtain c where c: "run_callback r = Some c" using assms by (auto simp: run_inv_def)
  let ?l = "run_listener r" and ?ev = "cb_event c"
  obtain items flag where i: "map_of (lst_waiting ?l) ?ev = Some (items, flag)"
    and s: "sent = run_calls r @ items" and inv: "listener_inv ?l"
    using assms c by (auto simp: run_inv_def)
  have lt: "?ev < lst_next_event ?l" and fl: "flag = (items \<noteq> [])"
    using i inv by (auto simp: listener_inv_def)
  show ?thesis
  proof (cases e)
    case (Notify x)
    with i s inv c show ?thesis by (auto simp: run_inv_def notified_def listener_inv_notify)
  next
    case Round
    let ?l' = "?l\<lparr>lst_waiting := AList.delete ?ev (lst_waiting ?l)\<rparr>"
    have step: "listener_step r e =
        (if flag then \<lparr>run_listener = snd (poll_begin ?l'),
            run_callback = Some \<lparr>cb_event = lst_next_event ?l\<rparr>, run_calls = run_calls r @ items\<rparr>
         else r)"
      using Round callback_round_cases [OF i] c by (simp add: Let_def)
    show ?thesis
    proof (cases flag)
      case True
      with i have "poll_return ?ev ?l = Some (items, ?l')" by (simp add: poll_return_Some)
      with inv have inv': "listener_inv (snd (poll_begin ?l'))"
        by (blast intro: listener_inv_begin listener_inv_return)
      have "notified [e] = []" by (simp add: Round notified_def)
      with True s inv' show ?thesis unfolding step run_inv_def by auto
    next
      case False
      have "notified [e] = []" by (simp add: Round notified_def)
      with False assms show ?thesis unfolding step by simp
    qed
  next
    case Other_begin
    with i s lt inv c show ?thesis
      by (simp add: run_inv_def notified_def listener_inv_begin)
  next
    case (Other_return e')
    have none: "notified [e] = []" by (simp add: Other_return notified_def)
    show ?thesis
    proof (cases "e' \<noteq> ?ev \<and> poll_return e' ?l \<noteq> None")
      case True
      then obtain items' l' where ret: "poll_return e' ?l = Some (items', l')" by auto
      then have "listener_inv l'" and "map_of (lst_waiting l') ?ev = Some (items, flag)"
        using inv i True by (auto intro: listener_inv_return simp: poll_return_Some)
      moreover have "listener_step r e = r\<lparr>run_listener := l'\<rparr>"
        using Other_return True ret c by simp
      ultimately show ?thesis using none s c by (auto simp: run_inv_def)
    next
      case False
      then have "listener_step r e = r"
        using Other_return c by (auto split: option.split)
      with none assms show ?thesis by simp
    qed
  qed
qed

lemma notified_Cons: "notified (e # es) = notified [e] @ notified es"
  by (simp add: notified_def)

lemma run_inv_run: "run_inv sent r \<Longrightarrow> run_inv (sent @ notified es) (foldl listener_step r es)"
proof (induction es arbitrary: sent r)
  case Nil
  then show ?case by (simp add: notified_def)
next
  case (Cons e es)
  from Cons.IH [OF run_inv_step [OF Cons.prems]] show ?case
    by (subst notified_Cons) simp
qed

text \<open>Before the first turn nothing is heard.\<close>

lemma run_before_start:
  assumes "listener_inv (run_listener r)" and "run_callback r = None" and "run_calls r = []"
    and "Round \<notin> set es"
  shows "listener_inv (run_listener (foldl listener_step r es)) \<and>
    run_callback (foldl listener_step r es) = None \<and> run_calls (foldl listener_step r es) = []"
  using assms
proof (induction es arbitrary: r)
  case (Cons e es)
  have "listener_inv (run_listener (listener_step r e)) \<and> run_callback (listener_step r e) = None \<and>
      run_calls (listener_step r e) = []"
    using Cons.prems
    by (cases e) (auto simp: listener_inv_notify listener_inv_begin split: option.split dest: listener_inv_return)
  then show ?case using Cons.IH [of "listener_step r e"] Cons.prems(4) by simp
qed simp

lemma run_inv_first:
  assumes "listener_inv (run_listener r)" and "run_callback r = None" and "run_calls r = []"
  shows "run_inv [] (listener_step r Round)"
  using listener_inv_begin [OF assms(1)] assms(2,3)
  by (auto simp: run_inv_def callback_start_def split_beta)

lemma no_turn: "Round \<notin> set es \<Longrightarrow> notified (from_first_turn es) = []"
proof -
  assume "Round \<notin> set es"
  then have "from_first_turn es = []" by (auto simp: from_first_turn_def)
  then show ?thesis by (simp add: notified_def)
qed

lemma run_inv_from_start:
  assumes "listener_inv l"
  shows "if Round \<in> set es then run_inv (notified (from_first_turn es)) (foldl listener_step (listener_run_from l) es)
    else pending_items (foldl listener_step (listener_run_from l) es) = [] \<and>
      run_calls (foldl listener_step (listener_run_from l) es) = []"
proof -
  have start: "listener_inv (run_listener (listener_run_from l))" "run_callback (listener_run_from l) = None"
    "run_calls (listener_run_from l) = []"
    using assms by (simp_all add: listener_run_from_def)
  show ?thesis
  proof (cases "Round \<in> set es")
    case False
    with run_before_start [OF start False] show ?thesis by (simp add: pending_items_def)
  next
    case True
    then obtain xs ys where es: "es = xs @ Round # ys" "Round \<notin> set xs" by (meson split_list_first)
    then have "from_first_turn es = Round # ys" by (auto simp: from_first_turn_def dropWhile_append)
    moreover have "run_inv ([] @ notified ys) (foldl listener_step (listener_run_from l) es)"
      unfolding es(1) foldl_append foldl_Cons
      by (rule run_inv_run, rule run_inv_first) (use run_before_start [OF start es(2)] in simp_all)
    ultimately show ?thesis using True by (simp add: notified_def)
  qed
qed

subsection \<open>Properties\<close>

text \<open>
  C36: Whatever the schedule of producers, of the task and of other polls, once the task of a
  \<open>CallbackPoll\<close> has had its first turn no item is lost, duplicated or reordered: the
  callbacks made, followed by the items its current poll holds, are exactly the items notified since
  that turn; and the next turn of the task calls the callback on all of them (no lost wake-up), after
  which nothing is pending. What is notified before that turn is lost, although the context has been
  entered: no callback is ever made for it.
\<close>

theorem callbacks_complete:
  assumes "listener_inv l"
  defines "r es \<equiv> foldl listener_step (listener_run_from l) es"
  shows "run_calls (r es) @ pending_items (r es) = notified (from_first_turn es) \<and>
    run_calls (r (es @ [Round])) = notified (from_first_turn es) \<and> pending_items (r (es @ [Round])) = []"
proof -
  have eq: "run_calls (r es) @ pending_items (r es) = notified (from_first_turn es)" for es
    using run_inv_from_start [OF assms(1), of es]
    using no_turn [of es] by (auto simp: r_def run_inv_def pending_items_def split: if_splits)
  have "notified (from_first_turn (es @ [Round])) = notified (from_first_turn es)"
  proof (cases "Round \<in> set es")
    case True
    then have "from_first_turn (es @ [Round]) = from_first_turn es @ [Round]"
      by (auto simp: from_first_turn_def dropWhile_append)
    then show ?thesis by (simp add: notified_def)
  next
    case False
    then have "from_first_turn (es @ [Round]) = [Round]"
      by (auto simp: from_first_turn_def dropWhile_append)
    with no_turn [OF False] show ?thesis by (simp add: notified_def)
  qed
  moreover have "pending_items (r (es @ [Round])) = []"
  proof (cases "Round \<in> set es")
    case True
    then have "run_inv (notified (from_first_turn es)) (r es)"
      using run_inv_from_start [OF assms(1), of es] by (simp add: r_def)
    then obtain c items flag where c: "run_callback (r es) = Some c" "listener_inv (run_listener (r es))"
      and i: "map_of (lst_waiting (run_listener (r es))) (cb_event c) = Some (items, flag)"
      by (auto simp: run_inv_def)
    then have "flag = (items \<noteq> [])" by (auto simp: listener_inv_def)
    moreover have "r (es @ [Round]) = listener_step (r es) Round" by (simp add: r_def)
    ultimately show ?thesis
      using c i by (cases flag) (simp_all add: pending_items_def callback_round_cases Let_def)
  next
    case False
    have "r (es @ [Round]) = listener_step (r es) Round" by (simp add: r_def)
    moreover have "run_callback (r es) = None"
      using run_before_start [of "listener_run_from l" es] assms(1) False by (simp add: r_def listener_run_from_def)
    ultimately show ?thesis by (simp add: pending_items_def callback_start_def split_beta)
  qed
  ultimately show ?thesis using eq [of es] eq [of "es @ [Round]"] by simp
qed

theorem callbacks_complete_witness:
  "run_calls (foldl listener_step (listener_run_from listener_init)
     ([Notify 0, Round, Notify 1, Other_begin, Round, Notify 2, Notify (3::nat)] @ [Round])) = [1, 2, 3]"
  using callbacks_complete
    [OF listener_inv_init, of "[Notify 0, Round, Notify 1, Other_begin, Round, Notify 2, Notify (3::nat)]"]
  by (simp add: notified_def from_first_turn_def)

end
