(* ===== verification/Swim_Members.thy ===== *)
theory Swim_Members
  imports Swim_Packet Swim_Shuffle Swim_Listener
begin

text \<open>
  The classes \<open>MemberSnapshot\<close>, \<open>Member\<close> and \<open>Members\<close> of
  \<open>swimprotocol/members.py\<close>. A member object is the entry of its name in the dictionary
  \<open>_members\<close>: the objects are compared and hashed by name, and \<open>_local\<close> and
  \<open>_non_local\<close> keep every one of them alive, so the weak dictionaries lose nothing.
  References to members are names, and a mutation of a member updates its entry. Time and
  random bytes are arguments of the operations that read them.
\<close>

subsection \<open>Member\<close>

record snapshot =
  snap_name :: string
  snap_clock :: int
  snap_status :: status
  snap_status_time :: int
  snap_metadata :: "metadata option"

text \<open>
  \<open>m_metadata_dict\<close> is \<open>None\<close> for the object \<open>METADATA_UNKNOWN\<close>, which the code
  tells from every other dictionary by identity.
\<close>

record member =
  m_name :: string
  m_local :: bool
  m_clock :: int
  m_validity :: bytes
  m_known_clocks :: "(string \<times> int) list"
  m_status :: status
  m_status_time :: int
  m_metadata :: metadata
  m_metadata_dict :: "metadata option"
  m_previous :: snapshot
  m_pending_clock :: "int option"
  m_pending_status :: "status option"
  m_pending_metadata :: "metadata option"

definition snapshot_of :: "member \<Rightarrow> snapshot" where
  "snapshot_of m =
     \<lparr>snap_name = m_name m, snap_clock = m_clock m, snap_status = m_status m,
      snap_status_time = m_status_time m, snap_metadata = m_metadata_dict m\<rparr>"

text \<open>\<open>Member(name, local)\<close>, with the random bytes and the time it reads.\<close>

definition member_init :: "string \<Rightarrow> bool \<Rightarrow> bytes \<Rightarrow> int \<Rightarrow> member" where
  "member_init name local rnd now =
     \<lparr>m_name = name, m_local = local, m_clock = 0, m_validity = rnd, m_known_clocks = [],
      m_status = OFFLINE, m_status_time = now, m_metadata = {}, m_metadata_dict = None,
      m_previous = \<lparr>snap_name = name, snap_clock = 0, snap_status = OFFLINE,
                    snap_status_time = now, snap_metadata = None\<rparr>,
      m_pending_clock = None, m_pending_status = None, m_pending_metadata = None\<rparr>"

definition member_source :: "member \<Rightarrow> source" where
  "member_source m = \<lparr>src_name = m_name m, src_validity = m_validity m\<rparr>"

text \<open>\<open>target._needs_gossip(member)\<close>.\<close>

definition needs_gossip :: "member \<Rightarrow> member \<Rightarrow> bool" where
  "needs_gossip target member =
     (let known_clock = (case map_of (m_known_clocks target) (m_name member) of
                           None \<Rightarrow> -1 | Some c \<Rightarrow> c)
      in m_clock member > known_clock)"

definition set_clock :: "int \<Rightarrow> (member, unit) py" where
  "set_clock clock = (\<lambda>m.
     if m_pending_clock m \<noteq> None then (Inl AssertionError, m)
     else (Inr (), if clock > m_clock m then m\<lparr>m_pending_clock := Some clock\<rparr> else m))"

definition set_status :: "status \<Rightarrow> (member, unit) py" where
  "set_status status = (\<lambda>m.
     if m_pending_status m \<noteq> None then (Inl AssertionError, m)
     else case transition (m_status m) status of
            Inl e \<Rightarrow> (Inl e, m)
          | Inr t \<Rightarrow> (Inr (), if t \<noteq> m_status m then m\<lparr>m_pending_status := Some t\<rparr> else m))"

definition set_metadata :: "metadata \<Rightarrow> (member, unit) py" where
  "set_metadata metadata = (\<lambda>m.
     if m_pending_metadata m \<noteq> None then (Inl AssertionError, m)
     else (Inr (), if m_metadata_dict m = None \<or> metadata \<noteq> m_metadata m
                   then m\<lparr>m_pending_metadata := Some metadata\<rparr> else m))"

text \<open>\<open>_save\<close>: commit the pending fields; the result tells whether anything changed.\<close>

definition save :: "string option \<Rightarrow> int \<Rightarrow> int \<Rightarrow> (member, bool) py" where
  "save source next_clock now = (\<lambda>m.
     let ignore_update = (m_local m \<and> source \<noteq> None);
         previous = snapshot_of m;
         pending_clock = m_pending_clock m;
         pending_status = m_pending_status m;
         pending_metadata = m_pending_metadata m;
         m = m\<lparr>m_pending_clock := None, m_pending_status := None, m_pending_metadata := None\<rparr>
     in if pending_clock = None \<and> Some (m_name m) \<noteq> source then (Inr False, m)
        else
          let pending_clock = (if ignore_update then Some next_clock else pending_clock);
              m = (case pending_status of
                     None \<Rightarrow> m
                   | Some st \<Rightarrow>
                       if ignore_update then m else m\<lparr>m_status := st, m_status_time := now\<rparr>);
              m = (case pending_metadata of
                     None \<Rightarrow> m
                   | Some md \<Rightarrow>
                       if ignore_update then m else m\<lparr>m_metadata := md, m_metadata_dict := Some md\<rparr>);
              updated = (pending_status \<noteq> None \<or> pending_metadata \<noteq> None);
              m = (case pending_clock of
                     None \<Rightarrow> m
                   | Some c \<Rightarrow> if updated then m\<lparr>m_clock := c\<rparr> else m);
              m = (if updated then m\<lparr>m_previous := previous\<rparr> else m)
          in (Inr updated, m))"

subsection \<open>Members\<close>

text \<open>
  \<open>_non_local\<close> is a set, kept here in the order of insertion; the code iterates over it in
  an order that depends on hashes, and no property below depends on the order. \<open>_statuses\<close> is
  a \<open>defaultdict\<close>: reading a missing key inserts an empty shuffle.
\<close>

record members =
  ms_listener :: "string listener"
  ms_next_clock :: int
  ms_local :: string
  ms_non_local :: "string list"
  ms_members :: "(string \<times> member) list"
  ms_statuses :: "(status \<times> string weak_shuffle) list"

definition shuffle_at :: "status \<Rightarrow> members \<Rightarrow> string weak_shuffle" where
  "shuffle_at st ms = (case map_of (ms_statuses ms) st of None \<Rightarrow> empty_shuffle | Some s \<Rightarrow> s)"

definition put_shuffle :: "status \<Rightarrow> string weak_shuffle \<Rightarrow> members \<Rightarrow> members" where
  "put_shuffle st s ms = ms\<lparr>ms_statuses := AList.update st s (ms_statuses ms)\<rparr>"

text \<open>A statement on \<open>self._statuses[st]\<close>, and one on the member object of a name.\<close>

definition on_shuffle :: "status \<Rightarrow> (string weak_shuffle, 'a) py \<Rightarrow> (members, 'a) py" where
  "on_shuffle st = py_on (shuffle_at st) (put_shuffle st)"

definition put_member :: "string \<Rightarrow> member \<Rightarrow> members \<Rightarrow> members" where
  "put_member name m ms = ms\<lparr>ms_members := AList.update name m (ms_members ms)\<rparr>"

text \<open>
  Every caller holds a member that it got from \<open>get\<close> or \<open>local\<close>; the branch for a name
  without an object stands for no run of the code.
\<close>

definition on_member :: "string \<Rightarrow> (member, 'a) py \<Rightarrow> (members, 'a) py" where
  "on_member name op = (\<lambda>ms.
     case map_of (ms_members ms) name of
       None \<Rightarrow> (Inl KeyError, ms)
     | Some m \<Rightarrow> (case op m of (r, m') \<Rightarrow> (r, put_member name m' ms)))"

definition refresh_statuses :: "string \<Rightarrow> (members, unit) py" where
  "refresh_statuses name =
     py_bind (on_member name (py_read (\<lambda>m. m))) (\<lambda>m.
       if m_local m then py_return ()
       else py_for all_statuses (\<lambda>st.
         on_shuffle st
           (if overlaps (m_status m) st then py_modify (shuffle_add name)
            else shuffle_discard name)))"

definition notify_listener :: "string \<Rightarrow> (members, unit) py" where
  "notify_listener name = py_modify (\<lambda>ms. ms\<lparr>ms_listener := notify name (ms_listener ms)\<rparr>)"

definition update_common ::
    "int \<Rightarrow> string \<Rightarrow> string option \<Rightarrow> int \<Rightarrow> status option \<Rightarrow> metadata option \<Rightarrow> (members, unit) py"
  where
  "update_common now member source clock status metadata =
     py_bind (py_read ms_next_clock) (\<lambda>next_clock.
     py_seq (on_member member (set_clock clock)) (
     py_seq (case status of None \<Rightarrow> py_return () | Some st \<Rightarrow> on_member member (set_status st)) (
     py_seq (case metadata of None \<Rightarrow> py_return () | Some md \<Rightarrow> on_member member (set_metadata md)) (
     py_bind (on_member member (save source next_clock now)) (\<lambda>updated.
     py_seq (if updated then py_seq (refresh_statuses member) (notify_listener member)
             else py_return ()) (
     py_bind (on_member member (py_read m_clock)) (\<lambda>member_clock.
     if member_clock \<ge> next_clock
     then py_modify (\<lambda>ms. ms\<lparr>ms_next_clock := member_clock + 1\<rparr>)
     else py_return ())))))))"

definition members_update ::
    "int \<Rightarrow> string \<Rightarrow> status option \<Rightarrow> metadata option \<Rightarrow> (members, unit) py" where
  "members_update now member new_status new_metadata =
     py_bind (py_read ms_next_clock) (\<lambda>clock.
       update_common now member None clock new_status new_metadata)"

definition members_apply ::
    "int \<Rightarrow> string \<Rightarrow> string \<Rightarrow> int \<Rightarrow> status \<Rightarrow> metadata option \<Rightarrow> (members, unit) py" where
  "members_apply now member source clock status metadata =
     update_common now member (Some source) clock (Some status) metadata"

text \<open>
  \<open>get\<close>: the member is created if it is not known (its random validity is \<open>rnd\<close>), and a
  validity that differs from a non-local member's resets what that member is known to know.
\<close>

definition add_new_member :: "bytes \<Rightarrow> int \<Rightarrow> string \<Rightarrow> members \<Rightarrow> members" where
  "add_new_member rnd now name ms =
     (let m = member_init name False rnd now;
          ms = ms\<lparr>ms_non_local := List.insert name (ms_non_local ms)\<rparr>;
          ms = put_member name m ms
      in fold (\<lambda>st ms. if overlaps (m_status m) st
                       then put_shuffle st (shuffle_add name (shuffle_at st ms)) ms else ms)
           all_statuses ms)"

definition check_validity :: "bytes option \<Rightarrow> member \<Rightarrow> member" where
  "check_validity validity m =
     (case validity of
        None \<Rightarrow> m
      | Some v \<Rightarrow> if \<not> m_local m \<and> m_validity m \<noteq> v
                  then m\<lparr>m_known_clocks := [], m_validity := v\<rparr> else m)"

definition members_get ::
    "bytes \<Rightarrow> int \<Rightarrow> string \<Rightarrow> bytes option \<Rightarrow> members \<Rightarrow> members" where
  "members_get rnd now name validity ms =
     (let ms = (if map_of (ms_members ms) name = None then add_new_member rnd now name ms else ms)
      in case map_of (ms_members ms) name of
           None \<Rightarrow> ms
         | Some m \<Rightarrow> put_member name (check_validity validity m) ms)"

text \<open>
  \<open>Members(config)\<close>: the arguments are \<open>config.local_name\<close>, \<open>config.peers\<close> and
  \<open>config.local_metadata\<close>; \<open>rnd\<close> gives the random bytes drawn for each new name.
\<close>

definition members_init ::
    "(string \<Rightarrow> bytes) \<Rightarrow> int \<Rightarrow> string \<Rightarrow> string list \<Rightarrow> metadata \<Rightarrow>
     (py_error + unit) \<times> members" where
  "members_init rnd now local_name peers local_metadata =
     (let ms = \<lparr>ms_listener = listener_init, ms_next_clock = 1, ms_local = local_name,
                ms_non_local = [],
                ms_members = [(local_name, member_init local_name True (rnd local_name) now)],
                ms_statuses = []\<rparr>;
          ms = fold (\<lambda>peer. members_get (rnd peer) now peer None) peers ms
      in members_update now local_name (Some ONLINE) (Some local_metadata) ms)"

text \<open>
  \<open>find\<close>: the loop draws until it has enough distinct members. \<open>draws\<close> are the random
  numbers; \<open>None\<close> means that they ran out while the loop was still going. The members are
  all alive. The result stands for a \<open>frozenset\<close>.
  The empty index that \<open>self._statuses[status]\<close> stores under a missing status is not recorded: it is
  read like a missing one (\<open>find_stores_nothing_visible\<close>).
\<close>

fun find_loop ::
    "nat list \<Rightarrow> 'a weak_shuffle \<Rightarrow> int \<Rightarrow> 'a list \<Rightarrow> (py_error + 'a list) option" where
  "find_loop draws shuffle num_results results =
     (if int (length results) < num_results then
        (case draws of
           [] \<Rightarrow> None
         | d # ds \<Rightarrow>
             (case shuffle_choice (\<lambda>_. True) d shuffle of
                Inl e \<Rightarrow> Some (Inl e)
              | Inr v \<Rightarrow> find_loop ds shuffle num_results (List.insert v results)))
      else Some (Inr results))"

declare find_loop.simps [simp del]

definition find_bound :: "int \<Rightarrow> 'a weak_shuffle \<Rightarrow> 'a list \<Rightarrow> int" where
  "find_bound count shuffle exclude =
     (let num_excluded = length (filter (shuffle_contains shuffle) exclude);
          num_remaining = int (shuffle_len shuffle) - int num_excluded
      in min num_remaining count)"

definition members_find ::
    "nat list \<Rightarrow> int \<Rightarrow> status \<Rightarrow> string list \<Rightarrow> members \<Rightarrow> (py_error + string list) option" where
  "members_find draws count status exclude ms =
     (let shuffle = shuffle_at status ms
      in find_loop draws shuffle (find_bound count shuffle exclude) [])"

text \<open>\<open>get_status\<close>, with the entry that the \<open>defaultdict\<close> makes.\<close>

definition get_status :: "status \<Rightarrow> members \<Rightarrow> string weak_shuffle \<times> members" where
  "get_status st ms = (shuffle_at st ms, put_shuffle st (shuffle_at st ms) ms)"

definition get_gossip :: "string \<Rightarrow> members \<Rightarrow> string list" where
  "get_gossip target ms =
     (case map_of (ms_members ms) target of
        None \<Rightarrow> []
      | Some t \<Rightarrow>
          filter (\<lambda>n. case map_of (ms_members ms) n of
                        None \<Rightarrow> False | Some local \<Rightarrow> needs_gossip t local) [ms_local ms] @
          filter (\<lambda>n. case map_of (ms_members ms) n of
                        None \<Rightarrow> False
                      | Some member \<Rightarrow> m_metadata_dict member \<noteq> None \<and> needs_gossip t member)
            (ms_non_local ms))"

definition ack_gossip :: "string \<Rightarrow> string \<Rightarrow> int \<Rightarrow> (members, unit) py" where
  "ack_gossip member source clock =
     py_bind (py_read ms_next_clock) (\<lambda>next_clock.
     py_seq (py_assert (clock \<le> next_clock)) (
     on_member source (py_modify (\<lambda>m.
       m\<lparr>m_known_clocks := AList.update member clock (m_known_clocks m)\<rparr>))))"

text \<open>
  \<open>in\<close>, iteration and length of the \<open>Set[Member]\<close> interface. \<open>_members\<close> is keyed by
  names, and a member object is equal to no string.
\<close>

datatype py_key = StrKey string | MemberKey string

definition members_contains :: "py_key \<Rightarrow> members \<Rightarrow> bool" where
  "members_contains val ms =
     (case val of StrKey name \<Rightarrow> dict_has (ms_members ms) name | MemberKey name \<Rightarrow> False)"

definition members_iter :: "members \<Rightarrow> string list" where
  "members_iter ms = map (\<lambda>(name, m). m_name m) (ms_members ms)"

definition members_len :: "members \<Rightarrow> nat" where
  "members_len ms = length (ms_members ms)"

end
