(* ===== verification/Swim_Members_Laws.thy ===== *)
theory Swim_Members_Laws
  imports Swim_Members
begin

text \<open>
  What the operations of \<open>Members\<close> do, as equations: the four steps of \<open>_update\<close> on a member
  are one commit with a closed form, the status index is refiled element by element, and the
  whole of \<open>_update\<close> is a function of the commit. The invariant of the manager follows.
\<close>

subsection \<open>Statements on one member and on one shuffle\<close>

lemma alist_update_twice [simp]: "AList.update k v (AList.update k w al) = AList.update k v al"
  by (induction al) auto

lemma put_member_twice [simp]: "put_member n m (put_member n m' ms) = put_member n m ms"
  by (simp add: put_member_def)

lemma put_member_same: "map_of (ms_members ms) n = Some m \<Longrightarrow> put_member n m ms = ms"
  by (simp add: put_member_def update_triv)

lemma put_member_lookup [simp]:
  "map_of (ms_members (put_member n m ms)) = (map_of (ms_members ms))(n \<mapsto> m)"
  by (simp add: put_member_def update_conv')

lemma put_member_fields [simp]:
  "ms_listener (put_member n m ms) = ms_listener ms"
  "ms_next_clock (put_member n m ms) = ms_next_clock ms"
  "ms_local (put_member n m ms) = ms_local ms"
  "ms_non_local (put_member n m ms) = ms_non_local ms"
  "ms_statuses (put_member n m ms) = ms_statuses ms"
  "shuffle_at st (put_member n m ms) = shuffle_at st ms"
  by (simp_all add: put_member_def shuffle_at_def)

lemma shuffle_at_put [simp]:
  "shuffle_at st (put_shuffle st' s ms) = (if st = st' then s else shuffle_at st ms)"
  by (simp add: shuffle_at_def put_shuffle_def update_conv')

lemma on_member_run:
  "map_of (ms_members ms) n = Some m \<Longrightarrow>
     on_member n op ms = (fst (op m), put_member n (snd (op m)) ms)"
  by (simp add: on_member_def split_beta)

lemma on_member_read [simp]:
  "map_of (ms_members ms) n = Some m \<Longrightarrow> on_member n (py_read g) ms = (Inr (g m), ms)"
  by (simp add: on_member_run put_member_same)

text \<open>Two statements on the same member are one.\<close>

lemma on_member_bind:
  "py_bind (on_member n a) (\<lambda>x. on_member n (b x)) = on_member n (py_bind a b)"
proof
  fix ms
  show "py_bind (on_member n a) (\<lambda>x. on_member n (b x)) ms = on_member n (py_bind a b) ms"
    by (cases "map_of (ms_members ms) n")
      (auto simp: py_bind_def on_member_def split: prod.split sum.split)
qed

lemma on_member_seq: "py_seq (on_member n a) (on_member n b) = on_member n (py_seq a b)"
  unfolding py_seq_def by (rule on_member_bind)

subsection \<open>The commit of an update on one member\<close>

definition optionally :: "('a \<Rightarrow> ('s, unit) py) \<Rightarrow> 'a option \<Rightarrow> ('s, unit) py" where
  "optionally f x = (case x of None \<Rightarrow> py_return () | Some v \<Rightarrow> f v)"

definition commit ::
    "int \<Rightarrow> string option \<Rightarrow> int \<Rightarrow> int \<Rightarrow> status option \<Rightarrow> metadata option \<Rightarrow> (member, bool) py"
  where
  "commit now source clock next_clock status metadata =
     py_seq (set_clock clock) (py_seq (optionally set_status status)
       (py_seq (optionally set_metadata metadata) (save source next_clock now)))"

text \<open>The specification of the commit: which updates are accepted, which change something, how.\<close>

definition status_after :: "status \<Rightarrow> status option \<Rightarrow> status" where
  "status_after old new =
     (case new of None \<Rightarrow> old
      | Some st \<Rightarrow> (case transition old st of Inl _ \<Rightarrow> old | Inr t \<Rightarrow> t))"

definition settable :: "status option \<Rightarrow> bool" where
  "settable st \<longleftrightarrow> st \<noteq> Some AVAILABLE \<and> st \<noteq> Some UNAVAILABLE"

definition accepts :: "string option \<Rightarrow> int \<Rightarrow> member \<Rightarrow> bool" where
  "accepts source clock m \<longleftrightarrow> m_clock m < clock \<or> source = Some (m_name m)"

definition changes :: "status option \<Rightarrow> metadata option \<Rightarrow> member \<Rightarrow> bool" where
  "changes status metadata m \<longleftrightarrow>
     status_after (m_status m) status \<noteq> m_status m \<or>
     (\<exists>md. metadata = Some md \<and> (m_metadata_dict m = None \<or> md \<noteq> m_metadata m))"

definition changed ::
    "int \<Rightarrow> string option \<Rightarrow> int \<Rightarrow> int \<Rightarrow> status option \<Rightarrow> metadata option \<Rightarrow> member \<Rightarrow> member"
  where
  "changed now source clock next_clock status metadata m =
     (if m_local m \<and> source \<noteq> None then m\<lparr>m_clock := next_clock, m_previous := snapshot_of m\<rparr>
      else m\<lparr>m_clock := max clock (m_clock m),
             m_status := status_after (m_status m) status,
             m_status_time := (if status_after (m_status m) status \<noteq> m_status m then now
                               else m_status_time m),
             m_metadata := (case metadata of None \<Rightarrow> m_metadata m | Some md \<Rightarrow> md),
             m_metadata_dict := (case metadata of None \<Rightarrow> m_metadata_dict m | Some md \<Rightarrow> Some md),
             m_previous := snapshot_of m\<rparr>)"

text \<open>Between two calls a member has nothing pending, and its two metadata fields agree.\<close>

definition settled :: "member \<Rightarrow> bool" where
  "settled m \<longleftrightarrow> m_pending_clock m = None \<and> m_pending_status m = None \<and>
     m_pending_metadata m = None \<and>
     (case m_metadata_dict m of None \<Rightarrow> m_metadata m = {} | Some md \<Rightarrow> md = m_metadata m)"

lemma settled_pending:
  "settled m \<Longrightarrow> m_pending_clock m = None"
  "settled m \<Longrightarrow> m_pending_status m = None"
  "settled m \<Longrightarrow> m_pending_metadata m = None"
  by (simp_all add: settled_def)

lemma transition_settable: "settable (Some st) \<longleftrightarrow> (\<exists>t. transition s st = Inr t)"
  by (auto simp: settable_def transition_def)

text \<open>The four steps, from a settled member, in terms of the pending fields they leave.\<close>

definition pend ::
    "int option \<Rightarrow> status option \<Rightarrow> metadata option \<Rightarrow> member \<Rightarrow> member" where
  "pend pc ps pm m =
     m\<lparr>m_pending_clock := pc, m_pending_status := ps, m_pending_metadata := pm\<rparr>"

lemma pend_settled: "settled m \<Longrightarrow> pend None None None m = m"
  by (cases m) (simp add: pend_def settled_def)

lemma set_clock_run:
  assumes "settled m"
  shows "set_clock clock m = (Inr (), pend (if clock > m_clock m then Some clock else None) None None m)"
  using assms by (cases m) (simp add: set_clock_def pend_def settled_def)

lemma set_status_run:
  assumes "settable status"
  shows "optionally set_status status (pend pc None None m) =
    (Inr (), pend pc (if status_after (m_status m) status \<noteq> m_status m
                      then Some (status_after (m_status m) status) else None) None m)"
proof (cases status)
  case None
  then show ?thesis by (simp add: optionally_def status_after_def)
next
  case (Some s)
  then obtain t where "transition (m_status m) s = Inr t"
    using assms transition_settable by auto
  with Some show ?thesis
    by (simp add: optionally_def set_status_def status_after_def pend_def)
qed

lemma set_metadata_run:
  "optionally set_metadata metadata (pend pc ps None m) =
    (Inr (), pend pc ps
       (if \<exists>md. metadata = Some md \<and> (m_metadata_dict m = None \<or> md \<noteq> m_metadata m)
        then metadata else None) m)"
  by (cases metadata) (simp_all add: optionally_def set_metadata_def pend_def)

lemma save_run:
  assumes "settled m"
  shows "save source next_clock now (pend pc ps pm m) =
    (if (pc \<noteq> None \<or> source = Some (m_name m)) \<and> (ps \<noteq> None \<or> pm \<noteq> None)
     then (Inr True,
       if m_local m \<and> source \<noteq> None then m\<lparr>m_clock := next_clock, m_previous := snapshot_of m\<rparr>
       else m\<lparr>m_clock := (case pc of None \<Rightarrow> m_clock m | Some c \<Rightarrow> c),
              m_status := (case ps of None \<Rightarrow> m_status m | Some st \<Rightarrow> st),
              m_status_time := (case ps of None \<Rightarrow> m_status_time m | Some st \<Rightarrow> now),
              m_metadata := (case pm of None \<Rightarrow> m_metadata m | Some md \<Rightarrow> md),
              m_metadata_dict := (case pm of None \<Rightarrow> m_metadata_dict m | Some md \<Rightarrow> Some md),
              m_previous := snapshot_of m\<rparr>)
     else (Inr False, m))"
proof -
  obtain nm lc ck va kc st stt md mdd pv pcl pst pmd where m: "m =
      \<lparr>m_name = nm, m_local = lc, m_clock = ck, m_validity = va, m_known_clocks = kc,
       m_status = st, m_status_time = stt, m_metadata = md, m_metadata_dict = mdd,
       m_previous = pv, m_pending_clock = pcl, m_pending_status = pst, m_pending_metadata = pmd\<rparr>"
    by (cases m)
  have "pcl = None" "pst = None" "pmd = None" using assms m by (simp_all add: settled_def)
  then show ?thesis
    by (cases pc; cases ps; cases pm; cases source; cases lc)
      (simp_all add: m save_def pend_def snapshot_of_def Let_def)
qed

lemma commit_run:
  assumes "settled m" and "settable status"
  shows "commit now source clock next_clock status metadata m =
    (if accepts source clock m \<and> changes status metadata m
     then (Inr True, changed now source clock next_clock status metadata m)
     else (Inr False, m))"
proof -
  let ?pc = "if clock > m_clock m then Some clock else None"
  let ?ps = "if status_after (m_status m) status \<noteq> m_status m
             then Some (status_after (m_status m) status) else None"
  let ?pm = "if \<exists>md. metadata = Some md \<and> (m_metadata_dict m = None \<or> md \<noteq> m_metadata m)
             then metadata else None"
  have run: "commit now source clock next_clock status metadata m =
      save source next_clock now (pend ?pc ?ps ?pm m)"
    using set_clock_run [OF assms(1)] set_status_run [OF assms(2)] set_metadata_run
    by (simp add: commit_def py_seq_def py_bind_def)
  have acc: "accepts source clock m \<longleftrightarrow> ?pc \<noteq> None \<or> source = Some (m_name m)"
    and chg: "changes status metadata m \<longleftrightarrow> ?ps \<noteq> None \<or> ?pm \<noteq> None"
    by (auto simp: accepts_def changes_def)
  have clk: "(case ?pc of None \<Rightarrow> m_clock m | Some c \<Rightarrow> c) = max clock (m_clock m)"
    and sta: "(case ?ps of None \<Rightarrow> m_status m | Some st \<Rightarrow> st) = status_after (m_status m) status"
    and tim: "(case ?ps of None \<Rightarrow> m_status_time m | Some st \<Rightarrow> now) =
      (if status_after (m_status m) status \<noteq> m_status m then now else m_status_time m)"
    by (simp_all add: max_def)
  have met: "(case ?pm of None \<Rightarrow> m_metadata m | Some md \<Rightarrow> md) =
      (case metadata of None \<Rightarrow> m_metadata m | Some md \<Rightarrow> md)"
    and dic: "(case ?pm of None \<Rightarrow> m_metadata_dict m | Some md \<Rightarrow> Some md) =
      (case metadata of None \<Rightarrow> m_metadata_dict m | Some md \<Rightarrow> Some md)"
    using assms(1) by (auto simp: settled_def split: option.splits)
  show ?thesis
    unfolding run save_run [OF assms(1)] acc chg clk sta tim met dic changed_def ..
qed

lemma commit_raises:
  assumes "settled m" and "\<not> settable status"
  shows "commit now source clock next_clock status metadata m =
    (Inl ValueError, if clock > m_clock m then m\<lparr>m_pending_clock := Some clock\<rparr> else m)"
  using assms
  by (auto simp: commit_def settable_def settled_def set_clock_def py_seq_def py_bind_def
      optionally_def set_status_def)

subsection \<open>The status index\<close>

text \<open>
  The loop over the statuses refiles the member under each of them. The index is only touched
  through the contract of \<open>MutableSet\<close>.
\<close>

definition refile_all ::
    "(status \<Rightarrow> bool) \<Rightarrow> string \<Rightarrow> status list \<Rightarrow> (members, unit) py" where
  "refile_all p name sts = py_for sts (\<lambda>st. on_shuffle st
     (if p st then py_modify (shuffle_add name) else shuffle_discard name))"

lemma refile_one:
  assumes "shuffle_wf (shuffle_at st ms)"
  shows "on_shuffle st (if b then py_modify (shuffle_add name) else shuffle_discard name) ms =
    (Inr (), put_shuffle st (snd (ws.refile b name (shuffle_at st ms))) ms)"
  using ws.refile_spec(1) [OF assms, of b name]
  by (cases b) (simp_all add: on_shuffle_def py_on_run ws.refile_def)

lemma refile_all_run:
  assumes "distinct sts" and "\<forall>st \<in> set sts. shuffle_wf (shuffle_at st ms)"
  shows "\<exists>t. refile_all p name sts ms = (Inr (), ms\<lparr>ms_statuses := t\<rparr>) \<and>
    (\<forall>st. shuffle_at st (ms\<lparr>ms_statuses := t\<rparr>) =
       (if st \<in> set sts then snd (ws.refile (p st) name (shuffle_at st ms)) else shuffle_at st ms))"
  using assms
proof (induction sts arbitrary: ms)
  case Nil
  have "ms\<lparr>ms_statuses := ms_statuses ms\<rparr> = ms" by simp
  then show ?case unfolding refile_all_def by (auto intro!: exI [of _ "ms_statuses ms"])
next
  case (Cons st sts)
  let ?ms = "put_shuffle st (snd (ws.refile (p st) name (shuffle_at st ms))) ms"
  have "\<forall>st' \<in> set sts. shuffle_wf (shuffle_at st' ?ms)"
    using Cons.prems by auto
  then obtain t where t: "refile_all p name sts ?ms = (Inr (), ?ms\<lparr>ms_statuses := t\<rparr>)"
    and at: "\<And>st'. shuffle_at st' (?ms\<lparr>ms_statuses := t\<rparr>) =
       (if st' \<in> set sts then snd (ws.refile (p st') name (shuffle_at st' ?ms))
        else shuffle_at st' ?ms)"
    using Cons.IH [of ?ms] Cons.prems(1) by auto
  have same: "?ms\<lparr>ms_statuses := t\<rparr> = ms\<lparr>ms_statuses := t\<rparr>"
    by (simp add: put_shuffle_def)
  have "refile_all p name (st # sts) ms = (Inr (), ms\<lparr>ms_statuses := t\<rparr>)"
    using refile_one [of st ms "p st" name] Cons.prems(2) t
    by (simp add: refile_all_def py_seq_def py_bind_def same)
  moreover have "shuffle_at st' (ms\<lparr>ms_statuses := t\<rparr>) =
       (if st' \<in> set (st # sts) then snd (ws.refile (p st') name (shuffle_at st' ms))
        else shuffle_at st' ms)" for st'
    using at [of st'] Cons.prems(1) by (auto simp: same)
  ultimately show ?case by blast
qed

definition index_wf :: "members \<Rightarrow> bool" where
  "index_wf ms \<longleftrightarrow> (\<forall>st \<in> set all_statuses. shuffle_wf (shuffle_at st ms))"

definition refreshed :: "string \<Rightarrow> members \<Rightarrow> members" where
  "refreshed name ms = snd (refresh_statuses name ms)"

lemma refresh_run:
  assumes "map_of (ms_members ms) name = Some m" and "index_wf ms"
  shows "refresh_statuses name ms = (Inr (), refreshed name ms)"
    and "\<exists>t. refreshed name ms = ms\<lparr>ms_statuses := t\<rparr>"
    and "index_wf (refreshed name ms)"
    and "st \<in> set all_statuses \<Longrightarrow> shuffle_elems (shuffle_at st (refreshed name ms)) =
      (if m_local m then shuffle_elems (shuffle_at st ms)
       else if overlaps (m_status m) st then insert name (shuffle_elems (shuffle_at st ms))
       else shuffle_elems (shuffle_at st ms) - {name})"
proof -
  let ?p = "overlaps (m_status m)"
  have eq: "refresh_statuses name ms =
      (if m_local m then (Inr (), ms) else refile_all ?p name all_statuses ms)"
    using assms(1) by (simp add: refresh_statuses_def refile_all_def py_bind_def)
  have wf: "\<forall>st \<in> set all_statuses. shuffle_wf (shuffle_at st ms)"
    using assms(2) by (simp add: index_wf_def)
  obtain t where t: "refile_all ?p name all_statuses ms = (Inr (), ms\<lparr>ms_statuses := t\<rparr>)"
    and at: "\<And>st. shuffle_at st (ms\<lparr>ms_statuses := t\<rparr>) =
      (if st \<in> set all_statuses then snd (ws.refile (?p st) name (shuffle_at st ms))
       else shuffle_at st ms)"
    using refile_all_run [OF distinct_all_statuses wf] by blast
  have r: "refreshed name ms = (if m_local m then ms else ms\<lparr>ms_statuses := t\<rparr>)"
    by (simp add: refreshed_def eq t)
  show "refresh_statuses name ms = (Inr (), refreshed name ms)"
    by (simp add: r eq t)
  have "ms\<lparr>ms_statuses := ms_statuses ms\<rparr> = ms" by simp
  then show "\<exists>t. refreshed name ms = ms\<lparr>ms_statuses := t\<rparr>"
    unfolding r by (metis (full_types))
  show "index_wf (refreshed name ms)"
    using wf at by (auto simp: r index_wf_def ws.refile_spec(2))
  show "shuffle_elems (shuffle_at st (refreshed name ms)) =
      (if m_local m then shuffle_elems (shuffle_at st ms)
       else if ?p st then insert name (shuffle_elems (shuffle_at st ms))
       else shuffle_elems (shuffle_at st ms) - {name})" if "st \<in> set all_statuses"
    using that wf at by (simp add: r ws.refile_spec(3))
qed

subsection \<open>The invariant\<close>

text \<open>
  The entry of a name is the settled object of that name, local for one name only, with a clock
  that the manager's next clock exceeds; the non-local members are the other names; the index
  files every non-local member under exactly the statuses that its own status overlaps.
\<close>

definition member_inv :: "members \<Rightarrow> string \<Rightarrow> member \<Rightarrow> bool" where
  "member_inv ms n m \<longleftrightarrow> m_name m = n \<and> m_local m = (n = ms_local ms) \<and> settled m \<and>
     0 \<le> m_clock m \<and> m_clock m < ms_next_clock ms"

definition index_inv :: "members \<Rightarrow> bool" where
  "index_inv ms \<longleftrightarrow> index_wf ms \<and>
     (\<forall>st \<in> set all_statuses. shuffle_elems (shuffle_at st ms) =
        {n \<in> set (ms_non_local ms).
           \<exists>m. map_of (ms_members ms) n = Some m \<and> overlaps (m_status m) st})"

definition members_inv :: "members \<Rightarrow> bool" where
  "members_inv ms \<longleftrightarrow>
     (\<forall>n m. map_of (ms_members ms) n = Some m \<longrightarrow> member_inv ms n m) \<and>
     keys_of (ms_members ms) = insert (ms_local ms) (set (ms_non_local ms)) \<and>
     ms_local ms \<notin> set (ms_non_local ms) \<and> distinct (ms_non_local ms) \<and>
     distinct (map fst (ms_members ms)) \<and> index_inv ms"

lemma members_invD:
  assumes "members_inv ms"
  shows "map_of (ms_members ms) n = Some m \<Longrightarrow> m_name m = n"
    and "map_of (ms_members ms) n = Some m \<Longrightarrow> m_local m = (n = ms_local ms)"
    and "map_of (ms_members ms) n = Some m \<Longrightarrow> settled m"
    and "map_of (ms_members ms) n = Some m \<Longrightarrow> 0 \<le> m_clock m"
    and "map_of (ms_members ms) n = Some m \<Longrightarrow> m_clock m < ms_next_clock ms"
    and "map_of (ms_members ms) n = None \<longleftrightarrow> n \<noteq> ms_local ms \<and> n \<notin> set (ms_non_local ms)"
    and "ms_local ms \<notin> set (ms_non_local ms)"
    and "index_inv ms" and "index_wf ms"
  using assms by (auto simp: members_inv_def member_inv_def index_inv_def map_of_None_keys)

subsection \<open>The run of \<open>_update\<close>\<close>

text \<open>What an update that changes something leaves.\<close>

definition update_changed :: "string \<Rightarrow> member \<Rightarrow> members \<Rightarrow> members" where
  "update_changed n m ms =
     (let ms1 = refreshed n (put_member n m ms)
      in ms1\<lparr>ms_listener := notify n (ms_listener ms),
             ms_next_clock := max (ms_next_clock ms) (m_clock m + 1)\<rparr>)"

lemma update_common_commit:
  "update_common now n source clock status metadata ms =
     py_bind (on_member n (commit now source clock (ms_next_clock ms) status metadata)) (\<lambda>updated.
     py_seq (if updated then py_seq (refresh_statuses n) (notify_listener n) else py_return ()) (
     py_bind (on_member n (py_read m_clock)) (\<lambda>member_clock.
     if member_clock \<ge> ms_next_clock ms
     then py_modify (\<lambda>ms. ms\<lparr>ms_next_clock := member_clock + 1\<rparr>)
     else py_return ()))) ms"
proof -
  have "(case status of None \<Rightarrow> py_return () | Some st \<Rightarrow> on_member n (set_status st)) =
      (case status of None \<Rightarrow> py_return () | Some st \<Rightarrow> on_member n (optionally set_status status))"
    and "(case metadata of None \<Rightarrow> py_return () | Some md \<Rightarrow> on_member n (set_metadata md)) =
      (case metadata of None \<Rightarrow> py_return () | Some md \<Rightarrow> on_member n (optionally set_metadata metadata))"
    by (simp_all add: optionally_def split: option.split)
  then show ?thesis
    unfolding update_common_def commit_def
    by (cases status; cases metadata)
      (simp_all add: py_bind_def [of "py_read ms_next_clock"] optionally_def py_seq_def
        on_member_bind py_bind_assoc flip: on_member_bind)
qed

lemma update_unchanged:
  assumes inv: "members_inv ms" and m: "map_of (ms_members ms) n = Some m" and "settable status"
    and "\<not> (accepts source clock m \<and> changes status metadata m)"
  shows "update_common now n source clock status metadata ms = (Inr (), ms)"
proof -
  have "commit now source clock (ms_next_clock ms) status metadata m = (Inr False, m)"
    using assms by (simp add: commit_run members_invD)
  with m have 1: "on_member n (commit now source clock (ms_next_clock ms) status metadata) ms =
      (Inr False, ms)"
    by (simp add: on_member_run put_member_same)
  with m members_invD(5) [OF inv m] show ?thesis
    by (simp add: update_common_commit py_seq_def py_bind_def)
qed

lemma update_changes:
  assumes inv: "members_inv ms" and m: "map_of (ms_members ms) n = Some m" and "settable status"
    and "accepts source clock m" and "changes status metadata m"
  shows "update_common now n source clock status metadata ms =
    (Inr (), update_changed n (changed now source clock (ms_next_clock ms) status metadata m) ms)"
proof -
  let ?m = "changed now source clock (ms_next_clock ms) status metadata m"
  let ?ms = "put_member n ?m ms"
  have "commit now source clock (ms_next_clock ms) status metadata m = (Inr True, ?m)"
    using assms by (simp add: commit_run members_invD)
  with m have 1: "on_member n (commit now source clock (ms_next_clock ms) status metadata) ms =
      (Inr True, ?ms)"
    by (simp add: on_member_run)
  have wf: "index_wf ?ms" using inv by (simp add: index_wf_def members_invD(9) [unfolded index_wf_def])
  have at: "map_of (ms_members ?ms) n = Some ?m" by simp
  obtain t where t: "refreshed n ?ms = ?ms\<lparr>ms_statuses := t\<rparr>"
    using refresh_run(2) [OF at wf] by blast
  let ?r = "?ms\<lparr>ms_statuses := t, ms_listener := notify n (ms_listener ms)\<rparr>"
  have "py_seq (refresh_statuses n) (notify_listener n) ?ms = (Inr (), ?r)"
    using refresh_run(1) [OF at wf] t by (simp add: py_seq_def py_bind_def notify_listener_def)
  moreover have "on_member n (py_read m_clock) ?r = (Inr (m_clock ?m), ?r)"
    by (rule on_member_read) (simp add: update_conv')
  ultimately show ?thesis
    using 1 by (auto simp: update_common_commit py_seq_def py_bind_def update_changed_def t Let_def max_def)
qed

lemma update_raises:
  assumes inv: "members_inv ms" and m: "map_of (ms_members ms) n = Some m" and "\<not> settable status"
  shows "update_common now n source clock status metadata ms =
    (Inl ValueError,
     put_member n (if clock > m_clock m then m\<lparr>m_pending_clock := Some clock\<rparr> else m) ms)"
  using assms commit_raises [OF members_invD(3) [OF inv m]]
  by (simp add: update_common_commit py_bind_def on_member_run)

lemmas update_runs = update_unchanged update_changes update_raises

text \<open>The fields of an updated manager.\<close>

lemma update_changed_fields:
  assumes "index_wf ms"
  shows "ms_next_clock (update_changed n m ms) = max (ms_next_clock ms) (m_clock m + 1)"
    and "ms_local (update_changed n m ms) = ms_local ms"
    and "ms_non_local (update_changed n m ms) = ms_non_local ms"
    and "ms_members (update_changed n m ms) = AList.update n m (ms_members ms)"
    and "ms_listener (update_changed n m ms) = notify n (ms_listener ms)"
    and "index_wf (update_changed n m ms)"
    and "st \<in> set all_statuses \<Longrightarrow> shuffle_elems (shuffle_at st (update_changed n m ms)) =
      (if m_local m then shuffle_elems (shuffle_at st ms)
       else if overlaps (m_status m) st then insert n (shuffle_elems (shuffle_at st ms))
       else shuffle_elems (shuffle_at st ms) - {n})"
proof -
  let ?ms = "put_member n m ms"
  have wf: "index_wf ?ms" using assms by (simp add: index_wf_def)
  have at: "map_of (ms_members ?ms) n = Some m" by simp
  obtain t where t: "refreshed n ?ms = ?ms\<lparr>ms_statuses := t\<rparr>"
    using refresh_run(2) [OF at wf] by blast
  show "ms_next_clock (update_changed n m ms) = max (ms_next_clock ms) (m_clock m + 1)"
    and "ms_local (update_changed n m ms) = ms_local ms"
    and "ms_non_local (update_changed n m ms) = ms_non_local ms"
    and "ms_members (update_changed n m ms) = AList.update n m (ms_members ms)"
    and "ms_listener (update_changed n m ms) = notify n (ms_listener ms)"
    unfolding update_changed_def Let_def t by (simp_all add: put_member_def)
  have same: "shuffle_at st' (update_changed n m ms) = shuffle_at st' (refreshed n ?ms)" for st'
    by (simp add: update_changed_def Let_def shuffle_at_def)
  show "index_wf (update_changed n m ms)"
    using refresh_run(3) [OF at wf] by (simp add: index_wf_def same)
  show "st \<in> set all_statuses \<Longrightarrow> shuffle_elems (shuffle_at st (update_changed n m ms)) =
      (if m_local m then shuffle_elems (shuffle_at st ms)
       else if overlaps (m_status m) st then insert n (shuffle_elems (shuffle_at st ms))
       else shuffle_elems (shuffle_at st ms) - {n})"
    using refresh_run(4) [OF at wf] by (simp add: same)
qed

lemma update_changed_inv:
  assumes inv: "members_inv ms" and "n \<in> keys_of (ms_members ms)"
    and m: "m_name m = n" "m_local m = (n = ms_local ms)" "settled m" "0 \<le> m_clock m"
  shows "members_inv (update_changed n m ms)"
proof -
  let ?u = "update_changed n m ms"
  note wf = members_invD(9) [OF inv]
  note f = update_changed_fields [OF wf]
  have entry: "member_inv ?u k e" if "map_of (ms_members ?u) k = Some e" for k e
  proof (cases "k = n")
    case True
    with that m show ?thesis by (simp add: f member_inv_def update_conv')
  next
    case False
    with that have "map_of (ms_members ms) k = Some e" by (simp add: f update_conv')
    then have "member_inv ms k e" using inv by (simp add: members_inv_def)
    then show ?thesis by (auto simp: member_inv_def f)
  qed
  have keys: "keys_of (ms_members ?u) = keys_of (ms_members ms)"
    using assms(2) by (auto simp: f dom_update)
  have "shuffle_elems (shuffle_at st ?u) =
      {k \<in> set (ms_non_local ?u). \<exists>e. map_of (ms_members ?u) k = Some e \<and> overlaps (m_status e) st}"
    if "st \<in> set all_statuses" for st
  proof -
    have "shuffle_elems (shuffle_at st ms) =
        {k \<in> set (ms_non_local ms). \<exists>e. map_of (ms_members ms) k = Some e \<and> overlaps (m_status e) st}"
      using inv that by (simp add: members_inv_def index_inv_def)
    moreover have "\<not> m_local m \<Longrightarrow> n \<in> set (ms_non_local ms)" "m_local m \<Longrightarrow> n \<notin> set (ms_non_local ms)"
      using inv assms(2) m(2) by (auto simp: members_inv_def)
    ultimately show ?thesis
      using that by (auto simp: f update_conv')
  qed
  with entry keys inv f show ?thesis
    by (auto simp: members_inv_def index_inv_def distinct_update)
qed

lemma changed_settled:
  assumes "settled m"
  shows "settled (changed now source clock next_clock status metadata m)"
    and "m_name (changed now source clock next_clock status metadata m) = m_name m"
    and "m_local (changed now source clock next_clock status metadata m) = m_local m"
    and "m_known_clocks (changed now source clock next_clock status metadata m) = m_known_clocks m"
    and "m_validity (changed now source clock next_clock status metadata m) = m_validity m"
  using assms by (auto simp: changed_def settled_def split: option.split)

lemma update_inv:
  assumes inv: "members_inv ms" and m: "map_of (ms_members ms) n = Some m" and "settable status"
  shows "\<exists>ms'. update_common now n source clock status metadata ms = (Inr (), ms') \<and> members_inv ms'"
proof (cases "accepts source clock m \<and> changes status metadata m")
  case False
  with assms show ?thesis by (auto simp: update_unchanged)
next
  case True
  let ?m = "changed now source clock (ms_next_clock ms) status metadata m"
  have "0 \<le> m_clock m" "0 \<le> ms_next_clock ms"
    using members_invD(4,5) [OF inv m] by auto
  then have "0 \<le> m_clock ?m" by (auto simp: changed_def)
  then have "members_inv (update_changed n ?m ms)"
    using changed_settled [OF members_invD(3) [OF inv m]] members_invD(1,2) [OF inv m]
    by (intro update_changed_inv [OF inv] map_of_keys [OF m]) simp_all
  with True assms show ?thesis by (simp add: update_changes)
qed

subsection \<open>Getting, acknowledging, constructing\<close>

lemma file_new_member:
  assumes "distinct sts"
  shows "\<exists>t. fold (\<lambda>st ms. if p st then put_shuffle st (shuffle_add name (shuffle_at st ms)) ms else ms)
      sts ms = ms\<lparr>ms_statuses := t\<rparr> \<and>
    (\<forall>st. shuffle_at st (ms\<lparr>ms_statuses := t\<rparr>) =
       (if st \<in> set sts \<and> p st then shuffle_add name (shuffle_at st ms) else shuffle_at st ms))"
  using assms
proof (induction sts arbitrary: ms)
  case Nil
  have "ms\<lparr>ms_statuses := ms_statuses ms\<rparr> = ms" by simp
  then show ?case by (auto intro!: exI [of _ "ms_statuses ms"])
next
  case (Cons st sts)
  let ?ms = "if p st then put_shuffle st (shuffle_add name (shuffle_at st ms)) ms else ms"
  obtain t where "fold (\<lambda>st ms. if p st then put_shuffle st (shuffle_add name (shuffle_at st ms)) ms
        else ms) sts ?ms = ?ms\<lparr>ms_statuses := t\<rparr>"
    and at: "\<And>st'. shuffle_at st' (?ms\<lparr>ms_statuses := t\<rparr>) =
       (if st' \<in> set sts \<and> p st' then shuffle_add name (shuffle_at st' ?ms) else shuffle_at st' ?ms)"
    using Cons.IH [of ?ms] Cons.prems by auto
  moreover have same: "?ms\<lparr>ms_statuses := t\<rparr> = ms\<lparr>ms_statuses := t\<rparr>"
    by (simp add: put_shuffle_def)
  moreover have "shuffle_at st' (ms\<lparr>ms_statuses := t\<rparr>) =
       (if st' \<in> set (st # sts) \<and> p st' then shuffle_add name (shuffle_at st' ms)
        else shuffle_at st' ms)" for st'
    using at [of st'] Cons.prems unfolding same by auto
  ultimately show ?case by auto
qed

lemma add_new_member_fields:
  defines "ms' rnd now name ms \<equiv> add_new_member rnd now name ms"
  shows "ms_next_clock (ms' rnd now name ms) = ms_next_clock ms"
    and "ms_local (ms' rnd now name ms) = ms_local ms"
    and "ms_listener (ms' rnd now name ms) = ms_listener ms"
    and "ms_non_local (ms' rnd now name ms) = List.insert name (ms_non_local ms)"
    and "ms_members (ms' rnd now name ms) =
      AList.update name (member_init name False rnd now) (ms_members ms)"
    and "shuffle_at st (ms' rnd now name ms) =
      (if st \<in> set all_statuses \<and> overlaps OFFLINE st then shuffle_add name (shuffle_at st ms)
       else shuffle_at st ms)"
proof -
  let ?m = "member_init name False rnd now"
  let ?ms = "put_member name ?m (ms\<lparr>ms_non_local := List.insert name (ms_non_local ms)\<rparr>)"
  obtain t where t: "ms' rnd now name ms = ?ms\<lparr>ms_statuses := t\<rparr>"
    and at: "\<And>st. shuffle_at st (?ms\<lparr>ms_statuses := t\<rparr>) =
      (if st \<in> set all_statuses \<and> overlaps (m_status ?m) st then shuffle_add name (shuffle_at st ?ms)
       else shuffle_at st ?ms)"
    using file_new_member [OF distinct_all_statuses, where ms = ?ms and name = name
        and p = "overlaps (m_status ?m)"]
    unfolding ms'_def add_new_member_def Let_def by blast
  show "ms_next_clock (ms' rnd now name ms) = ms_next_clock ms"
    and "ms_local (ms' rnd now name ms) = ms_local ms"
    and "ms_listener (ms' rnd now name ms) = ms_listener ms"
    and "ms_non_local (ms' rnd now name ms) = List.insert name (ms_non_local ms)"
    and "ms_members (ms' rnd now name ms) = AList.update name ?m (ms_members ms)"
    unfolding t by (simp_all add: put_member_def)
  have "shuffle_at st ?ms = shuffle_at st ms" by (simp add: shuffle_at_def)
  then show "shuffle_at st (ms' rnd now name ms) =
      (if st \<in> set all_statuses \<and> overlaps OFFLINE st then shuffle_add name (shuffle_at st ms)
       else shuffle_at st ms)"
    unfolding t at by (simp add: member_init_def)
qed

lemma members_inv_next_clock: "members_inv ms \<Longrightarrow> 0 < ms_next_clock ms"
  using members_invD(4,5,6) [of ms "ms_local ms"]
  by (cases "map_of (ms_members ms) (ms_local ms)") auto

lemma add_new_member_inv:
  assumes inv: "members_inv ms" and new: "map_of (ms_members ms) name = None"
  shows "members_inv (add_new_member rnd now name ms)"
proof -
  let ?m = "member_init name False rnd now" and ?a = "add_new_member rnd now name ms"
  note f = add_new_member_fields
  have n: "name \<noteq> ms_local ms" "name \<notin> set (ms_non_local ms)" "name \<notin> keys_of (ms_members ms)"
    using members_invD(6) [OF inv, of name] new by (auto simp: map_of_None_keys)
  have entry: "member_inv ?a k e" if "map_of (ms_members ?a) k = Some e" for k e
  proof (cases "k = name")
    case True
    with that n members_inv_next_clock [OF inv] show ?thesis
      by (auto simp: f member_inv_def update_conv' member_init_def settled_def)
  next
    case False
    with that have "map_of (ms_members ms) k = Some e" by (simp add: f update_conv')
    with inv show ?thesis by (simp add: members_inv_def member_inv_def f)
  qed
  have "shuffle_elems (shuffle_at st ?a) =
      {k \<in> set (ms_non_local ?a). \<exists>e. map_of (ms_members ?a) k = Some e \<and> overlaps (m_status e) st}"
    if "st \<in> set all_statuses" for st
  proof -
    have "shuffle_elems (shuffle_at st ms) =
        {k \<in> set (ms_non_local ms). \<exists>e. map_of (ms_members ms) k = Some e \<and> overlaps (m_status e) st}"
      using inv that by (simp add: members_inv_def index_inv_def)
    moreover have "m_status ?m = OFFLINE" by (simp add: member_init_def)
    ultimately show ?thesis
      using that n by (auto simp: f update_conv')
  qed
  moreover have "index_wf ?a"
    using members_invD(9) [OF inv] by (simp add: index_wf_def f shuffle_add_wf)
  moreover have "keys_of (ms_members ?a) = insert (ms_local ?a) (set (ms_non_local ?a))"
    using inv by (auto simp: members_inv_def f dom_update)
  moreover have "ms_local ?a \<notin> set (ms_non_local ?a)" "distinct (ms_non_local ?a)"
    "distinct (map fst (ms_members ?a))"
    using inv n by (auto simp: members_inv_def f distinct_update)
  ultimately show ?thesis
    using entry by (auto simp: members_inv_def index_inv_def)
qed

text \<open>A new entry that keeps what the invariant reads keeps the invariant.\<close>

lemma put_member_inv:
  assumes inv: "members_inv ms" and m: "map_of (ms_members ms) n = Some m"
    and "m_name m' = m_name m" "m_local m' = m_local m" "m_clock m' = m_clock m"
    and "m_status m' = m_status m" "settled m'"
  shows "members_inv (put_member n m' ms)"
proof -
  have 1: "member_inv (put_member n m' ms) k e"
    if "map_of (ms_members (put_member n m' ms)) k = Some e" for k e
    using that assms members_invD(1,2,4,5) [OF inv m] inv
    by (cases "k = n") (auto simp: member_inv_def members_inv_def)
  have 2: "(\<exists>e. ((map_of (ms_members ms))(n \<mapsto> m')) k = Some e \<and> overlaps (m_status e) st) \<longleftrightarrow>
      (\<exists>e. map_of (ms_members ms) k = Some e \<and> overlaps (m_status e) st)" for k st
    using m assms(6) by auto
  have 3: "keys_of (ms_members (put_member n m' ms)) = keys_of (ms_members ms)"
    using map_of_keys [OF m] by (auto simp: put_member_def dom_update)
  have 4: "distinct (map fst (ms_members (put_member n m' ms)))"
    using inv by (simp add: put_member_def members_inv_def distinct_update)
  have 5: "index_inv (put_member n m' ms)"
    using members_invD(8) [OF inv]
    unfolding index_inv_def index_wf_def put_member_fields put_member_lookup 2 .
  show ?thesis
    using inv unfolding members_inv_def
    by (intro conjI allI impI 1 4 5) (simp_all add: 3)
qed

lemma check_validity_same [simp]:
  "m_name (check_validity v m) = m_name m" "m_local (check_validity v m) = m_local m"
  "m_clock (check_validity v m) = m_clock m" "m_status (check_validity v m) = m_status m"
  "m_metadata (check_validity v m) = m_metadata m"
  "m_metadata_dict (check_validity v m) = m_metadata_dict m"
  "settled (check_validity v m) = settled m"
  by (auto simp: check_validity_def settled_def split: option.split)

text \<open>The entries after \<open>get\<close>.\<close>

lemma members_get_lookup:
  "map_of (ms_members (members_get rnd now n v ms)) =
     (map_of (ms_members ms))(n \<mapsto> check_validity v
        (case map_of (ms_members ms) n of None \<Rightarrow> member_init n False rnd now | Some m \<Rightarrow> m))"
  by (cases "map_of (ms_members ms) n")
    (auto simp: members_get_def Let_def add_new_member_fields update_conv')

lemma members_get_fields:
  "ms_next_clock (members_get rnd now n v ms) = ms_next_clock ms"
  "ms_local (members_get rnd now n v ms) = ms_local ms"
  "ms_listener (members_get rnd now n v ms) = ms_listener ms"
  by (auto simp: members_get_def Let_def add_new_member_fields split: option.split)

lemma members_get_inv:
  assumes "members_inv ms"
  shows "members_inv (members_get rnd now n v ms)"
proof -
  let ?ms = "if map_of (ms_members ms) n = None then add_new_member rnd now n ms else ms"
  have inv: "members_inv ?ms" using assms add_new_member_inv by simp
  obtain m where m: "map_of (ms_members ?ms) n = Some m"
    by (cases "map_of (ms_members ms) n") (auto simp: add_new_member_fields update_conv')
  have "members_inv (put_member n (check_validity v m) ?ms)"
    using members_invD(3) [OF inv m] by (intro put_member_inv [OF inv m]) simp_all
  with m show ?thesis by (simp add: members_get_def Let_def)
qed

lemma ack_gossip_run:
  assumes "map_of (ms_members ms) source = Some m"
  shows "ack_gossip member source clock ms =
    (if clock \<le> ms_next_clock ms
     then (Inr (), put_member source
            (m\<lparr>m_known_clocks := AList.update member clock (m_known_clocks m)\<rparr>) ms)
     else (Inl AssertionError, ms))"
  using assms by (simp add: ack_gossip_def py_bind_def py_seq_def on_member_run)

lemma ack_gossip_inv:
  assumes inv: "members_inv ms"
  shows "members_inv (snd (ack_gossip member source clock ms))"
proof (cases "map_of (ms_members ms) source")
  case None
  with inv show ?thesis by (simp add: ack_gossip_def py_bind_def py_seq_def on_member_def)
next
  case (Some m)
  have "members_inv (put_member source
      (m\<lparr>m_known_clocks := AList.update member clock (m_known_clocks m)\<rparr>) ms)"
    using members_invD(3) [OF inv Some]
    by (intro put_member_inv [OF inv Some]) (simp_all add: settled_def split: option.splits)
  with inv show ?thesis by (simp add: ack_gossip_run [OF Some])
qed

end
