(* ===== verification/Swim_Members_Props.thy ===== *)
theory Swim_Members_Props
  imports Swim_Members_Laws
begin

text \<open>
  The properties of \<open>Members\<close>: the invariant of every reachable manager, the sequence clock,
  the rules by which an update or a gossip is applied, acknowledgement and resynchronisation,
  and the places where the code does less than its documentation says.
\<close>

subsection \<open>Construction and reachable managers\<close>

definition members_blank :: "(string \<Rightarrow> bytes) \<Rightarrow> int \<Rightarrow> string \<Rightarrow> members" where
  "members_blank rnd now local_name =
     \<lparr>ms_listener = listener_init, ms_next_clock = 1, ms_local = local_name, ms_non_local = [],
      ms_members = [(local_name, member_init local_name True (rnd local_name) now)],
      ms_statuses = []\<rparr>"

lemma members_blank_inv: "members_inv (members_blank rnd now local_name)"
  by (auto simp: members_blank_def members_inv_def member_inv_def member_init_def settled_def
      index_inv_def index_wf_def shuffle_at_def)

definition members_peers ::
    "(string \<Rightarrow> bytes) \<Rightarrow> int \<Rightarrow> string \<Rightarrow> string list \<Rightarrow> members" where
  "members_peers rnd now local_name peers =
     fold (\<lambda>peer. members_get (rnd peer) now peer None) peers (members_blank rnd now local_name)"

lemma members_init_peers:
  "members_init rnd now local_name peers md =
     members_update now local_name (Some ONLINE) (Some md) (members_peers rnd now local_name peers)"
  by (simp add: members_init_def members_peers_def members_blank_def Let_def)

text \<open>Before the first update: the local member is fresh, the peers are fresh and offline.\<close>

lemma members_peers_state:
  defines "ms rnd now l ps \<equiv> members_peers rnd now l ps"
  shows "members_inv (ms rnd now l ps) \<and> ms_next_clock (ms rnd now l ps) = 1 \<and>
    ms_local (ms rnd now l ps) = l \<and>
    (\<forall>n. map_of (ms_members (ms rnd now l ps)) n =
      (if n = l then Some (member_init l True (rnd l) now)
       else if n \<in> set ps then Some (member_init n False (rnd n) now) else None))"
proof -
  let ?Q = "\<lambda>S s. members_inv s \<and> ms_next_clock s = 1 \<and> ms_local s = l \<and>
    (\<forall>n. map_of (ms_members s) n =
      (if n = l then Some (member_init l True (rnd l) now)
       else if n \<in> S then Some (member_init n False (rnd n) now) else None))"
  have "?Q S s \<Longrightarrow> ?Q (S \<union> set ps) (fold (\<lambda>peer. members_get (rnd peer) now peer None) ps s)" for S s
  proof (induction ps arbitrary: S s)
    case Nil
    then show ?case by simp
  next
    case (Cons p ps)
    have "?Q (insert p S) (members_get (rnd p) now p None s)"
      using Cons.prems
      by (auto simp: members_get_inv members_get_fields members_get_lookup check_validity_def)
    from Cons.IH [OF this] show ?case by simp
  qed
  moreover have "?Q {} (members_blank rnd now l)"
    by (simp add: members_blank_inv) (simp add: members_blank_def)
  ultimately have "?Q ({} \<union> set ps) (members_peers rnd now l ps)"
    unfolding members_peers_def by blast
  then show ?thesis by (simp add: ms_def)
qed

text \<open>\<open>update\<close> and \<open>apply\<close> as instances of \<open>_update\<close>.\<close>

lemma members_update_common:
  "members_update now n st md ms = update_common now n None (ms_next_clock ms) st md ms"
  by (simp add: members_update_def py_bind_def)

lemma update_common_unknown:
  "map_of (ms_members ms) n = None \<Longrightarrow>
     update_common now n source clock st md ms = (Inl KeyError, ms)"
  by (simp add: update_common_commit py_bind_def on_member_def)

lemma update_common_inv:
  assumes "members_inv ms" and "settable st"
  shows "members_inv (snd (update_common now n source clock st md ms))"
proof (cases "map_of (ms_members ms) n")
  case None
  with assms(1) show ?thesis by (simp add: update_common_unknown)
next
  case (Some m)
  with update_inv [OF assms(1) Some assms(2), of now source clock md] show ?thesis by auto
qed

text \<open>
  The operations as steps. A step is the whole run of the call, whether it returns or raises;
  statuses that \<open>transition\<close> refuses are left out (see \<open>aggregate_status_wedges_member\<close>).
\<close>

inductive members_step :: "members \<Rightarrow> members \<Rightarrow> bool" where
  step_get: "members_step ms (members_get rnd now name validity ms)"
| step_update: "settable st \<Longrightarrow> members_step ms (snd (members_update now name st md ms))"
| step_apply:
    "settable (Some st) \<Longrightarrow> members_step ms (snd (members_apply now name source clock st md ms))"
| step_ack: "members_step ms (snd (ack_gossip name source clock ms))"

inductive members_reachable :: "members \<Rightarrow> bool" where
  reach_init:
    "members_init rnd now name peers md = (Inr (), ms) \<Longrightarrow> members_reachable ms"
| reach_step: "members_reachable ms \<Longrightarrow> members_step ms ms' \<Longrightarrow> members_reachable ms'"

lemma settable_simps [simp]:
  "settable None" "settable (Some ONLINE)" "settable (Some OFFLINE)" "settable (Some SUSPECT)"
  "settable (Some ALL_STATUS)" "\<not> settable (Some AVAILABLE)" "\<not> settable (Some UNAVAILABLE)"
  by (simp_all add: settable_def)

lemma real_settable: "real_status st \<Longrightarrow> settable (Some st)"
  by (auto simp: real_status_def)

lemma members_step_inv: "members_step ms ms' \<Longrightarrow> members_inv ms \<Longrightarrow> members_inv ms'"
  by (induction rule: members_step.induct)
    (simp_all add: members_get_inv members_update_common members_apply_def update_common_inv
      ack_gossip_inv)

lemma reachable_members_inv: "members_reachable ms \<Longrightarrow> members_inv ms"
proof (induction rule: members_reachable.induct)
  case (reach_init rnd now name peers md ms)
  have "members_inv (snd (members_init rnd now name peers md))"
    unfolding members_init_peers members_update_common
    using members_peers_state by (intro update_common_inv) auto
  with reach_init show ?case by simp
next
  case (reach_step ms ms')
  then show ?case by (simp add: members_step_inv)
qed

lemma changes_initial: "changes (Some ONLINE) (Some md) (member_init l b rnd now)"
  by (simp add: changes_def member_init_def)

lemma members_init_run: "members_init rnd now l peers md =
    (Inr (), snd (members_init rnd now l peers md))"
proof -
  have "map_of (ms_members (members_peers rnd now l peers)) l = Some (member_init l True (rnd l) now)"
    and "members_inv (members_peers rnd now l peers)"
    using members_peers_state by auto
  from update_inv [OF this(2,1)] show ?thesis
    unfolding members_init_peers members_update_common by (metis settable_simps(2) snd_conv)
qed

lemma update_changed_lookup:
  "members_inv ms \<Longrightarrow> map_of (ms_members (update_changed n m ms)) = (map_of (ms_members ms))(n \<mapsto> m)"
  by (simp add: update_changed_fields members_invD(9) update_conv')

text \<open>The manager that the constructor builds, in closed form.\<close>

lemma members_init_result:
  "members_init rnd now l peers md = (Inr (), update_changed l
     (changed now None 1 1 (Some ONLINE) (Some md) (member_init l True (rnd l) now))
     (members_peers rnd now l peers))"
proof -
  have "accepts None 1 (member_init l True (rnd l) now)"
    by (simp add: accepts_def member_init_def)
  then show ?thesis
    unfolding members_init_peers members_update_common
    by (simp add: update_changes members_peers_state changes_initial)
qed

text \<open>A concrete manager for the examples below: the local member and some peers.\<close>

definition demo_members :: "string list \<Rightarrow> members" where
  "demo_members peers = snd (members_init (\<lambda>_. []) 0 ''me'' peers {(''k'', [1])})"

definition demo_me :: member where
  "demo_me = changed 0 None 1 1 (Some ONLINE) (Some {(''k'', [1])}) (member_init ''me'' True [] 0)"

lemma demo_members_init:
  "members_init (\<lambda>_. []) 0 ''me'' peers {(''k'', [1])} = (Inr (), demo_members peers)"
  using members_init_run by (simp add: demo_members_def)

lemma demo_reachable: "members_reachable (demo_members peers)"
  by (rule reach_init [OF demo_members_init])

lemma demo_fields:
  "ms_next_clock (demo_members peers) = 2"
  "ms_local (demo_members peers) = ''me''"
  "map_of (ms_members (demo_members peers)) n =
     (if n = ''me'' then Some demo_me
      else if n \<in> set peers then Some (member_init n False [] 0) else None)"
  using members_init_result [of "\<lambda>_. []" 0 "''me''" peers "{(''k'', [1])}"]
  by (simp_all add: demo_members_def demo_me_def update_changed_lookup members_peers_state
      update_changed_fields members_invD(9) update_conv')
    (simp add: changed_def member_init_def)

lemma demo_me_fields [simp]:
  "m_name demo_me = ''me''" "m_local demo_me" "m_clock demo_me = 1" "m_status demo_me = ONLINE"
  "m_metadata_dict demo_me = Some {(''k'', [1])}" "m_metadata demo_me = {(''k'', [1])}"
  "m_known_clocks demo_me = []"
  by (simp_all add: demo_me_def changed_def member_init_def status_after_def)

lemma member_init_fields [simp]:
  "m_name (member_init n l rnd now) = n" "m_local (member_init n l rnd now) = l"
  "m_clock (member_init n l rnd now) = 0" "m_status (member_init n l rnd now) = OFFLINE"
  "m_metadata_dict (member_init n l rnd now) = None" "m_metadata (member_init n l rnd now) = {}"
  "m_known_clocks (member_init n l rnd now) = []" "m_validity (member_init n l rnd now) = rnd"
  by (simp_all add: member_init_def)

text \<open>
  The constructor never raises: it leaves a manager in which the local member is online at
  clock 1 with the configured metadata, every other configured peer is offline at clock 0 with
  unknown metadata, and the next clock is 2.
\<close>

theorem members_init_state:
  "\<exists>ms. members_init rnd now l peers md = (Inr (), ms) \<and> members_reachable ms \<and>
    ms_next_clock ms = 2 \<and> ms_local ms = l \<and> set (ms_non_local ms) = set peers - {l} \<and>
    (\<forall>n. case map_of (ms_members ms) n of
       None \<Rightarrow> n \<noteq> l \<and> n \<notin> set peers
     | Some m \<Rightarrow> m_name m = n \<and> m_local m = (n = l) \<and>
         (if n = l then m_status m = ONLINE \<and> m_clock m = 1 \<and> m_metadata_dict m = Some md
          else n \<in> set peers \<and> m_status m = OFFLINE \<and> m_clock m = 0 \<and> m_metadata_dict m = None))"
proof -
  let ?p = "members_peers rnd now l peers" and ?l = "member_init l True (rnd l) now"
  have inv: "members_inv ?p" and nc: "ms_next_clock ?p = 1" and loc: "ms_local ?p = l"
    and at: "\<And>n. map_of (ms_members ?p) n =
      (if n = l then Some ?l else if n \<in> set peers then Some (member_init n False (rnd n) now) else None)"
    using members_peers_state by auto
  let ?m = "changed now None 1 1 (Some ONLINE) (Some md) ?l"
  let ?ms = "update_changed l ?m ?p"
  note f = update_changed_fields [OF members_invD(9) [OF inv]]
  have run: "members_init rnd now l peers md = (Inr (), ?ms)" by (rule members_init_result)
  then have reach: "members_reachable ?ms" by (rule reach_init)
  have m: "m_name ?m = l \<and> m_local ?m \<and> m_status ?m = ONLINE \<and> m_clock ?m = 1 \<and> m_metadata_dict ?m = Some md"
    by (simp add: changed_def member_init_def status_after_def)
  have "(n \<in> set (ms_non_local ?p)) = (n \<in> set peers - {l})" for n
    using members_invD(6) [OF inv, of n] members_invD(7) [OF inv] at [of n]
    by (cases "n = l") (simp_all add: loc split: if_splits)
  then have "set (ms_non_local ?p) = set peers - {l}" by blast
  moreover have "map_of (ms_members ?ms) = (map_of (ms_members ?p))(l \<mapsto> ?m)"
    by (simp add: f update_conv')
  ultimately show ?thesis
    using run reach m by (auto simp: f nc loc at member_init_def intro!: exI [of _ ?ms])
qed

text \<open>The clock and the metadata of an entry, for the statements about gossip.\<close>

definition clock_at :: "members \<Rightarrow> string \<Rightarrow> int" where
  "clock_at ms n = (case map_of (ms_members ms) n of None \<Rightarrow> -1 | Some m \<Rightarrow> m_clock m)"

definition status_at :: "members \<Rightarrow> string \<Rightarrow> status option" where
  "status_at ms n = map_option m_status (map_of (ms_members ms) n)"

definition metadata_at :: "members \<Rightarrow> string \<Rightarrow> metadata option" where
  "metadata_at ms n = (case map_of (ms_members ms) n of None \<Rightarrow> None | Some m \<Rightarrow> m_metadata_dict m)"

lemma at_simps [simp]:
  assumes "map_of (ms_members ms) n = Some m"
  shows "clock_at ms n = m_clock m" "status_at ms n = Some (m_status m)"
    "metadata_at ms n = m_metadata_dict m"
  using assms by (simp_all add: clock_at_def status_at_def metadata_at_def)

subsection \<open>The sequence clock\<close>

text \<open>
  C1: In every reachable manager nothing is pending, every member's clock is below the next
  clock, only the entry of the local name is local, and each member of the status enumeration
  files exactly the non-local members whose status it overlaps.
\<close>

theorem reachable_invariant:
  assumes "members_reachable ms"
  shows "(\<forall>n m. map_of (ms_members ms) n = Some m \<longrightarrow>
      m_name m = n \<and> (m_local m \<longleftrightarrow> n = ms_local ms) \<and>
      m_pending_clock m = None \<and> m_pending_status m = None \<and> m_pending_metadata m = None \<and>
      0 \<le> m_clock m \<and> m_clock m < ms_next_clock ms) \<and>
    (\<forall>st \<in> set all_statuses. shuffle_elems (shuffle_at st ms) =
      {n \<in> set (ms_non_local ms). \<exists>m. map_of (ms_members ms) n = Some m \<and> overlaps (m_status m) st})"
  using reachable_members_inv [OF assms]
  by (auto simp: members_invD settled_pending dest: members_invD(3)
      simp: index_inv_def [THEN iffD1, OF members_invD(8), THEN conjunct2])

theorem reachable_invariant_witness:
  "members_reachable (demo_members [''a'']) \<and>
   shuffle_elems (shuffle_at UNAVAILABLE (demo_members [''a''])) \<subseteq>
     set (ms_non_local (demo_members [''a'']))"
  using reachable_invariant [OF demo_reachable [of "[''a'']"]] demo_reachable
  by (auto simp: all_statuses_def)

text \<open>What one update leaves at every name: the old entry, or a changed one at one name.\<close>

lemma update_common_cases:
  assumes inv: "members_inv ms" and "settable st"
  obtains "snd (update_common now n source clock st md ms) = ms"
  | m where "map_of (ms_members ms) n = Some m" "accepts source clock m" "changes st md m"
      "snd (update_common now n source clock st md ms) =
         update_changed n (changed now source clock (ms_next_clock ms) st md m) ms"
proof (cases "map_of (ms_members ms) n")
  case None
  with that(1) show ?thesis by (simp add: update_common_unknown)
next
  case (Some m)
  with that assms show ?thesis
    by (cases "accepts source clock m \<and> changes st md m") (auto simp: update_unchanged update_changes)
qed

text \<open>
  C22: The sequence clock only grows: no operation removes a member, lowers a member's clock or
  the next clock, or breaks the rule that the next clock exceeds every member's clock.
\<close>

theorem clocks_never_decrease:
  assumes "members_reachable ms" and "members_step ms ms'" and "map_of (ms_members ms) n = Some m"
  shows "\<exists>m'. map_of (ms_members ms') n = Some m' \<and> m_clock m \<le> m_clock m' \<and>
    m_clock m' < ms_next_clock ms' \<and> ms_next_clock ms \<le> ms_next_clock ms'"
proof -
  have inv: "members_inv ms" using assms(1) by (rule reachable_members_inv)
  have inv': "members_inv ms'" using assms(2) inv by (rule members_step_inv)
  have upd: "\<exists>m'. map_of (ms_members u) n = Some m' \<and> m_clock m \<le> m_clock m' \<and>
      ms_next_clock ms \<le> ms_next_clock u"
    if "settable st" and u: "u = snd (update_common now k source clock st md ms)"
    for u now k source clock st md
  proof (rule update_common_cases [OF inv that(1), of now k source clock md])
    assume "snd (update_common now k source clock st md ms) = ms"
    with u assms(3) show ?thesis by simp
  next
    fix e
    assume e: "map_of (ms_members ms) k = Some e"
      and eq: "snd (update_common now k source clock st md ms) =
         update_changed k (changed now source clock (ms_next_clock ms) st md e) ms"
    have "m_clock e \<le> m_clock (changed now source clock (ms_next_clock ms) st md e)"
      using members_invD(5) [OF inv e] by (simp add: changed_def)
    with u eq e assms(3) show ?thesis
      by (auto simp: update_changed_fields members_invD(9) [OF inv] update_conv')
  qed
  have "\<exists>m'. map_of (ms_members ms') n = Some m' \<and> m_clock m \<le> m_clock m' \<and>
      ms_next_clock ms \<le> ms_next_clock ms'"
    using assms(2)
  proof cases
    case (step_get rnd now name validity)
    with assms(3) show ?thesis by (auto simp: members_get_lookup members_get_fields)
  next
    case (step_update st now name md)
    then show ?thesis using upd by (simp add: members_update_common)
  next
    case (step_apply st now name source clock md)
    then show ?thesis using upd by (simp add: members_apply_def)
  next
    case (step_ack name source clock)
    with assms(3) show ?thesis
      by (cases "map_of (ms_members ms) source")
        (auto simp: ack_gossip_run ack_gossip_def py_bind_def py_seq_def on_member_def)
  qed
  with members_invD(5) [OF inv'] show ?thesis by blast
qed

theorem clocks_never_decrease_witness:
  "1 \<le> clock_at (snd (members_update 5 ''me'' (Some OFFLINE) None (demo_members [''a'']))) ''me'' \<and>
   2 \<le> ms_next_clock (snd (members_update 5 ''me'' (Some OFFLINE) None (demo_members [''a''])))"
proof -
  have "members_step (demo_members [''a''])
      (snd (members_update 5 ''me'' (Some OFFLINE) None (demo_members [''a''])))"
    by (rule step_update) simp
  from clocks_never_decrease [OF demo_reachable this, of "''me''"] show ?thesis
    by (auto simp: demo_fields)
qed

subsection \<open>Local updates\<close>

text \<open>
  C18: An update by the local process always takes effect: it returns, an update that changes
  nothing leaves the manager as it was, and one that changes something writes the filtered
  status and the metadata, stamps the member with a clock above every clock known before, keeps
  a snapshot of the member as it was, leaves every other member alone and notifies the listener
  once.
\<close>

theorem local_update_effect:
  assumes "members_reachable ms" and "map_of (ms_members ms) n = Some m" and "settable st"
  shows "\<exists>ms'. members_update now n st md ms = (Inr (), ms') \<and>
    (if changes st md m then
       (\<exists>m'. map_of (ms_members ms') = (map_of (ms_members ms))(n \<mapsto> m') \<and>
          m_clock m' = ms_next_clock ms \<and> ms_next_clock ms' = ms_next_clock ms + 1 \<and>
          (\<forall>k e. map_of (ms_members ms) k = Some e \<longrightarrow> m_clock e < m_clock m') \<and>
          m_status m' = status_after (m_status m) st \<and>
          m_metadata_dict m' = (case md of None \<Rightarrow> m_metadata_dict m | Some d \<Rightarrow> Some d) \<and>
          m_previous m' = snapshot_of m) \<and>
       ms_listener ms' = notify n (ms_listener ms)
     else ms' = ms)"
proof (cases "changes st md m")
  case False
  with assms reachable_members_inv [OF assms(1)] show ?thesis
    by (simp add: members_update_common update_unchanged)
next
  case True
  have inv: "members_inv ms" using assms(1) by (rule reachable_members_inv)
  let ?m = "changed now None (ms_next_clock ms) (ms_next_clock ms) st md m"
  have "accepts None (ms_next_clock ms) m"
    using members_invD(5) [OF inv assms(2)] by (simp add: accepts_def)
  with True assms inv have run: "members_update now n st md ms = (Inr (), update_changed n ?m ms)"
    by (simp add: members_update_common update_changes)
  have "m_clock ?m = ms_next_clock ms" "m_status ?m = status_after (m_status m) st"
    "m_metadata_dict ?m = (case md of None \<Rightarrow> m_metadata_dict m | Some d \<Rightarrow> Some d)"
    "m_previous ?m = snapshot_of m"
    using members_invD(5) [OF inv assms(2)] by (simp_all add: changed_def)
  with True run show ?thesis
    using members_invD(5) [OF inv]
    by (auto simp: update_conv' update_changed_fields members_invD(9) [OF inv]
        intro!: exI [of _ ?m])
qed

theorem local_update_effect_witness:
  "\<exists>ms'. members_update 5 ''me'' (Some ONLINE) (Some {}) (demo_members [''a'']) = (Inr (), ms') \<and>
    clock_at ms' ''me'' = 2 \<and> metadata_at ms' ''me'' = Some {}"
proof -
  have "changes (Some ONLINE) (Some {}) demo_me" by (simp add: changes_def)
  then show ?thesis
    using local_update_effect [OF demo_reachable [of "[''a'']"], where n = "''me''" and m = demo_me
        and st = "Some ONLINE" and now = 5 and md = "Some {}"]
    by (auto simp: demo_fields)
qed

text \<open>
  An aggregate status is refused with \<open>ValueError\<close>, but only after the pending clock was
  set, and nothing clears it: from then on every update and every gossip about that member
  raises \<open>AssertionError\<close>.
\<close>

theorem aggregate_status_wedges_member:
  assumes "members_reachable ms" and "map_of (ms_members ms) n = Some m"
    and "agg = AVAILABLE \<or> agg = UNAVAILABLE"
  shows "\<exists>ms'. members_update now n (Some agg) md ms = (Inl ValueError, ms') \<and>
    fst (members_update now' n st' md' ms') = Inl AssertionError \<and>
    fst (members_apply now' n source clock st'' md' ms') = Inl AssertionError"
proof -
  have inv: "members_inv ms" using assms(1) by (rule reachable_members_inv)
  let ?ms = "put_member n (m\<lparr>m_pending_clock := Some (ms_next_clock ms)\<rparr>) ms"
  have "\<not> settable (Some agg)" using assms(3) by auto
  then have "members_update now n (Some agg) md ms = (Inl ValueError, ?ms)"
    using update_raises [OF inv assms(2)] members_invD(5) [OF inv assms(2)]
    by (simp add: members_update_common)
  moreover have "fst (update_common t n src c s d ?ms) = Inl AssertionError" for t src c s d
    by (simp add: update_common_commit py_bind_def on_member_run commit_def py_seq_def set_clock_def)
  ultimately show ?thesis by (simp add: members_update_common members_apply_def)
qed

theorem aggregate_status_wedges_member_witness:
  "\<exists>ms'. members_update 5 ''a'' (Some AVAILABLE) None (demo_members [''a'']) = (Inl ValueError, ms') \<and>
    fst (members_update 6 ''a'' (Some ONLINE) None ms') = Inl AssertionError"
  using aggregate_status_wedges_member [OF demo_reachable [of "[''a'']"], where n = "''a''"
      and m = "member_init ''a'' False [] 0" and agg = AVAILABLE and now = 5 and now' = 6
      and md = None and md' = None and st' = "Some ONLINE"
      and source = "''b''" and clock = 7 and st'' = ONLINE]
  by (auto simp: demo_fields)

subsection \<open>Gossip about another member\<close>

lemma third_party_accepts:
  assumes "members_inv ms" and "map_of (ms_members ms) n = Some m" and "source \<noteq> n"
  shows "accepts (Some source) clock m \<longleftrightarrow> m_clock m < clock"
  using assms members_invD(1) [OF assms(1,2)] by (auto simp: accepts_def)

lemma apply_unchanged:
  assumes "members_inv ms" and "map_of (ms_members ms) n = Some m" and "settable (Some st)"
    and "\<not> (accepts (Some source) clock m \<and> changes (Some st) md m)"
  shows "members_apply now n source clock st md ms = (Inr (), ms)"
  using assms by (simp add: members_apply_def update_unchanged)

lemma apply_changed:
  assumes inv: "members_inv ms" and m: "map_of (ms_members ms) n = Some m" and "settable (Some st)"
    and "n \<noteq> ms_local ms" and "accepts (Some source) clock m" and "changes (Some st) md m"
  obtains ms' m' where "members_apply now n source clock st md ms = (Inr (), ms')"
    and "members_inv ms'" and "map_of (ms_members ms') = (map_of (ms_members ms))(n \<mapsto> m')"
    and "m_name m' = n" and "m_clock m' = max clock (m_clock m)"
    and "m_status m' = status_after (m_status m) (Some st)"
    and "m_metadata_dict m' = (case md of None \<Rightarrow> m_metadata_dict m | Some d \<Rightarrow> Some d)"
    and "ms_next_clock ms' = max (ms_next_clock ms) (m_clock m' + 1)"
    and "ms_local ms' = ms_local ms" and "ms_listener ms' = notify n (ms_listener ms)"
    and "ms_non_local ms' = ms_non_local ms"
proof -
  let ?m = "changed now (Some source) clock (ms_next_clock ms) (Some st) md m"
  have run: "members_apply now n source clock st md ms = (Inr (), update_changed n ?m ms)"
    using assms by (simp add: members_apply_def update_changes)
  then have "members_inv (update_changed n ?m ms)"
    using update_common_inv [OF inv assms(3), of now n "Some source" clock md]
    by (simp add: members_apply_def)
  moreover have "\<not> m_local m" and nm: "m_name m = n" using members_invD(1,2) [OF inv m] assms(4) by auto
  then have "m_name ?m = n" "m_clock ?m = max clock (m_clock m)"
    "m_status ?m = status_after (m_status m) (Some st)"
    "m_metadata_dict ?m = (case md of None \<Rightarrow> m_metadata_dict m | Some d \<Rightarrow> Some d)"
    by (simp_all add: changed_def)
  ultimately show ?thesis
    using run that [of "update_changed n ?m ms" ?m]
    by (simp add: update_changed_fields members_invD(9) [OF inv] update_conv')
qed

text \<open>A concrete manager that knows the metadata of a peer, for the examples below.\<close>

definition demo_known :: members where
  "demo_known = snd (members_apply 1 ''a'' ''b'' 1 ONLINE (Some {(''k'', [2])}) (demo_members [''a'', ''b'']))"

definition demo_a :: member where
  "demo_a = changed 1 (Some ''b'') 1 2 (Some ONLINE) (Some {(''k'', [2])}) (member_init ''a'' False [] 0)"

lemma demo_known_reachable: "members_reachable demo_known"
  unfolding demo_known_def by (rule reach_step [OF demo_reachable step_apply]) simp

lemma demo_a_fields [simp]:
  "m_name demo_a = ''a''" "\<not> m_local demo_a" "m_clock demo_a = 1" "m_status demo_a = ONLINE"
  "m_metadata_dict demo_a = Some {(''k'', [2])}" "m_metadata demo_a = {(''k'', [2])}"
  "m_known_clocks demo_a = []" "m_validity demo_a = []"
  by (simp_all add: demo_a_def changed_def status_after_def)

lemma demo_known_fields:
  "ms_next_clock demo_known = 2" "ms_local demo_known = ''me''"
  "map_of (ms_members demo_known) n =
     (if n = ''a'' then Some demo_a else if n = ''me'' then Some demo_me
      else if n = ''b'' then Some (member_init ''b'' False [] 0) else None)"
proof -
  let ?d = "demo_members [''a'', ''b'']"
  have inv: "members_inv ?d" by (rule reachable_members_inv [OF demo_reachable])
  have "map_of (ms_members ?d) ''a'' = Some (member_init ''a'' False [] 0)"
    by (simp add: demo_fields)
  then have eq: "demo_known = update_changed ''a'' demo_a ?d"
    by (simp add: demo_known_def members_apply_def update_changes [OF inv] accepts_def changes_def
        status_after_def demo_a_def demo_fields)
  then show "ms_next_clock demo_known = 2" "ms_local demo_known = ''me''"
    "map_of (ms_members demo_known) n =
     (if n = ''a'' then Some demo_a else if n = ''me'' then Some demo_me
      else if n = ''b'' then Some (member_init ''b'' False [] 0) else None)"
    unfolding eq update_changed_lookup [OF inv]
    by (simp_all add: update_changed_fields members_invD(9) [OF inv] demo_fields)
qed

text \<open>
  C16: Gossip about a non-local member from a third party: it is ignored altogether unless its
  clock is newer than the member's and it changes the filtered status or the metadata; then the
  member takes its clock, filtered status and metadata, the next clock passes it, and nothing
  else changes. Applying the same gossip a second time changes nothing.
\<close>

theorem third_party_gossip:
  assumes "members_reachable ms" and "map_of (ms_members ms) n = Some m" and "n \<noteq> ms_local ms"
    and "source \<noteq> n" and "settable (Some st)"
  shows "\<exists>ms'. members_apply now n source clock st md ms = (Inr (), ms') \<and>
    members_apply now' n source clock st md ms' = (Inr (), ms') \<and>
    (if clock \<le> m_clock m \<or> \<not> changes (Some st) md m then ms' = ms
     else clock_at ms' n = clock \<and> status_at ms' n = Some (status_after (m_status m) (Some st)) \<and>
       metadata_at ms' n = (case md of None \<Rightarrow> m_metadata_dict m | Some d \<Rightarrow> Some d) \<and>
       ms_next_clock ms' = max (ms_next_clock ms) (clock + 1) \<and>
       (\<forall>k. k \<noteq> n \<longrightarrow> map_of (ms_members ms') k = map_of (ms_members ms) k))"
proof -
  have inv: "members_inv ms" using assms(1) by (rule reachable_members_inv)
  note acc = third_party_accepts [OF inv assms(2,4), of clock]
  show ?thesis
  proof (cases "clock \<le> m_clock m \<or> \<not> changes (Some st) md m")
    case True
    then have "members_apply t n source clock st md ms = (Inr (), ms)" for t
      using acc by (intro apply_unchanged [OF inv assms(2,5)]) auto
    with True show ?thesis by auto
  next
    case False
    then have "accepts (Some source) clock m" "changes (Some st) md m" using acc by auto
    from apply_changed [OF inv assms(2,5,3) this, where now = now]
    obtain ms' m' where run: "members_apply now n source clock st md ms = (Inr (), ms')"
      and inv': "members_inv ms'" and look: "map_of (ms_members ms') = (map_of (ms_members ms))(n \<mapsto> m')"
      and nm: "m_name m' = n" and clk: "m_clock m' = max clock (m_clock m)"
      and st: "m_status m' = status_after (m_status m) (Some st)"
      and md: "m_metadata_dict m' = (case md of None \<Rightarrow> m_metadata_dict m | Some d \<Rightarrow> Some d)"
      and nc: "ms_next_clock ms' = max (ms_next_clock ms) (m_clock m' + 1)" by metis
    have m': "map_of (ms_members ms') n = Some m'" by (simp add: look)
    have "\<not> accepts (Some source) clock m'"
      using third_party_accepts [OF inv' m' assms(4)] clk by simp
    then have "members_apply now' n source clock st md ms' = (Inr (), ms')"
      by (intro apply_unchanged [OF inv' m' assms(5)]) simp
    with False run look m' clk st md nc show ?thesis by auto
  qed
qed

theorem third_party_gossip_witness:
  "\<exists>ms'. members_apply 5 ''a'' ''b'' 1 ONLINE None (demo_members [''a'', ''b'']) = (Inr (), ms') \<and>
    clock_at ms' ''a'' = 1 \<and> status_at ms' ''a'' = Some ONLINE \<and> metadata_at ms' ''a'' = None"
proof -
  have "changes (Some ONLINE) None (member_init ''a'' False [] 0)"
    by (simp add: changes_def status_after_def)
  then show ?thesis
    using third_party_gossip [OF demo_reachable [of "[''a'', ''b'']"], where n = "''a''"
        and m = "member_init ''a'' False [] 0" and source = "''b''" and st = ONLINE
        and now = 5 and clock = 1 and md = None]
    by (auto simp: demo_fields status_after_def)
qed

text \<open>A sequence of gossip about one member: source, clock and status; \<open>h\<close> is its history.\<close>

definition apply_gossips ::
    "int \<Rightarrow> string \<Rightarrow> (int \<Rightarrow> metadata) \<Rightarrow> (string \<times> int \<times> status) list \<Rightarrow> (members, unit) py" where
  "apply_gossips now n h gs =
     py_for gs (\<lambda>(source, clock, st). members_apply now n source clock st (Some (h clock)))"

lemma settled_metadata:
  "settled m \<Longrightarrow> m_metadata_dict m = Some d \<Longrightarrow> m_metadata m = d"
  by (simp add: settled_def)

text \<open>
  C4: Dissemination converges on metadata. Suppose every change of a member's metadata gave it a
  metadata that it never had before (\<open>h\<close>, from clocks to metadata, is injective). Then any
  sequence of gossip about it from third parties, in any order, with repetitions and any
  settable statuses, ends with the metadata of the highest clock received, so two managers that
  received the same gossip agree.
\<close>

theorem gossip_converges:
  assumes "members_inv ms" and "map_of (ms_members ms) n = Some m" and "n \<noteq> ms_local ms"
    and "inj h" and "m_metadata_dict m = None \<or> m_metadata_dict m = Some (h (m_clock m))"
    and "\<forall>(source, clock, st) \<in> set gs. source \<noteq> n \<and> settable (Some st)"
  shows "\<exists>ms'. apply_gossips now n h gs ms = (Inr (), ms') \<and>
    clock_at ms' n = Max (insert (m_clock m) ((\<lambda>(source, clock, st). clock) ` set gs)) \<and>
    (clock_at ms' n = m_clock m \<and> metadata_at ms' n = m_metadata_dict m \<or>
     metadata_at ms' n = Some (h (clock_at ms' n)))"
  using assms(1-3,5,6)
proof (induction gs arbitrary: ms m)
  case Nil
  then show ?case by (auto simp: apply_gossips_def)
next
  case (Cons g gs)
  obtain source clock st where g: "g = (source, clock, st)" by (cases g)
  have src: "source \<noteq> n" and st: "settable (Some st)" using Cons.prems(5) g by auto
  have rest: "\<forall>(source, clock, st) \<in> set gs. source \<noteq> n \<and> settable (Some st)"
    using Cons.prems(5) by simp
  note acc = third_party_accepts [OF Cons.prems(1,2) src, of clock]
  have step: "apply_gossips now n h (g # gs) ms = apply_gossips now n h gs ms1"
    if "members_apply now n source clock st (Some (h clock)) ms = (Inr (), ms1)" for ms1
    using that g by (simp add: apply_gossips_def py_seq_def py_bind_def)
  show ?case
  proof (cases "clock \<le> m_clock m")
    case True
    then have "members_apply now n source clock st (Some (h clock)) ms = (Inr (), ms)"
      using acc by (intro apply_unchanged [OF Cons.prems(1,2) st]) simp
    from step [OF this] show ?thesis
      using Cons.IH [OF Cons.prems(1-4) rest] True
      by (simp add: g Max_insert_below del: Max_insert)
  next
    case False
    have "changes (Some st) (Some (h clock)) m"
      using Cons.prems(4) False \<open>inj h\<close> settled_metadata [OF members_invD(3) [OF Cons.prems(1,2)]]
      by (auto simp: changes_def) (metis injD order_refl)
    moreover have "accepts (Some source) clock m" using False acc by simp
    ultimately obtain ms' m' where
      run: "members_apply now n source clock st (Some (h clock)) ms = (Inr (), ms')"
      and inv': "members_inv ms'" and look: "map_of (ms_members ms') = (map_of (ms_members ms))(n \<mapsto> m')"
      and clk: "m_clock m' = max clock (m_clock m)" and md: "m_metadata_dict m' = Some (h clock)"
      and loc: "ms_local ms' = ms_local ms"
      using apply_changed [OF Cons.prems(1,2) st Cons.prems(3), where md = "Some (h clock)" and now = now]
      by (metis (no_types, lifting) option.simps(5))
    have m': "map_of (ms_members ms') n = Some m'" by (simp add: look)
    have c: "m_clock m' = clock" using clk False by simp
    obtain ms2 where ms2: "apply_gossips now n h gs ms' = (Inr (), ms2)"
      "clock_at ms2 n = Max (insert (m_clock m') ((\<lambda>(source, clock, st). clock) ` set gs))"
      "clock_at ms2 n = m_clock m' \<and> metadata_at ms2 n = m_metadata_dict m' \<or>
       metadata_at ms2 n = Some (h (clock_at ms2 n))"
      using Cons.IH [OF inv' m' _ _ rest] Cons.prems(3) loc md c by auto
    have "Max (insert (m_clock m) ((\<lambda>(source, clock, st). clock) ` set (g # gs))) =
        Max (insert clock ((\<lambda>(source, clock, st). clock) ` set gs))"
      using False by (simp add: g Max_insert_below del: Max_insert)
    with step [OF run] ms2 md c show ?thesis by auto
  qed
qed

text \<open>Two gossips that arrive in the wrong order.\<close>

definition demo_history :: "int \<Rightarrow> metadata" where
  "demo_history c = {(replicate (nat \<bar>c\<bar>) CHR ''v'', if c < 0 then [1] else [])}"

lemma demo_history_inj: "inj demo_history"
  by (rule injI) (auto simp: demo_history_def split: if_splits)

theorem gossip_converges_witness:
  "\<exists>ms'. apply_gossips 5 ''a'' demo_history [(''b'', 7, ONLINE), (''b'', 4, SUSPECT)]
      (demo_members [''a'', ''b'']) = (Inr (), ms') \<and>
    clock_at ms' ''a'' = 7 \<and> metadata_at ms' ''a'' = Some (demo_history 7)"
proof -
  have "\<exists>ms'. apply_gossips 5 ''a'' demo_history [(''b'', 7, ONLINE), (''b'', 4, SUSPECT)]
      (demo_members [''a'', ''b'']) = (Inr (), ms') \<and>
    clock_at ms' ''a'' = Max (insert (m_clock (member_init ''a'' False [] 0))
      ((\<lambda>(source, clock, st). clock) ` set [(''b'', 7, ONLINE), (''b'', 4, SUSPECT)])) \<and>
    (clock_at ms' ''a'' = m_clock (member_init ''a'' False [] 0) \<and>
       metadata_at ms' ''a'' = m_metadata_dict (member_init ''a'' False [] 0) \<or>
     metadata_at ms' ''a'' = Some (demo_history (clock_at ms' ''a'')))"
    by (rule gossip_converges [OF reachable_members_inv [OF demo_reachable] _ _ demo_history_inj])
      (simp_all add: demo_fields)
  then show ?thesis by (auto simp: Max_insert_below)
qed

end
