(* ===== verification/Swim_Members_Gossip.thy ===== *)
theory Swim_Members_Gossip
  imports Swim_Members_Props
begin

text \<open>
  The limits of the gossip rules (a return to earlier metadata, stale gossip of a member about
  itself, gossip about the local member), and what acknowledgements and validity changes do to
  the gossip that is due.
\<close>

subsection \<open>Where the rules lose information\<close>

text \<open>
  Gossip that changes nothing does not advance the member's clock. When a member went from
  metadata \<open>a\<close> to \<open>b\<close> and back to \<open>a\<close>, a manager that still holds the first \<open>a\<close> and
  receives the two gossips in the wrong order ends with the outdated \<open>b\<close>, whereas the right
  order ends with \<open>a\<close> at the newest clock.
\<close>

theorem reverted_metadata_is_lost:
  assumes "members_reachable ms" and "map_of (ms_members ms) n = Some m" and "n \<noteq> ms_local ms"
    and "m_metadata_dict m = Some a" and "a \<noteq> b" and "source \<noteq> n"
    and "m_clock m < c" and "c < d" and "transition (m_status m) (m_status m) = Inr (m_status m)"
  shows "\<exists>wrong right.
    py_seq (members_apply now n source d (m_status m) (Some a))
           (members_apply now n source c (m_status m) (Some b)) ms = (Inr (), wrong) \<and>
    metadata_at wrong n = Some b \<and> clock_at wrong n = c \<and>
    py_seq (members_apply now n source c (m_status m) (Some b))
           (members_apply now n source d (m_status m) (Some a)) ms = (Inr (), right) \<and>
    metadata_at right n = Some a \<and> clock_at right n = d"
proof -
  let ?st = "m_status m"
  have inv: "members_inv ms" using assms(1) by (rule reachable_members_inv)
  have st: "settable (Some ?st)" using assms(9) transition_settable by blast
  have a: "m_metadata m = a"
    using members_invD(3) [OF inv assms(2)] assms(4) by (rule settled_metadata)
  have keep: "status_after ?st (Some ?st) = ?st" using assms(9) by (simp add: status_after_def)
  have "\<not> changes (Some ?st) (Some a) m" using a assms(4) keep by (simp add: changes_def)
  then have same: "members_apply now n source d ?st (Some a) ms = (Inr (), ms)"
    by (intro apply_unchanged [OF inv assms(2) st]) simp
  have "accepts (Some source) c m" "changes (Some ?st) (Some b) m"
    using assms(5,7) a by (auto simp: accepts_def changes_def)
  from apply_changed [OF inv assms(2) st assms(3) this, where now = now]
  obtain ms1 m1 where run1: "members_apply now n source c ?st (Some b) ms = (Inr (), ms1)"
    and inv1: "members_inv ms1"
    and m1: "map_of (ms_members ms1) = (map_of (ms_members ms))(n \<mapsto> m1)"
    and f1: "m_clock m1 = max c (m_clock m)" "m_status m1 = status_after ?st (Some ?st)"
      "m_metadata_dict m1 = Some b" "ms_local ms1 = ms_local ms"
    by (metis (no_types, lifting) option.simps(5))
  have at1: "map_of (ms_members ms1) n = Some m1" by (simp add: m1)
  have "m_metadata m1 = b"
    using members_invD(3) [OF inv1 at1] f1(3) by (rule settled_metadata)
  then have "accepts (Some source) d m1" "changes (Some ?st) (Some a) m1"
    using assms(5,7,8) f1 by (auto simp: accepts_def changes_def)
  from apply_changed [OF inv1 at1 st _ this, where now = now]
  obtain ms2 m2 where run2: "members_apply now n source d ?st (Some a) ms1 = (Inr (), ms2)"
    and m2: "map_of (ms_members ms2) = (map_of (ms_members ms1))(n \<mapsto> m2)"
    and f2: "m_clock m2 = max d (m_clock m1)" "m_metadata_dict m2 = Some a"
    using assms(3) f1(4) by (metis (no_types, lifting) option.simps(5))
  have at2: "map_of (ms_members ms2) n = Some m2" by (simp add: m2)
  show ?thesis
    using same run1 run2 at1 at2 f1 f2 assms(7,8) by (simp add: py_seq_def py_bind_def)
qed

theorem reverted_metadata_is_lost_witness:
  "\<exists>wrong. py_seq (members_apply 5 ''a'' ''b'' 3 ONLINE (Some {(''k'', [2])}))
      (members_apply 5 ''a'' ''b'' 2 ONLINE (Some {})) demo_known = (Inr (), wrong) \<and>
    metadata_at wrong ''a'' = Some {} \<and> clock_at wrong ''a'' = 2"
  using reverted_metadata_is_lost [OF demo_known_reachable, where n = "''a''" and m = demo_a
      and a = "{(''k'', [2])}" and b = "{}" and source = "''b''" and c = 2 and d = 3 and now = 5]
  by (auto simp: demo_known_fields)

text \<open>
  Gossip of a member about itself is applied whatever its clock. A stale one, as a delayed
  datagram brings, puts the old metadata back under the newer clock, and from then on a third
  party that has the right metadata at that clock cannot repair it.
\<close>

theorem stale_self_gossip_applies:
  assumes "members_reachable ms" and "map_of (ms_members ms) n = Some m" and "n \<noteq> ms_local ms"
    and "m_metadata_dict m = Some new" and "old \<noteq> new" and "c \<le> m_clock m"
    and "settable (Some st)" and "source \<noteq> n" and "settable (Some st')"
  shows "\<exists>ms'. members_apply now n n c st (Some old) ms = (Inr (), ms') \<and>
    metadata_at ms' n = Some old \<and> clock_at ms' n = m_clock m \<and>
    members_apply now' n source (m_clock m) st' (Some new) ms' = (Inr (), ms')"
proof -
  have inv: "members_inv ms" using assms(1) by (rule reachable_members_inv)
  have "m_metadata m = new"
    using members_invD(3) [OF inv assms(2)] assms(4) by (rule settled_metadata)
  then have "accepts (Some n) c m" "changes (Some st) (Some old) m"
    using members_invD(1) [OF inv assms(2)] assms(5) by (auto simp: accepts_def changes_def)
  from apply_changed [OF inv assms(2,7,3) this, where now = now]
  obtain ms' m' where run: "members_apply now n n c st (Some old) ms = (Inr (), ms')"
    and inv': "members_inv ms'" and look: "map_of (ms_members ms') = (map_of (ms_members ms))(n \<mapsto> m')"
    and f: "m_clock m' = max c (m_clock m)" "m_metadata_dict m' = Some old"
    by (metis (no_types, lifting) option.simps(5))
  have m': "map_of (ms_members ms') n = Some m'" by (simp add: look)
  have "\<not> accepts (Some source) (m_clock m) m'"
    using third_party_accepts [OF inv' m' assms(8)] f(1) assms(6) by simp
  then have "members_apply now' n source (m_clock m) st' (Some new) ms' = (Inr (), ms')"
    by (intro apply_unchanged [OF inv' m' assms(9)]) simp
  with run m' f assms(6) show ?thesis by simp
qed

theorem stale_self_gossip_applies_witness:
  "\<exists>ms'. members_apply 5 ''a'' ''a'' 0 ONLINE (Some {}) demo_known = (Inr (), ms') \<and>
    metadata_at ms' ''a'' = Some {} \<and> clock_at ms' ''a'' = 1 \<and>
    members_apply 6 ''a'' ''b'' 1 ONLINE (Some {(''k'', [2])}) ms' = (Inr (), ms')"
  using stale_self_gossip_applies [OF demo_known_reachable, where n = "''a''" and m = demo_a
      and new = "{(''k'', [2])}" and old = "{}" and source = "''b''" and c = 0 and st = ONLINE
      and st' = ONLINE and now = 5 and now' = 6]
  by (simp add: demo_known_fields)

subsection \<open>Gossip about the local member\<close>

text \<open>What gossip about the local member leaves: at most a new clock.\<close>

lemma apply_local:
  assumes inv: "members_inv ms" and m: "map_of (ms_members ms) (ms_local ms) = Some m"
    and "settable (Some st)"
  shows "\<exists>ms' m'. members_apply now (ms_local ms) source clock st md ms = (Inr (), ms') \<and>
    members_inv ms' \<and> ms_local ms' = ms_local ms \<and>
    map_of (ms_members ms') = (map_of (ms_members ms))(ms_local ms \<mapsto> m') \<and>
    m_status m' = m_status m \<and> m_metadata_dict m' = m_metadata_dict m \<and>
    m_known_clocks m' = m_known_clocks m \<and>
    (if accepts (Some source) clock m \<and> changes (Some st) md m
     then m_clock m' = ms_next_clock ms \<and> ms_next_clock ms' = ms_next_clock ms + 1
     else m' = m \<and> ms' = ms)"
proof (cases "accepts (Some source) clock m \<and> changes (Some st) md m")
  case False
  have "(map_of (ms_members ms))(ms_local ms \<mapsto> m) = map_of (ms_members ms)"
    using m by (simp add: fun_upd_idem)
  with False show ?thesis
    using apply_unchanged [OF inv m assms(3) False, of now] inv
    by (intro exI [of _ ms] exI [of _ m]) auto
next
  case True
  let ?m = "changed now (Some source) clock (ms_next_clock ms) (Some st) md m"
  have run: "members_apply now (ms_local ms) source clock st md ms =
      (Inr (), update_changed (ms_local ms) ?m ms)"
    using True assms by (simp add: members_apply_def update_changes)
  then have "members_inv (update_changed (ms_local ms) ?m ms)"
    using update_common_inv [OF inv assms(3), of now "ms_local ms" "Some source" clock md]
    by (simp add: members_apply_def)
  moreover have "m_local m" using members_invD(2) [OF inv m] by simp
  then have "?m = m\<lparr>m_clock := ms_next_clock ms, m_previous := snapshot_of m\<rparr>"
    by (simp add: changed_def)
  ultimately show ?thesis
    using True run
    by (intro exI [of _ "update_changed (ms_local ms) ?m ms"] exI [of _ ?m])
      (simp add: update_changed_fields members_invD(9) [OF inv] update_conv')
qed

lemma members_get_local:
  assumes inv: "members_inv ms" and m: "map_of (ms_members ms) (ms_local ms) = Some m"
  shows "map_of (ms_members (members_get rnd now n v ms)) (ms_local ms) = Some m"
proof -
  have "check_validity v m = m"
    using members_invD(2) [OF inv m] by (simp add: check_validity_def split: option.split)
  with m show ?thesis by (auto simp: members_get_lookup)
qed

lemma ack_gossip_local:
  assumes m: "map_of (ms_members ms) (ms_local ms) = Some m"
  shows "\<exists>t. map_of (ms_members (snd (ack_gossip k source c ms))) (ms_local ms) = Some t \<and>
    m_status t = m_status m \<and> m_metadata_dict t = m_metadata_dict m \<and> m_clock t = m_clock m"
proof (cases "map_of (ms_members ms) source")
  case None
  with m show ?thesis by (simp add: ack_gossip_def py_bind_def py_seq_def py_assert_def on_member_def)
next
  case (Some e)
  with m show ?thesis by (auto simp: ack_gossip_run [OF Some])
qed

text \<open>Gossip about another member leaves the local entry as it is.\<close>

lemma apply_other:
  assumes inv: "members_inv ms" and m: "map_of (ms_members ms) (ms_local ms) = Some m"
    and "settable (Some st)" and n: "n \<noteq> ms_local ms"
  shows "map_of (ms_members (snd (members_apply now n source clock st md ms))) (ms_local ms) = Some m"
proof (rule update_common_cases [OF inv assms(3), of now n "Some source" clock md])
  assume "snd (update_common now n (Some source) clock (Some st) md ms) = ms"
  with m show ?thesis by (simp add: members_apply_def)
next
  fix e
  assume "snd (update_common now n (Some source) clock (Some st) md ms) =
    update_changed n (changed now (Some source) clock (ms_next_clock ms) (Some st) md e) ms"
  with m n show ?thesis by (simp add: members_apply_def update_changed_lookup [OF inv])
qed

text \<open>
  C17: No gossip, lookup or acknowledgement changes what the local member says about itself: its
  status and its metadata; a lookup and an acknowledgement do not change its clock either. Gossip
  about it that contradicts them, under a clock newer than its own or in its own name, raises its
  clock, and it is then due to every member that knows no clock above its old one. Any other
  gossip, contradicting gossip of an equal or older clock included, leaves the entry as it is.
\<close>

theorem local_member_protected:
  fixes now clock :: int and n source :: string and md :: "metadata option"
  assumes "members_reachable ms" and "map_of (ms_members ms) (ms_local ms) = Some m"
    and "settable (Some st)"
  defines "l \<equiv> ms_local ms" and "ms' \<equiv> snd (members_apply now n source clock st md ms)"
  shows "map_of (ms_members (members_get rnd now n validity ms)) l = Some m \<and>
    (\<exists>t. map_of (ms_members (snd (ack_gossip k source c ms))) l = Some t \<and>
       m_status t = m_status m \<and> m_metadata_dict t = m_metadata_dict m \<and> m_clock t = m_clock m) \<and>
    (\<exists>m'. map_of (ms_members ms') l = Some m' \<and>
       m_status m' = m_status m \<and> m_metadata_dict m' = m_metadata_dict m \<and>
       (if n = l \<and> (m_clock m < clock \<or> source = l) \<and> changes (Some st) md m
        then m_clock m < m_clock m' \<and>
          (\<forall>k t t'. map_of (ms_members ms) k = Some t \<and> map_of (ms_members ms') k = Some t' \<and>
             (\<forall>c. map_of (m_known_clocks t) l = Some c \<longrightarrow> c \<le> m_clock m) \<longrightarrow> needs_gossip t' m')
        else m' = m))"
    (is "?get \<and> ?ack \<and> ?app")
proof -
  have inv: "members_inv ms" using assms(1) by (rule reachable_members_inv)
  have ?get using members_get_local [OF inv assms(2)] by (simp add: l_def)
  moreover have ?ack using ack_gossip_local [OF assms(2)] by (simp add: l_def)
  moreover have ?app
  proof (cases "n = l")
    case False
    with apply_other [OF inv assms(2,3), of n now source clock md] show ?thesis
      by (intro exI [of _ m]) (simp add: l_def ms'_def)
  next
    case True
    have acc: "accepts (Some source) clock m \<longleftrightarrow> m_clock m < clock \<or> source = l"
      using members_invD(1) [OF inv assms(2)] by (auto simp: accepts_def l_def)
    obtain ms1 m' where run: "members_apply now l source clock st md ms = (Inr (), ms1)"
      and inv1: "members_inv ms1"
      and at: "map_of (ms_members ms1) = (map_of (ms_members ms))(l \<mapsto> m')"
      and same: "m_status m' = m_status m" "m_metadata_dict m' = m_metadata_dict m"
        "m_known_clocks m' = m_known_clocks m"
      and clk: "if accepts (Some source) clock m \<and> changes (Some st) md m
         then m_clock m' = ms_next_clock ms \<and> ms_next_clock ms1 = ms_next_clock ms + 1
         else m' = m \<and> ms1 = ms"
      using apply_local [OF inv assms(2,3), of now source clock md] unfolding l_def by blast
    have ms': "ms' = ms1" using run True by (simp add: ms'_def)
    have m': "map_of (ms_members ms1) l = Some m'" by (simp add: at)
    have "needs_gossip t' m'"
      if "m_clock m < m_clock m'" "map_of (ms_members ms) k = Some t" "map_of (ms_members ms1) k = Some t'"
        "\<forall>c. map_of (m_known_clocks t) l = Some c \<longrightarrow> c \<le> m_clock m" for k t t'
    proof -
      have "m_known_clocks t' = m_known_clocks t"
        using that(2,3) at same(3) assms(2) by (auto simp: l_def split: if_splits)
      with that members_invD(1,4) [OF inv1 m'] show ?thesis
        by (auto simp: needs_gossip_def Let_def split: option.split)
    qed
    moreover have "m_clock m < ms_next_clock ms" using members_invD(5) [OF inv assms(2)] by simp
    ultimately show ?thesis
      using True m' same clk acc by (intro exI [of _ m']) (auto simp: ms')
  qed
  ultimately show ?thesis by blast
qed

theorem local_member_protected_witness:
  "\<exists>m'. map_of (ms_members (snd (members_apply 5 ''me'' ''a'' 9 SUSPECT None demo_known))) ''me'' = Some m' \<and>
    m_status m' = ONLINE \<and> 1 < m_clock m'"
proof -
  have "changes (Some SUSPECT) None demo_me" by (simp add: changes_def status_after_def)
  then show ?thesis
    using local_member_protected [OF demo_known_reachable, where m = demo_me and st = SUSPECT
        and now = 5 and n = "''me''" and source = "''a''" and clock = 9 and md = None
        and rnd = "[]" and validity = None and k = "''b''" and c = 1]
    by (simp add: demo_known_fields) blast
qed

text \<open>
  The clock of a refutation comes from the local counter, not from the rumour. When another
  manager has the local member under a rumour whose clock is not below the local next clock, the
  refutation gets a clock that does not exceed the rumour's, and every third party that passes
  the refutation on is ignored by that manager.
\<close>

theorem refutation_below_rumour:
  assumes "members_reachable a" and "map_of (ms_members a) l = Some m" and "ms_local a = l"
    and "changes (Some rumour) md m" and "settable (Some rumour)" and "ms_next_clock a \<le> c"
    and "members_reachable b" and "map_of (ms_members b) l = Some e" and "ms_local b \<noteq> l"
    and "m_clock e = c" and "source' \<noteq> l" and "settable (Some st)"
  shows "\<exists>a'. members_apply now l source c rumour md a = (Inr (), a') \<and>
    clock_at a' l = ms_next_clock a \<and> clock_at a' l \<le> c \<and>
    members_apply now' l source' (clock_at a' l) st md' b = (Inr (), b)"
proof -
  have inv: "members_inv a" and inv': "members_inv b"
    using assms(1,7) by (auto intro: reachable_members_inv)
  have loc: "map_of (ms_members a) (ms_local a) = Some m" using assms(2,3) by simp
  have "accepts (Some source) c m"
    using members_invD(5) [OF inv assms(2)] assms(6) by (simp add: accepts_def)
  then obtain a' m' where run: "members_apply now l source c rumour md a = (Inr (), a')"
    and look: "map_of (ms_members a') = (map_of (ms_members a))(l \<mapsto> m')"
    and clk: "m_clock m' = ms_next_clock a"
    using apply_local [OF inv loc assms(5), of now source c md] assms(3,4) by auto
  have m': "map_of (ms_members a') l = Some m'" by (simp add: look)
  have "\<not> accepts (Some source') (m_clock m') e"
    using third_party_accepts [OF inv' assms(8,11)] clk assms(6,10) by simp
  then have "members_apply now' l source' (m_clock m') st md' b = (Inr (), b)"
    by (intro apply_unchanged [OF inv' assms(8,12)]) simp
  with run m' clk assms(6) show ?thesis by simp
qed

theorem refutation_below_rumour_witness:
  "\<exists>a'. members_apply 5 ''me'' ''me'' 2 OFFLINE None (demo_members [''a'']) = (Inr (), a') \<and>
    clock_at a' ''me'' \<le> 2"
proof -
  let ?z = "members_peers (\<lambda>_. []) 0 ''z'' [''me'']"
  let ?b0 = "snd (members_init (\<lambda>_. []) 0 ''z'' [''me''] {})"
  have reach0: "members_reachable ?b0" using members_init_run by (rule reach_init)
  have inv0: "members_inv ?b0" using reach0 by (rule reachable_members_inv)
  have "members_inv ?z" "map_of (ms_members ?z) ''me'' = Some (member_init ''me'' False [] 0)"
    and "ms_local ?z = ''z''"
    by (simp_all add: members_peers_state)
  then have b0: "map_of (ms_members ?b0) ''me'' = Some (member_init ''me'' False [] 0)"
    "ms_local ?b0 = ''z''"
    by (simp_all add: members_init_result update_changed_fields members_invD(9) update_conv')
  obtain b e where run: "members_apply 1 ''me'' ''a'' 2 OFFLINE (Some {}) ?b0 = (Inr (), b)"
    and e: "map_of (ms_members b) ''me'' = Some e" "m_clock e = 2" "ms_local b \<noteq> ''me''"
    by (rule apply_changed [OF inv0 b0(1), of OFFLINE "''a''" 2 "Some {}" 1])
      (auto simp: b0 accepts_def changes_def)
  have reach: "members_reachable b"
    using reach_step [OF reach0 step_apply, of OFFLINE 1 "''me''" "''a''" 2 "Some {}"] run by simp
  show ?thesis
    using refutation_below_rumour [OF demo_reachable [of "[''a'']"], where l = "''me''" and m = demo_me
        and rumour = OFFLINE and md = None and c = 2 and b = b and e = e and source' = "''a''"
        and st = ONLINE and now = 5 and now' = 6 and md' = None] reach e
    by (auto simp: demo_fields changes_def status_after_def)
qed

subsection \<open>Gossip that is due\<close>

lemma needs_gossip_iff:
  "needs_gossip t m \<longleftrightarrow>
     (case map_of (m_known_clocks t) (m_name m) of None \<Rightarrow> -1 | Some c \<Rightarrow> c) < m_clock m"
  by (simp add: needs_gossip_def)

text \<open>The gossip due to a target: the local member and the non-local ones with known metadata.\<close>

lemma get_gossip_iff:
  assumes inv: "members_inv ms" and t: "map_of (ms_members ms) target = Some t"
  shows "n \<in> set (get_gossip target ms) \<longleftrightarrow>
    (n = ms_local ms \<or> metadata_at ms n \<noteq> None) \<and> clock_at ms n >
      (case map_of (m_known_clocks t) n of None \<Rightarrow> -1 | Some c \<Rightarrow> c) \<and>
    map_of (ms_members ms) n \<noteq> None"
proof (cases "map_of (ms_members ms) n")
  case None
  with t show ?thesis by (auto simp: get_gossip_def)
next
  case (Some m)
  have "n = ms_local ms \<or> n \<in> set (ms_non_local ms)" "ms_local ms \<notin> set (ms_non_local ms)"
    using members_invD(6) [OF inv, of n] members_invD(7) [OF inv] Some by auto
  with t Some members_invD(1) [OF inv Some] show ?thesis
    by (auto simp: get_gossip_def needs_gossip_iff)
qed

text \<open>One accepted acknowledgement.\<close>

lemma ack_effect:
  assumes inv: "members_inv ms" and t: "map_of (ms_members ms) target = Some t"
    and c: "c \<le> ms_next_clock ms"
  obtains ms' t' where "ack_gossip n target c ms = (Inr (), ms')" and "members_inv ms'"
    and "map_of (ms_members ms') target = Some t'"
    and "ms_next_clock ms' = ms_next_clock ms" and "ms_local ms' = ms_local ms"
    and "\<And>k. clock_at ms' k = clock_at ms k" and "\<And>k. metadata_at ms' k = metadata_at ms k"
    and "\<And>k. (map_of (ms_members ms') k = None) = (map_of (ms_members ms) k = None)"
    and "\<And>k u. (k \<in> set (get_gossip u ms')) =
      (if (k, u) = (n, target)
       then c < clock_at ms n \<and> (n = ms_local ms \<or> metadata_at ms n \<noteq> None) \<and>
         map_of (ms_members ms) n \<noteq> None
       else k \<in> set (get_gossip u ms))"
proof -
  let ?t = "t\<lparr>m_known_clocks := AList.update n c (m_known_clocks t)\<rparr>"
  let ?ms = "put_member target ?t ms"
  have run: "ack_gossip n target c ms = (Inr (), ?ms)" using c t by (simp add: ack_gossip_run)
  have inv': "members_inv ?ms" using ack_gossip_inv [OF inv, of n target c] run by simp
  have same: "clock_at ?ms k = clock_at ms k" "metadata_at ?ms k = metadata_at ms k"
    "(map_of (ms_members ?ms) k = None) = (map_of (ms_members ms) k = None)" for k
    using t by (auto simp: clock_at_def metadata_at_def)
  have t': "map_of (ms_members ?ms) target = Some ?t" by simp
  have "(k \<in> set (get_gossip u ?ms)) =
      (if (k, u) = (n, target)
       then c < clock_at ms n \<and> (n = ms_local ms \<or> metadata_at ms n \<noteq> None) \<and>
         map_of (ms_members ms) n \<noteq> None
       else k \<in> set (get_gossip u ms))" for k u
  proof (cases "u = target")
    case True
    then show ?thesis
      using get_gossip_iff [OF inv' t', of k] get_gossip_iff [OF inv t, of k]
      by (auto simp: same update_conv' simp del: put_member_lookup)
  next
    case False
    show ?thesis
    proof (cases "map_of (ms_members ms) u")
      case None
      with False show ?thesis by (simp add: get_gossip_def)
    next
      case (Some e)
      then have "map_of (ms_members ?ms) u = Some e" using False by simp
      from get_gossip_iff [OF inv' this, of k] get_gossip_iff [OF inv Some, of k] False
      show ?thesis by (simp add: same del: put_member_lookup)
    qed
  qed
  with that [OF run inv' t'] same show ?thesis by simp
qed

text \<open>
  C19: An acknowledgement above the next clock raises \<open>AssertionError\<close> and changes nothing. Any
  other sets the clock up to which the target knows the member: the member is then due to the
  target exactly while its clock is above the acknowledged one (an old acknowledgement that
  arrives late makes it due again), and nothing else becomes due or stops being due.
\<close>

theorem ack_controls_gossip:
  assumes "members_reachable ms" and "map_of (ms_members ms) target = Some t"
    and "map_of (ms_members ms) n = Some m"
  shows "if c \<le> ms_next_clock ms
    then \<exists>ms'. ack_gossip n target c ms = (Inr (), ms') \<and>
      (n \<in> set (get_gossip target ms')) =
        (c < m_clock m \<and> (n = ms_local ms \<or> m_metadata_dict m \<noteq> None)) \<and>
      (\<forall>k u. (k, u) \<noteq> (n, target) \<longrightarrow> (k \<in> set (get_gossip u ms')) = (k \<in> set (get_gossip u ms)))
    else ack_gossip n target c ms = (Inl AssertionError, ms)"
proof (cases "c \<le> ms_next_clock ms")
  case False
  with assms(2) show ?thesis by (simp add: ack_gossip_run)
next
  case True
  from ack_effect [OF reachable_members_inv [OF assms(1)] assms(2) True, of n]
  obtain ms' where "ack_gossip n target c ms = (Inr (), ms')"
    and "\<And>k u. (k \<in> set (get_gossip u ms')) =
      (if (k, u) = (n, target)
       then c < clock_at ms n \<and> (n = ms_local ms \<or> metadata_at ms n \<noteq> None) \<and>
         map_of (ms_members ms) n \<noteq> None
       else k \<in> set (get_gossip u ms))" by metis
  with True assms(3) show ?thesis by auto
qed

theorem ack_controls_gossip_witness:
  "(\<exists>ms'. ack_gossip ''me'' ''a'' 1 demo_known = (Inr (), ms') \<and> ''me'' \<notin> set (get_gossip ''a'' ms')) \<and>
   ack_gossip ''me'' ''a'' 3 demo_known = (Inl AssertionError, demo_known)"
  using ack_controls_gossip [OF demo_known_reachable, of "''a''" demo_a "''me''" demo_me 1]
    ack_controls_gossip [OF demo_known_reachable, of "''a''" demo_a "''me''" demo_me 3]
  by (auto simp: demo_known_fields)

lemma ack_round:
  assumes "members_inv ms" and "map_of (ms_members ms) target = Some t"
    and "\<forall>n \<in> set ns. clk n = clock_at ms n \<and> map_of (ms_members ms) n \<noteq> None"
  shows "\<exists>ms'. py_for ns (\<lambda>n. ack_gossip n target (clk n)) ms = (Inr (), ms') \<and>
    set (get_gossip target ms') = set (get_gossip target ms) - set ns \<and>
    (\<forall>k. clock_at ms' k = clock_at ms k \<and> metadata_at ms' k = metadata_at ms k)"
  using assms
proof (induction ns arbitrary: ms t)
  case Nil
  then show ?case by simp
next
  case (Cons n ns)
  obtain m where m: "map_of (ms_members ms) n = Some m" using Cons.prems(3) by auto
  have c: "clk n \<le> ms_next_clock ms" "clk n = clock_at ms n"
    using Cons.prems(3) m members_invD(5) [OF Cons.prems(1) m] by auto
  from ack_effect [OF Cons.prems(1,2) c(1), of n]
  obtain ms' t' where run: "ack_gossip n target (clk n) ms = (Inr (), ms')" and inv': "members_inv ms'"
    and t': "map_of (ms_members ms') target = Some t'"
    and same: "\<And>k. clock_at ms' k = clock_at ms k" "\<And>k. metadata_at ms' k = metadata_at ms k"
      "\<And>k. (map_of (ms_members ms') k = None) = (map_of (ms_members ms) k = None)"
    and due: "\<And>k u. (k \<in> set (get_gossip u ms')) =
      (if (k, u) = (n, target)
       then clk n < clock_at ms n \<and> (n = ms_local ms \<or> metadata_at ms n \<noteq> None) \<and>
         map_of (ms_members ms) n \<noteq> None
       else k \<in> set (get_gossip u ms))" by metis
  have "set (get_gossip target ms') = set (get_gossip target ms) - {n}"
    using due [where u = target] c(2) by (auto split: if_splits)
  moreover have "\<forall>n \<in> set ns. clk n = clock_at ms' n \<and> map_of (ms_members ms') n \<noteq> None"
    using Cons.prems(3) same by auto
  ultimately show ?case
    using Cons.IH [OF inv' t'] run same by (auto simp: py_seq_def py_bind_def)
qed

text \<open>
  C20: Gossip comes to rest. Once the target has acknowledged everything that is due to it, at
  the clocks that were sent, nothing is due to it any more, and no clock or metadata has moved.
\<close>

theorem gossip_comes_to_rest:
  assumes "members_reachable ms" and "map_of (ms_members ms) target = Some t"
  shows "\<exists>ms'. py_for (get_gossip target ms) (\<lambda>n. ack_gossip n target (clock_at ms n)) ms = (Inr (), ms') \<and>
    get_gossip target ms' = [] \<and>
    clock_at ms' = clock_at ms \<and> metadata_at ms' = metadata_at ms"
proof -
  have inv: "members_inv ms" using assms(1) by (rule reachable_members_inv)
  have "\<forall>n \<in> set (get_gossip target ms). clock_at ms n = clock_at ms n \<and> map_of (ms_members ms) n \<noteq> None"
    using get_gossip_iff [OF inv assms(2)] by blast
  from ack_round [OF inv assms(2) this] show ?thesis by fastforce
qed

theorem gossip_comes_to_rest_witness:
  "set (get_gossip ''b'' demo_known) = {''me'', ''a''} \<and>
   (\<exists>ms'. py_for (get_gossip ''b'' demo_known) (\<lambda>n. ack_gossip n ''b'' (clock_at demo_known n)) demo_known
      = (Inr (), ms') \<and> get_gossip ''b'' ms' = [])"
proof -
  have b: "map_of (ms_members demo_known) ''b'' = Some (member_init ''b'' False [] 0)"
    by (simp add: demo_known_fields)
  have "n \<in> set (get_gossip ''b'' demo_known) \<longleftrightarrow> n \<in> {''me'', ''a''}" for n
    unfolding get_gossip_iff [OF reachable_members_inv [OF demo_known_reachable] b]
    by (simp add: demo_known_fields clock_at_def metadata_at_def)
  then have "set (get_gossip ''b'' demo_known) = {''me'', ''a''}" by blast
  then show ?thesis using gossip_comes_to_rest [OF demo_known_reachable b] by blast
qed

text \<open>
  C21: A lookup with the validity the member already has changes nothing. A lookup of a non-local
  member with another validity (it restarted) forgets what it is known to know, so that the local
  member and every member with known metadata are due to it again; its own entry keeps its
  clock, status and metadata. A lookup of an unknown name adds an offline member with unknown
  metadata at clock 0.
\<close>

theorem get_resynchronises:
  assumes "members_reachable ms"
  shows "let ms' = members_get rnd now n (Some v) ms in
    (case map_of (ms_members ms) n of
       None \<Rightarrow> clock_at ms' n = 0 \<and> status_at ms' n = Some OFFLINE \<and> metadata_at ms' n = None
     | Some m \<Rightarrow>
         clock_at ms' n = m_clock m \<and> status_at ms' n = Some (m_status m) \<and>
         metadata_at ms' n = m_metadata_dict m \<and>
         (if m_validity m = v \<or> n = ms_local ms then ms' = ms
          else set (get_gossip n ms') =
            {k. map_of (ms_members ms) k \<noteq> None \<and> (k = ms_local ms \<or> metadata_at ms k \<noteq> None)}))"
proof -
  have inv: "members_inv ms" using assms by (rule reachable_members_inv)
  let ?ms = "members_get rnd now n (Some v) ms"
  have inv': "members_inv ?ms" using inv by (rule members_get_inv)
  show ?thesis
  proof (cases "map_of (ms_members ms) n")
    case None
    then have "map_of (ms_members ?ms) n = Some (check_validity (Some v) (member_init n False rnd now))"
      by (simp add: members_get_lookup)
    with None show ?thesis by (simp add: member_init_def)
  next
    case (Some m)
    let ?m = "check_validity (Some v) m"
    have eq: "?ms = put_member n ?m ms" using Some by (simp add: members_get_def)
    have m': "map_of (ms_members ?ms) n = Some ?m" by (simp add: eq)
    have loc: "m_local m = (n = ms_local ms)" using members_invD(2) [OF inv Some] .
    have same: "metadata_at ?ms k = metadata_at ms k" "ms_local ?ms = ms_local ms"
      "(map_of (ms_members ?ms) k = None) = (map_of (ms_members ms) k = None)" for k
      using Some by (auto simp: eq metadata_at_def)
    have "clock_at ?ms k > -1" if "map_of (ms_members ?ms) k \<noteq> None" for k
      using that members_invD(4) [OF inv', of k] by (auto simp: clock_at_def)
    then have "set (get_gossip n ?ms) =
        {k. map_of (ms_members ms) k \<noteq> None \<and> (k = ms_local ms \<or> metadata_at ms k \<noteq> None)}"
      if "m_known_clocks ?m = []"
      using that get_gossip_iff [OF inv' m'] by (auto simp: same)
    moreover have "m_validity m = v \<or> n = ms_local ms \<Longrightarrow> ?ms = ms"
      using loc Some by (auto simp: eq check_validity_def put_member_same)
    moreover have "\<not> (m_validity m = v \<or> n = ms_local ms) \<Longrightarrow> m_known_clocks ?m = []"
      using loc by (simp add: check_validity_def)
    ultimately show ?thesis using Some m' by (auto simp: Let_def)
  qed
qed

theorem get_resynchronises_witness:
  "clock_at (members_get [] 5 ''a'' (Some [1]) demo_known) ''a'' = 1 \<and>
   set (get_gossip ''a'' (members_get [] 5 ''a'' (Some [1]) demo_known)) = {''me'', ''a''}"
proof -
  have "{k. map_of (ms_members demo_known) k \<noteq> None \<and>
      (k = ms_local demo_known \<or> metadata_at demo_known k \<noteq> None)} = {''me'', ''a''}"
    by (rule set_eqI) (simp add: demo_known_fields metadata_at_def)
  then show ?thesis
    using get_resynchronises [OF demo_known_reachable, of "[]" 5 "''a''" "[1]"]
    by (simp add: demo_known_fields Let_def)
qed

text \<open>
  \<open>Members\<close> is declared a set of members and iterates over member objects, but \<open>in\<close> looks
  its argument up among the names: it holds for the name of every member and for no member.
\<close>

theorem members_contains_names_only:
  assumes "members_reachable ms" and "map_of (ms_members ms) n = Some m"
  shows "n \<in> set (members_iter ms) \<and> members_contains (StrKey n) ms \<and>
    \<not> members_contains (MemberKey n) ms \<and>
    members_len ms = Suc (length (ms_non_local ms))"
proof -
  have inv: "members_inv ms" using assms(1) by (rule reachable_members_inv)
  have "(n, m) \<in> set (ms_members ms)" using assms(2) by (rule map_of_SomeD)
  then have "n \<in> set (members_iter ms)"
    using members_invD(1) [OF inv assms(2)] by (force simp: members_iter_def)
  moreover have "length (ms_members ms) = card (keys_of (ms_members ms))"
    using inv unfolding members_inv_def by (metis distinct_card length_map set_map)
  then have "members_len ms = Suc (length (ms_non_local ms))"
    using inv unfolding members_inv_def members_len_def by (simp add: distinct_card)
  ultimately show ?thesis
    using assms(2) by (simp add: members_contains_def dict_has_def)
qed

theorem members_contains_names_only_witness:
  "members_contains (StrKey ''a'') demo_known \<and> \<not> members_contains (MemberKey ''a'') demo_known"
  using members_contains_names_only [OF demo_known_reachable, of "''a''" demo_a]
  by (simp add: demo_known_fields)

end
