(* ===== verification/Swim_Members_Find.thy ===== *)
theory Swim_Members_Find
  imports Swim_Members_Props
begin

text \<open>
  \<open>Members.find\<close>: what the drawing loop returns, when it ends, and what the slots that
  \<open>WeakShuffle.discard\<close> leaves behind do to it on managers that the operations reach.
\<close>

subsection \<open>The drawing loop\<close>

lemma find_loop_done: "\<not> int (length rs) < k \<Longrightarrow> find_loop ds s k rs = Some (Inr rs)"
  by (subst find_loop.simps) simp

lemma find_loop_Nil: "int (length rs) < k \<Longrightarrow> find_loop [] s k rs = None"
  by (subst find_loop.simps) simp

lemma find_loop_Cons:
  "int (length rs) < k \<Longrightarrow> shuffle_choice (\<lambda>_. True) d s = Inr v \<Longrightarrow>
     find_loop (d # ds) s k rs = find_loop ds s k (List.insert v rs)"
  by (subst find_loop.simps) simp

lemma choice_Inr:
  "shuffle_values s \<noteq> [] \<Longrightarrow>
     shuffle_choice (\<lambda>_. True) d s = Inr (referent (shuffle_values s ! (d mod length (shuffle_values s))))"
  by (simp add: shuffle_choice_def Let_def)

lemma finite_drawable [simp]: "finite (shuffle_drawable s)"
  by (simp add: shuffle_drawable_def)

text \<open>Whatever the loop returns: distinct elements of the slot list, and as many as asked for.\<close>

lemma find_loop_sound:
  assumes "find_loop ds s k rs = Some r" and "shuffle_values s \<noteq> []"
    and "distinct rs" and "set rs \<subseteq> shuffle_drawable s" and "int (length rs) \<le> max 0 k"
  shows "\<exists>ns. r = Inr ns \<and> distinct ns \<and> set rs \<subseteq> set ns \<and> set ns \<subseteq> shuffle_drawable s \<and>
    int (length ns) = max 0 k"
  using assms
proof (induction ds arbitrary: rs)
  case Nil
  then show ?case
    by (cases "int (length rs) < k") (auto simp: find_loop_Nil find_loop_done)
next
  case (Cons d ds)
  show ?case
  proof (cases "int (length rs) < k")
    case False
    with Cons.prems show ?thesis by (auto simp: find_loop_done)
  next
    case True
    obtain v where v: "shuffle_choice (\<lambda>_. True) d s = Inr v"
      using choice_Inr [OF Cons.prems(2)] by blast
    have "int (length (List.insert v rs)) \<le> max 0 k"
      using True by (simp add: List.insert_def)
    with Cons.IH [of "List.insert v rs"] Cons.prems True v choice_in_drawable [OF v]
    show ?thesis by (auto simp: find_loop_Cons)
  qed
qed

lemma find_loop_diverges:
  assumes "int (card (shuffle_drawable s)) < k" and "shuffle_values s \<noteq> []"
    and "distinct rs" and "set rs \<subseteq> shuffle_drawable s" and "int (length rs) \<le> max 0 k"
  shows "find_loop ds s k rs = None"
proof (rule ccontr)
  assume "find_loop ds s k rs \<noteq> None"
  then obtain r where "find_loop ds s k rs = Some r" by blast
  from find_loop_sound [OF this assms(2-5)] obtain ns
    where "distinct ns" "set ns \<subseteq> shuffle_drawable s" "int (length ns) = max 0 k" by blast
  then show False
    using assms(1) card_mono [of "shuffle_drawable s" "set ns"] by (simp add: distinct_card)
qed

text \<open>Draws that collect some wanted elements of the slots one by one.\<close>

lemma drawable_draw:
  assumes "v \<in> shuffle_drawable s"
  obtains d where "shuffle_choice (\<lambda>_. True) d s = Inr v"
proof -
  have "shuffle_values s \<noteq> []" using assms by (auto simp: drawable_iff)
  with assms that choice_drawable [of s v] show ?thesis by blast
qed

lemma find_loop_collects:
  assumes "set vs \<subseteq> shuffle_drawable s" and "distinct (vs @ rs)" and "int (length rs + length vs) = k"
  shows "\<exists>ds ns. find_loop ds s k rs = Some (Inr ns) \<and> set ns = set vs \<union> set rs"
  using assms
proof (induction vs arbitrary: rs)
  case Nil
  then show ?case by (auto simp: find_loop_done)
next
  case (Cons v vs)
  obtain d where d: "shuffle_choice (\<lambda>_. True) d s = Inr v"
    using Cons.prems(1) drawable_draw [of v s] by auto
  have "find_loop (d # ds) s k rs = find_loop ds s k (v # rs)" for ds
    using Cons.prems d by (simp add: find_loop_Cons List.insert_def)
  moreover obtain ds ns where "find_loop ds s k (v # rs) = Some (Inr ns)"
    "set ns = set vs \<union> set (v # rs)"
    using Cons.IH [of "v # rs"] Cons.prems by auto
  ultimately have "find_loop (d # ds) s k rs = Some (Inr ns)" "set ns = set (v # vs) \<union> set rs"
    by auto
  then show ?case by blast
qed

subsection \<open>Reachable managers\<close>

lemma find_bound_le:
  "find_bound count s exclude \<le> count" "find_bound count s exclude \<le> int (shuffle_len s)"
  by (simp_all add: find_bound_def Let_def)

lemma reachable_shuffle_wf:
  "members_reachable ms \<Longrightarrow> st \<in> set all_statuses \<Longrightarrow> shuffle_wf (shuffle_at st ms)"
  using members_invD(9) [OF reachable_members_inv] by (simp add: index_wf_def)

lemma find_nonempty:
  "shuffle_wf s \<Longrightarrow> 0 < find_bound count s exclude \<Longrightarrow> shuffle_values s \<noteq> []"
  using find_bound_le(2) [of count s exclude]
  by (auto simp: shuffle_values_Nil shuffle_len_card)

lemma find_start:
  assumes "shuffle_wf s"
  obtains "find_bound count s exclude \<le> 0"
      "\<And>ds. find_loop ds s (find_bound count s exclude) [] = Some (Inr [])"
  | "0 < find_bound count s exclude" "shuffle_values s \<noteq> []"
  using find_nonempty [OF assms, of count exclude]
  by (cases "0 < find_bound count s exclude") (auto simp: find_loop_done)

lemma update_changed_local_shuffle:
  "m_local m \<Longrightarrow> shuffle_at st (update_changed n m ms) = shuffle_at st ms"
  by (simp add: update_changed_def refreshed_def refresh_statuses_def py_bind_def shuffle_at_def
      put_member_def update_conv' on_member_def)

text \<open>The index of the offline members of a fresh manager, for the examples below.\<close>

lemma members_get_new_shuffle:
  "map_of (ms_members ms) n = None \<Longrightarrow> st \<in> set all_statuses \<Longrightarrow> overlaps OFFLINE st \<Longrightarrow>
     shuffle_at st (members_get rnd now n v ms) = shuffle_add n (shuffle_at st ms)"
  by (simp add: members_get_def Let_def add_new_member_fields update_conv')

lemma demo_offline:
  "shuffle_at OFFLINE (demo_members [''a'', ''b'']) = shuffle_init [''a'', ''b'']"
proof -
  have "overlaps OFFLINE OFFLINE" "OFFLINE \<in> set all_statuses"
    by (simp_all add: all_statuses_def)
  then have "shuffle_at OFFLINE (members_peers (\<lambda>_. []) 0 ''me'' [''a'', ''b'']) =
      shuffle_init [''a'', ''b'']"
    by (simp add: members_peers_def members_get_new_shuffle members_get_lookup members_blank_def)
      (simp add: shuffle_at_def shuffle_init_def)
  then show ?thesis
    unfolding demo_members_def members_init_result
    by (simp add: update_changed_local_shuffle changed_def member_init_def)
qed

lemma demo_offline_facts:
  "shuffle_elems (shuffle_at OFFLINE (demo_members [''a'', ''b''])) = {''a'', ''b''}"
  "shuffle_drawable (shuffle_at OFFLINE (demo_members [''a'', ''b''])) = {''a'', ''b''}"
  using shuffle_init_exact [of "[''a'', ''b'']"] exact_drawable [of "shuffle_init [''a'', ''b'']"]
  by (simp_all add: demo_offline)

lemma find_bound_eq:
  assumes "shuffle_wf s"
  shows "find_bound count s exclude = min count (int (card (shuffle_elems s)) -
    int (length (filter (\<lambda>n. n \<in> shuffle_elems s) exclude)))"
  by (simp add: find_bound_def Let_def shuffle_contains_elems [abs_def] shuffle_len_card [OF assms]
      min.commute)

text \<open>
  \<open>find\<close> reads \<open>self._statuses[status]\<close>, which stores an empty index under a status that had
  none. The model does not record this, as no reader can tell the difference.
\<close>

lemma find_stores_nothing_visible:
  "shuffle_at st' (put_shuffle st (shuffle_at st ms) ms) = shuffle_at st' ms"
  by (simp add: shuffle_at_def put_shuffle_def update_conv')

lemma find_result:
  assumes "shuffle_wf (shuffle_at st ms)" and "members_find draws count st exclude ms = Some r"
  shows "\<exists>ns. r = Inr ns \<and> distinct ns \<and> set ns \<subseteq> shuffle_drawable (shuffle_at st ms) \<and>
    int (length ns) = max 0 (find_bound count (shuffle_at st ms) exclude)"
proof -
  have run: "find_loop draws (shuffle_at st ms) (find_bound count (shuffle_at st ms) exclude) [] = Some r"
    using assms(2) by (simp add: members_find_def Let_def)
  show ?thesis
  proof (cases rule: find_start [OF assms(1), of count exclude])
    case 1
    with run show ?thesis by auto
  next
    case 2
    with find_loop_sound [OF run] show ?thesis by auto
  qed
qed

lemma find_possible:
  assumes "shuffle_wf (shuffle_at st ms)" and "V \<subseteq> shuffle_drawable (shuffle_at st ms)"
    and "int (card V) = max 0 (find_bound count (shuffle_at st ms) exclude)"
  shows "\<exists>draws ns. members_find draws count st exclude ms = Some (Inr ns) \<and> set ns = V"
proof -
  let ?s = "shuffle_at st ms" and ?k = "find_bound count (shuffle_at st ms) exclude"
  have V: "finite V" using assms(2) by (rule finite_subset) simp
  show ?thesis
  proof (cases rule: find_start [OF assms(1), of count exclude])
    case 1
    with assms(3) V show ?thesis by (auto simp: members_find_def Let_def)
  next
    case 2
    obtain vs where vs: "set vs = V" "distinct vs" using finite_distinct_list [OF V] by blast
    then have "\<exists>ds ns. find_loop ds ?s ?k [] = Some (Inr ns) \<and> set ns = set vs \<union> set []"
      using assms(2,3) 2(1) by (intro find_loop_collects) (auto simp: distinct_card [symmetric])
    with vs(1) show ?thesis by (auto simp: members_find_def Let_def)
  qed
qed

text \<open>
  C24: The possible results of \<open>find\<close>, over all random numbers: it never raises, a result has no
  member twice, and the sets that can come out are exactly the sets of members in the slots that
  have as many elements as asked for, or as there are members of that status that are not
  excluded, whichever is less (none if that is negative). There may be no such set, and then the
  search never returns.
\<close>

theorem find_count:
  fixes count :: int and exclude :: "string list"
  assumes "members_reachable ms" and "st \<in> set all_statuses"
  defines "s \<equiv> shuffle_at st ms"
  shows "(\<forall>draws e. members_find draws count st exclude ms \<noteq> Some (Inl e)) \<and>
    (\<forall>draws ns. members_find draws count st exclude ms = Some (Inr ns) \<longrightarrow> distinct ns) \<and>
    {V. \<exists>draws ns. members_find draws count st exclude ms = Some (Inr ns) \<and> set ns = V} =
    {V. V \<subseteq> shuffle_drawable s \<and>
      int (card V) = max 0 (min count (int (card (shuffle_elems s)) -
        int (length (filter (\<lambda>n. n \<in> shuffle_elems s) exclude))))}"
    (is "?noerror \<and> ?distinct \<and> ?possible = ?allowed")
proof -
  have wf: "shuffle_wf (shuffle_at st ms)" using assms(1,2) by (rule reachable_shuffle_wf)
  have "?noerror" "?distinct" using find_result [OF wf] by force+
  moreover have "?possible \<subseteq> ?allowed"
    unfolding s_def find_bound_eq [OF wf, symmetric]
    using find_result [OF wf] by (fastforce simp: distinct_card)
  moreover have "?allowed \<subseteq> ?possible"
    unfolding s_def find_bound_eq [OF wf, symmetric] using find_possible [OF wf] by blast
  ultimately show ?thesis by blast
qed

theorem find_count_witness:
  "{V. \<exists>draws ns. members_find draws 1 OFFLINE [] (demo_members [''a'', ''b'']) = Some (Inr ns) \<and>
     set ns = V} = {{''a''}, {''b''}}"
proof -
  have "OFFLINE \<in> set all_statuses" by (simp add: all_statuses_def)
  note eq = find_count [OF demo_reachable this, where count = 1 and exclude = "[]"]
  have "{V. V \<subseteq> {''a'', ''b''} \<and> int (card V) = 1} = {{''a''}, {''b''}}"
    by (auto simp: card_1_singleton_iff)
  with eq show ?thesis by (simp add: demo_offline_facts)
qed

text \<open>
  C23: \<open>find\<close> can return if and only if it asks for no more members than there are different
  ones in the slots; otherwise it draws for ever, whatever the random numbers are.
\<close>

theorem find_returns_iff:
  assumes "members_reachable ms" and "st \<in> set all_statuses"
  shows "(\<exists>draws. members_find draws count st exclude ms \<noteq> None) =
    (find_bound count (shuffle_at st ms) exclude \<le> int (card (shuffle_drawable (shuffle_at st ms))))"
proof -
  let ?s = "shuffle_at st ms" and ?k = "find_bound count (shuffle_at st ms) exclude"
  have wf: "shuffle_wf ?s" using assms by (rule reachable_shuffle_wf)
  show ?thesis
  proof (cases rule: find_start [OF wf, of count exclude])
    case 1
    then show ?thesis by (auto simp: members_find_def Let_def)
  next
    case 2
    show ?thesis
    proof (cases "?k \<le> int (card (shuffle_drawable ?s))")
      case True
      then have "nat ?k \<le> card (shuffle_drawable ?s)" using 2(1) by simp
      then obtain V where V: "V \<subseteq> shuffle_drawable ?s" "card V = nat ?k" "finite V"
        using obtain_subset_with_card_n by blast
      obtain vs where vs: "set vs = V" "distinct vs" using finite_distinct_list [OF V(3)] by blast
      have "\<exists>ds ns. find_loop ds ?s ?k [] = Some (Inr ns) \<and> set ns = set vs \<union> set []"
        using vs V 2(1) by (intro find_loop_collects) (auto simp: distinct_card [symmetric])
      then have "\<exists>draws. members_find draws count st exclude ms \<noteq> None"
        by (auto simp: members_find_def Let_def)
      with True show ?thesis by simp
    next
      case False
      then have "find_loop ds ?s ?k [] = None" for ds
        using 2(2) by (intro find_loop_diverges) auto
      with False show ?thesis by (simp add: members_find_def Let_def)
    qed
  qed
qed

theorem find_returns_iff_witness:
  "\<exists>draws. members_find draws 2 OFFLINE [] (demo_members [''a'', ''b'']) \<noteq> None"
proof -
  have "OFFLINE \<in> set all_statuses" by (simp add: all_statuses_def)
  from find_returns_iff [OF demo_reachable this, of 2 "[]" "[''a'', ''b'']"] show ?thesis
    by (simp add: demo_offline_facts find_bound_def Let_def)
qed

text \<open>
  \<open>find\<close> counts the members to exclude but does not exclude them. If the excluded member can
  be drawn and another member has the status, the excluded member is a possible result: a failure
  check can ask the unresponsive target to ping itself.
\<close>

theorem find_returns_excluded:
  assumes "members_reachable ms" and "st \<in> set all_statuses"
    and "target \<in> shuffle_drawable (shuffle_at st ms)"
    and "target \<in> shuffle_elems (shuffle_at st ms)" and "other \<in> shuffle_elems (shuffle_at st ms)"
    and "other \<noteq> target"
  shows "\<exists>draws. members_find draws 1 st [target] ms = Some (Inr [target])"
proof -
  let ?s = "shuffle_at st ms"
  have wf: "shuffle_wf ?s" using assms(1,2) by (rule reachable_shuffle_wf)
  have "card {target, other} \<le> card (shuffle_elems ?s)" using assms by (intro card_mono) auto
  then have k: "find_bound 1 ?s [target] = 1"
    using assms(4,6) by (simp add: find_bound_def Let_def shuffle_contains_elems shuffle_len_card [OF wf])
  obtain d where d: "shuffle_choice (\<lambda>_. True) d ?s = Inr target"
    using assms(3) by (rule drawable_draw)
  have "find_loop [d] ?s 1 [] = Some (Inr [target])"
    using d by (simp add: find_loop_Cons find_loop_done)
  with k show ?thesis by (auto simp: members_find_def Let_def)
qed

theorem find_returns_excluded_witness:
  "\<exists>draws. members_find draws 1 OFFLINE [''a''] (demo_members [''a'', ''b'']) = Some (Inr [''a''])"
proof -
  have "OFFLINE \<in> set all_statuses" by (simp add: all_statuses_def)
  from find_returns_excluded [OF demo_reachable this, of "''a''" "[''a'', ''b'']" "''b''"]
  show ?thesis by (simp add: demo_offline_facts)
qed

subsection \<open>The index of a status over a run\<close>

text \<open>An update that changes the status of a peer, as seen by the index of one status.\<close>

lemma update_changed_shuffle:
  assumes "members_inv ms" and "\<not> m_local m" and "st \<in> set all_statuses"
  shows "shuffle_at st (update_changed n m ms) =
    (if overlaps (m_status m) st then shuffle_add n (shuffle_at st ms)
     else snd (shuffle_discard n (shuffle_at st ms)))"
proof -
  let ?ms = "put_member n m ms" and ?p = "overlaps (m_status m)"
  have "\<forall>st \<in> set all_statuses. shuffle_wf (shuffle_at st ?ms)"
    using members_invD(9) [OF assms(1)] by (simp add: index_wf_def)
  then obtain t where t: "refile_all ?p n all_statuses ?ms = (Inr (), ?ms\<lparr>ms_statuses := t\<rparr>)"
    and at: "\<And>st. shuffle_at st (?ms\<lparr>ms_statuses := t\<rparr>) =
      (if st \<in> set all_statuses then snd (ws.refile (?p st) n (shuffle_at st ?ms))
       else shuffle_at st ?ms)"
    using refile_all_run [OF distinct_all_statuses] by blast
  have "refresh_statuses n ?ms = refile_all ?p n all_statuses ?ms"
    using assms(2) by (simp add: refresh_statuses_def refile_all_def py_bind_def)
  then have "refreshed n ?ms = ?ms\<lparr>ms_statuses := t\<rparr>" by (simp add: refreshed_def t)
  then have "shuffle_at st (update_changed n m ms) = shuffle_at st (?ms\<lparr>ms_statuses := t\<rparr>)"
    by (simp add: update_changed_def Let_def shuffle_at_def)
  with at [of st] assms(3) show ?thesis by (simp add: ws.refile_def)
qed

definition status_trace :: "(string \<times> status) list \<Rightarrow> members \<Rightarrow> members" where
  "status_trace tr = fold (\<lambda>(n, st) ms. snd (members_update 1 n (Some st) None ms)) tr"

lemma status_trace_simps [simp]:
  "status_trace [] ms = ms"
  "status_trace ((n, st) # tr) ms = status_trace tr (snd (members_update 1 n (Some st) None ms))"
  by (simp_all add: status_trace_def)

lemma status_trace_reachable:
  "members_reachable ms \<Longrightarrow> \<forall>(n, st) \<in> set tr. settable (Some st) \<Longrightarrow>
     members_reachable (status_trace tr ms)"
proof (induction tr arbitrary: ms)
  case (Cons x tr)
  then show ?case
    by (cases x) (auto intro!: Cons.IH reach_step [OF _ step_update])
qed simp

text \<open>The part of a manager that the trace below is about.\<close>

definition peers_view ::
    "members \<Rightarrow> string \<Rightarrow> (string \<Rightarrow> status option) \<Rightarrow> string weak_shuffle \<Rightarrow> bool" where
  "peers_view ms l f s \<longleftrightarrow>
     members_inv ms \<and> ms_local ms = l \<and> status_at ms = f \<and> shuffle_at AVAILABLE ms = s"

lemma peers_view_step:
  assumes "peers_view ms l f s" and "f n = Some old" and "n \<noteq> l" and "settable (Some st)"
    and "new = status_after old (Some st)" and "new \<noteq> old"
  shows "peers_view (snd (members_update 1 n (Some st) None ms)) l (f(n \<mapsto> new))
    (if overlaps new AVAILABLE then shuffle_add n s else snd (shuffle_discard n s))"
proof -
  obtain m where m: "map_of (ms_members ms) n = Some m" "m_status m = old"
    using assms(1,2) by (auto simp: peers_view_def status_at_def)
  have inv: "members_inv ms" and loc: "ms_local ms = l" using assms(1) by (auto simp: peers_view_def)
  let ?m = "changed 1 None (ms_next_clock ms) (ms_next_clock ms) (Some st) None m"
  have "accepts None (ms_next_clock ms) m" "changes (Some st) None m"
    using members_invD(5) [OF inv m(1)] m(2) assms(5,6) by (simp_all add: accepts_def changes_def)
  then have run: "members_update 1 n (Some st) None ms = (Inr (), update_changed n ?m ms)"
    using m inv assms(4) by (simp add: members_update_common update_changes)
  have nl: "\<not> m_local m" using members_invD(2) [OF inv m(1)] assms(3) loc by simp
  have f: "m_status ?m = new" "\<not> m_local ?m" using nl m(2) assms(5) by (simp_all add: changed_def)
  have "members_inv (update_changed n ?m ms)"
    using update_common_inv [OF inv assms(4), of 1 n None "ms_next_clock ms" None] run
    by (simp add: members_update_common)
  moreover have "status_at (update_changed n ?m ms) = f(n \<mapsto> new)"
    using assms(1) f by (auto simp: peers_view_def status_at_def update_changed_lookup [OF inv])
  ultimately show ?thesis
    using assms(1) f run
    by (simp add: peers_view_def update_changed_fields members_invD(9) [OF inv] all_statuses_def
        update_changed_shuffle [OF inv f(2)])
qed

primrec trace_view ::
    "(string \<times> status) list \<Rightarrow> (string \<Rightarrow> status option) \<times> string weak_shuffle \<Rightarrow>
     (string \<Rightarrow> status option) \<times> string weak_shuffle" where
  "trace_view [] v = v"
| "trace_view (x # tr) v =
     (let n = fst x; new = status_after (the (fst v n)) (Some (snd x))
      in trace_view tr ((fst v)(n \<mapsto> new),
           if overlaps new AVAILABLE then shuffle_add n (snd v)
           else snd (shuffle_discard n (snd v))))"

primrec trace_moves :: "string \<Rightarrow> (string \<times> status) list \<Rightarrow> (string \<Rightarrow> status option) \<Rightarrow> bool" where
  "trace_moves l [] f \<longleftrightarrow> True"
| "trace_moves l (x # tr) f \<longleftrightarrow>
     (let n = fst x; new = status_after (the (f n)) (Some (snd x))
      in f n \<noteq> None \<and> n \<noteq> l \<and> settable (Some (snd x)) \<and> new \<noteq> the (f n) \<and>
         trace_moves l tr (f(n \<mapsto> new)))"

lemma trace_view_run:
  "peers_view ms l (fst v) (snd v) \<Longrightarrow> trace_moves l tr (fst v) \<Longrightarrow>
     peers_view (status_trace tr ms) l (fst (trace_view tr v)) (snd (trace_view tr v))"
proof (induction tr arbitrary: ms v)
  case Nil
  then show ?case by simp
next
  case (Cons x tr)
  obtain n st where x: "x = (n, st)" by (cases x)
  obtain old where old: "fst v n = Some old" using Cons.prems(2) by (auto simp: Let_def x)
  let ?new = "status_after old (Some st)"
  let ?v = "((fst v)(n \<mapsto> ?new),
    if overlaps ?new AVAILABLE then shuffle_add n (snd v) else snd (shuffle_discard n (snd v)))"
  have "peers_view (snd (members_update 1 n (Some st) None ms)) l (fst ?v) (snd ?v)"
    unfolding fst_conv snd_conv
    using Cons.prems(2) old by (intro peers_view_step [OF Cons.prems(1) old]) (auto simp: x Let_def)
  moreover have "trace_moves l tr (fst ?v)"
    unfolding fst_conv using Cons.prems(2) old by (simp add: x Let_def)
  moreover have "trace_view (x # tr) v = trace_view tr ?v" using old by (simp add: x Let_def)
  moreover have "status_trace (x # tr) ms = status_trace tr (snd (members_update 1 n (Some st) None ms))"
    by (simp add: x)
  ultimately show ?case by (metis Cons.IH)
qed

text \<open>Three peers that come up, and two of them go down; the index then holds a stale slot.\<close>

definition down_trace :: "(string \<times> status) list" where
  "down_trace = [(''a'', ONLINE), (''c'', ONLINE), (''b'', ONLINE),
     (''a'', SUSPECT), (''a'', OFFLINE), (''b'', SUSPECT), (''b'', OFFLINE)]"

text \<open>The two peers fail one after the other, and both recover.\<close>

definition recover_trace :: "(string \<times> status) list" where
  "recover_trace = [(''a'', ONLINE), (''c'', ONLINE), (''b'', ONLINE),
     (''a'', SUSPECT), (''a'', OFFLINE), (''a'', ONLINE),
     (''b'', SUSPECT), (''b'', OFFLINE), (''b'', ONLINE)]"

lemma members_get_shuffle:
  "\<not> overlaps OFFLINE st \<Longrightarrow> shuffle_at st (members_get rnd now n v ms) = shuffle_at st ms"
  by (auto simp: members_get_def Let_def add_new_member_fields split: option.split)

lemma members_peers_shuffle:
  "\<not> overlaps OFFLINE st \<Longrightarrow> shuffle_at st (members_peers rnd now l ps) = empty_shuffle"
proof -
  assume "\<not> overlaps OFFLINE st"
  then have "shuffle_at st (fold (\<lambda>peer. members_get (rnd peer) now peer None) ps ms) = shuffle_at st ms" for ms
    by (induction ps arbitrary: ms) (simp_all add: members_get_shuffle)
  then show ?thesis by (simp add: members_peers_def members_blank_def shuffle_at_def)
qed

lemma demo_view:
  "peers_view (demo_members [''a'', ''b'', ''c'']) ''me''
     [''me'' \<mapsto> ONLINE, ''a'' \<mapsto> OFFLINE, ''b'' \<mapsto> OFFLINE, ''c'' \<mapsto> OFFLINE] empty_shuffle"
proof -
  let ?d = "demo_members [''a'', ''b'', ''c'']"
  have "shuffle_at AVAILABLE ?d = empty_shuffle"
    unfolding demo_members_def members_init_result
    by (simp add: update_changed_local_shuffle members_peers_shuffle changed_def member_init_def)
  moreover have "status_at ?d n =
      [''me'' \<mapsto> ONLINE, ''a'' \<mapsto> OFFLINE, ''b'' \<mapsto> OFFLINE, ''c'' \<mapsto> OFFLINE] n" for n
    by (simp add: status_at_def demo_fields)
  ultimately show ?thesis
    using reachable_members_inv [OF demo_reachable] by (auto simp: peers_view_def demo_fields)
qed

text \<open>The index after the traces, slot by slot.\<close>

lemmas shuffle_eval = shuffle_add_def shuffle_discard_def finalize_def dict_has_def empty_shuffle_def
  status_after_def

lemma down_view:
  "\<exists>f s. peers_view (status_trace down_trace (demo_members [''a'', ''b'', ''c''])) ''me'' f s \<and>
     f ''a'' = Some OFFLINE \<and> f ''b'' = Some OFFLINE \<and> f ''c'' = Some ONLINE \<and>
     shuffle_values s = [Ref ''b''] \<and> weak_vals s = [(''c'', Ref ''c'')]"
proof -
  let ?v = "([''me'' \<mapsto> ONLINE, ''a'' \<mapsto> OFFLINE, ''b'' \<mapsto> OFFLINE, ''c'' \<mapsto> OFFLINE],
      empty_shuffle :: string weak_shuffle)"
  have "trace_moves ''me'' down_trace (fst ?v)" by code_simp
  with demo_view trace_view_run [of "demo_members [''a'', ''b'', ''c'']" "''me''" ?v down_trace]
  have "peers_view (status_trace down_trace (demo_members [''a'', ''b'', ''c''])) ''me''
      (fst (trace_view down_trace ?v)) (snd (trace_view down_trace ?v))"
    by (simp only: fst_conv snd_conv)
  moreover have "fst (trace_view down_trace ?v) ''a'' = Some OFFLINE"
    "fst (trace_view down_trace ?v) ''b'' = Some OFFLINE"
    "fst (trace_view down_trace ?v) ''c'' = Some ONLINE"
    "shuffle_values (snd (trace_view down_trace ?v)) = [Ref ''b'']"
    "weak_vals (snd (trace_view down_trace ?v)) = [(''c'', Ref ''c'')]"
    by code_simp+
  ultimately show ?thesis by blast
qed

lemma recover_view:
  "\<exists>f s. peers_view (status_trace recover_trace (demo_members [''a'', ''b'', ''c''])) ''me'' f s \<and>
     f ''a'' = Some ONLINE \<and> f ''b'' = Some ONLINE \<and> f ''c'' = Some ONLINE \<and>
     shuffle_values s = [Ref ''b'', Ref ''c'', Ref ''b''] \<and>
     weak_vals s = [(''c'', Ref ''c''), (''a'', Ref ''a''), (''b'', Ref ''b'')]"
proof -
  let ?v = "([''me'' \<mapsto> ONLINE, ''a'' \<mapsto> OFFLINE, ''b'' \<mapsto> OFFLINE, ''c'' \<mapsto> OFFLINE],
      empty_shuffle :: string weak_shuffle)"
  have "trace_moves ''me'' recover_trace (fst ?v)" by code_simp
  with demo_view trace_view_run [of "demo_members [''a'', ''b'', ''c'']" "''me''" ?v recover_trace]
  have "peers_view (status_trace recover_trace (demo_members [''a'', ''b'', ''c''])) ''me''
      (fst (trace_view recover_trace ?v)) (snd (trace_view recover_trace ?v))"
    by (simp only: fst_conv snd_conv)
  moreover have "fst (trace_view recover_trace ?v) ''a'' = Some ONLINE"
    "fst (trace_view recover_trace ?v) ''b'' = Some ONLINE"
    "fst (trace_view recover_trace ?v) ''c'' = Some ONLINE"
    "shuffle_values (snd (trace_view recover_trace ?v)) = [Ref ''b'', Ref ''c'', Ref ''b'']"
    "weak_vals (snd (trace_view recover_trace ?v)) =
      [(''c'', Ref ''c''), (''a'', Ref ''a''), (''b'', Ref ''b'')]"
    by code_simp+
  ultimately show ?thesis by blast
qed

text \<open>
  Peers that go down leave an index from which the wrong members are drawn. Of three peers
  that came online two are reported down, one after the other; from the state the manager then
  reaches, every search for an available member returns a member that is offline, and never the
  one that is online.
\<close>

theorem find_returns_offline:
  "\<exists>ms. ms = status_trace down_trace (demo_members [''a'', ''b'', ''c'']) \<and> members_reachable ms \<and>
    status_at ms ''b'' = Some OFFLINE \<and> status_at ms ''c'' = Some ONLINE \<and>
    shuffle_elems (shuffle_at AVAILABLE ms) = {''c''} \<and>
    (\<forall>d ds. members_find (d # ds) 1 AVAILABLE [] ms = Some (Inr [''b'']))"
proof -
  let ?ms = "status_trace down_trace (demo_members [''a'', ''b'', ''c''])"
  obtain f s where v: "peers_view ?ms ''me'' f s" "f ''b'' = Some OFFLINE" "f ''c'' = Some ONLINE"
    "shuffle_values s = [Ref ''b'']" "weak_vals s = [(''c'', Ref ''c'')]"
    using down_view by blast
  have "members_reachable ?ms"
    by (rule status_trace_reachable [OF demo_reachable]) (simp add: down_trace_def)
  moreover have "find_bound 1 s [] = 1" using v(5) by (simp add: find_bound_def shuffle_len_def)
  ultimately show ?thesis
    using v by (simp add: peers_view_def members_find_def shuffle_elems_def find_loop_Cons
        find_loop_done choice_Inr List.insert_def)
qed

text \<open>
  C26: Peers that go down and recover leave an index from which a search never returns. Three peers
  came online, two of them failed and recovered one after the other, and all three are online;
  the slots then hold two different members only, so a search for three available members draws
  for ever, and no search ever returns the third peer.
\<close>

theorem find_never_returns:
  "\<exists>ms. ms = status_trace recover_trace (demo_members [''a'', ''b'', ''c'']) \<and> members_reachable ms \<and>
    shuffle_elems (shuffle_at AVAILABLE ms) = {''a'', ''b'', ''c''} \<and>
    ''a'' \<notin> shuffle_drawable (shuffle_at AVAILABLE ms) \<and>
    (\<forall>draws. members_find draws 3 AVAILABLE [] ms = None)"
proof -
  let ?ms = "status_trace recover_trace (demo_members [''a'', ''b'', ''c''])"
  obtain f s where v: "peers_view ?ms ''me'' f s"
    "shuffle_values s = [Ref ''b'', Ref ''c'', Ref ''b'']"
    "weak_vals s = [(''c'', Ref ''c''), (''a'', Ref ''a''), (''b'', Ref ''b'')]"
    using recover_view by blast
  have reach: "members_reachable ?ms"
    by (rule status_trace_reachable [OF demo_reachable]) (simp add: recover_trace_def)
  have d: "shuffle_drawable s = {''b'', ''c''}" using v(2) by (auto simp: shuffle_drawable_def)
  have k: "find_bound 3 s [] = 3" using v(3) by (simp add: find_bound_def shuffle_len_def)
  have "find_loop ds s 3 [] = None" for ds
    using d v(2) by (intro find_loop_diverges) auto
  moreover have "shuffle_elems s = {''a'', ''b'', ''c''}" using v(3) by (auto simp: shuffle_elems_def)
  ultimately show ?thesis
    using v(1) reach d k by (simp add: peers_view_def members_find_def)
qed

end
