(* ===== verification/Swim_Tasks.thy ===== *)
theory Swim_Tasks
  imports Swim_Prelude
begin

text \<open>
  The classes \<open>TaskOwner\<close> and \<open>DaemonTask\<close> of \<open>swimprotocol/tasks.py\<close>. A task is a
  number with what is left of its coroutine; the event loop drops a task when it is done and then
  calls the callback that removes it from \<open>_running\<close>.
\<close>

subsection \<open>TaskOwner\<close>

record 'c task_owner =
  running :: "(nat \<times> 'c) list"
  next_task :: nat

definition owner_init :: "'c task_owner" where
  "owner_init = \<lparr>running = [], next_task = 0\<rparr>"

definition run_subtask :: "'c \<Rightarrow> 'c task_owner \<Rightarrow> nat \<times> 'c task_owner" where
  "run_subtask coro t =
     (let task = next_task t
      in (task, t\<lparr>running := AList.update task coro (running t), next_task := Suc task\<rparr>))"

text \<open>The task goes on to its next suspension, or it is done (\<open>running.discard\<close>).\<close>

definition task_suspend :: "nat \<Rightarrow> 'c \<Rightarrow> 'c task_owner \<Rightarrow> 'c task_owner" where
  "task_suspend task coro t = t\<lparr>running := AList.update task coro (running t)\<rparr>"

definition task_done :: "nat \<Rightarrow> 'c task_owner \<Rightarrow> 'c task_owner" where
  "task_done task t = t\<lparr>running := AList.delete task (running t)\<rparr>"

definition owner_inv :: "'c task_owner \<Rightarrow> bool" where
  "owner_inv t \<longleftrightarrow> distinct (map fst (running t)) \<and> (\<forall>i \<in> keys_of (running t). i < next_task t)"

lemma owner_init_inv [simp]: "owner_inv owner_init"
  by (simp add: owner_inv_def owner_init_def)

lemma owner_fresh: "owner_inv t \<Longrightarrow> map_of (running t) (next_task t) = None"
  by (force simp: owner_inv_def map_of_eq_None_iff)

lemma run_subtask_lookup:
  "map_of (running (snd (run_subtask c t))) = (map_of (running t))(next_task t \<mapsto> c)"
  by (simp add: run_subtask_def Let_def update_conv')

lemma task_lookup [simp]:
  "map_of (running (task_suspend i c t)) = (map_of (running t))(i \<mapsto> c)"
  "map_of (running (task_done i t)) = (map_of (running t))(i := None)"
  by (simp_all add: task_suspend_def task_done_def update_conv' delete_conv')

lemma owner_keeps [intro]:
  assumes "owner_inv t"
  shows "owner_inv (snd (run_subtask c t))"
    and "owner_inv (task_done i t)"
    and "map_of (running t) i \<noteq> None \<Longrightarrow> owner_inv (task_suspend i c t)"
  using assms
  by (auto simp: owner_inv_def run_subtask_def task_done_def task_suspend_def Let_def
      distinct_update distinct_delete dom_update less_SucI map_of_eq_None_iff)

subsection \<open>DaemonTask\<close>

text \<open>The life of the task of a context: it is made on entry and cancelled on exit.\<close>

datatype task_state = Running | Cancelled | Failed py_error

record daemon_task =
  daemon :: "task_state option"

definition daemon_init :: daemon_task where
  "daemon_init = \<lparr>daemon = None\<rparr>"

definition daemon_enter :: "daemon_task \<Rightarrow> daemon_task" where
  "daemon_enter d = d\<lparr>daemon := Some Running\<rparr>"

text \<open>\<open>cancel\<close> does nothing to a task that is done.\<close>

definition daemon_exit :: "daemon_task \<Rightarrow> daemon_task" where
  "daemon_exit d = (case daemon d of
     Some Running \<Rightarrow> d\<lparr>daemon := Some Cancelled\<rparr>
   | _ \<Rightarrow> d)"

end
