(* ===== verification/Swim_Worker.thy ===== *)
theory Swim_Worker
  imports Swim_Members_Gossip Swim_Members_Find Swim_Tasks
begin

text \<open>
  The class \<open>Worker\<close> of \<open>swimprotocol/worker.py\<close>. The event loop runs one task at a time and
  changes tasks only where a coroutine suspends. \<open>Queue.put\<close> on the unbounded queues never
  suspends, so the handling of one packet is one step, and so is every stretch of \<open>check\<close> and
  of the other coroutines between two suspensions. A step is a function; the order of the steps
  (the schedule, the packets and the timeouts) is a list of events.

  A sleep or a wait with a timeout can end at any step after it began: the theorems hold for all
  interval settings, and \<open>ping_req_count\<close> is the only setting that is kept.
\<close>

subsection \<open>State\<close>

text \<open>
  Where a subtask of the worker is suspended: before its first step, in the first \<open>_wait\<close> of
  \<open>check\<close>, in \<open>asyncio.wait\<close> with the sends that have not run, or in the second \<open>_wait\<close>.
\<close>

datatype subtask =
    Check_start (check_target: string)
  | Check_ping (check_target: string) (check_event: nat)
  | Check_sending (check_target: string) (check_indirects: "string list")
  | Check_ping_req (check_target: string) (check_event: nat)
  | Disseminate_start (disseminate_target: string)

datatype loop = Handler | Detection | Dissemination

text \<open>
  An \<open>asyncio.Event\<close> is a number with its flag; it is in the weak set of its member as long as
  the \<open>_wait\<close> that made it is running. \<open>w_timers\<close> are the running \<open>_suspect_wait\<close> tasks.
  \<open>w_failed\<close> are the loops of \<open>run\<close> that an exception has ended, in order.
\<close>

record worker =
  w_ping_req_count :: int
  w_members :: members
  w_recv_queue :: "packet list"
  w_send_queue :: "(string \<times> packet) list"
  w_waiting :: "(string \<times> (nat \<times> bool) list) list"
  w_listening :: "(string \<times> string list) list"
  w_suspect :: "(string \<times> nat) list"
  w_timers :: "(nat \<times> string) list"
  w_next :: nat
  w_owner :: "subtask task_owner"
  w_failed :: "(loop \<times> py_error) list"

definition worker_init :: "int \<Rightarrow> members \<Rightarrow> worker" where
  "worker_init ping_req_count ms =
     \<lparr>w_ping_req_count = ping_req_count, w_members = ms, w_recv_queue = [], w_send_queue = [],
      w_waiting = [], w_listening = [], w_suspect = [], w_timers = [], w_next = 0,
      w_owner = owner_init, w_failed = []\<rparr>"

subsection \<open>Statements\<close>

definition with_members :: "(members, 'a) py \<Rightarrow> (worker, 'a) py" where
  "with_members = py_on w_members (\<lambda>ms w. w\<lparr>w_members := ms\<rparr>)"

definition get_member ::
    "(string \<Rightarrow> bytes) \<Rightarrow> int \<Rightarrow> string \<Rightarrow> bytes option \<Rightarrow> (worker, unit) py" where
  "get_member rnd now name validity =
     with_members (py_modify (members_get (rnd name) now name validity))"

text \<open>\<open>member.source\<close>.\<close>

definition source_of :: "string \<Rightarrow> (worker, source) py" where
  "source_of name = with_members (on_member name (py_read member_source))"

definition send :: "string \<Rightarrow> packet \<Rightarrow> (worker, unit) py" where
  "send target packet = py_modify (\<lambda>w. w\<lparr>w_send_queue := w_send_queue w @ [(target, packet)]\<rparr>)"

definition events_at :: "string \<Rightarrow> worker \<Rightarrow> (nat \<times> bool) list" where
  "events_at member w = (case map_of (w_waiting w) member of None \<Rightarrow> [] | Some es \<Rightarrow> es)"

definition add_waiting :: "string \<Rightarrow> nat \<Rightarrow> (worker, unit) py" where
  "add_waiting member event = py_modify (\<lambda>w.
     w\<lparr>w_waiting := AList.update member (events_at member w @ [(event, False)]) (w_waiting w)\<rparr>)"

definition add_listening :: "string \<Rightarrow> string \<Rightarrow> (worker, unit) py" where
  "add_listening member target = py_modify (\<lambda>w.
     let listening = (case map_of (w_listening w) target of None \<Rightarrow> [] | Some l \<Rightarrow> l)
     in w\<lparr>w_listening := AList.update target (List.insert member listening) (w_listening w)\<rparr>)"

definition notify_waiting :: "string \<Rightarrow> (worker, unit) py" where
  "notify_waiting member = py_modify (\<lambda>w.
     case map_of (w_waiting w) member of
       None \<Rightarrow> w
     | Some es \<Rightarrow>
         w\<lparr>w_waiting := AList.update member (map (\<lambda>(event, _). (event, True)) es) (w_waiting w)\<rparr>)"

definition get_listening :: "string \<Rightarrow> (worker, string list) py" where
  "get_listening member = (\<lambda>w.
     case map_of (w_listening w) member of
       None \<Rightarrow> (Inr [], w)
     | Some l \<Rightarrow> (Inr l, w\<lparr>w_listening := AList.delete member (w_listening w)\<rparr>))"

definition handle_status :: "string \<Rightarrow> status \<Rightarrow> (worker, unit) py" where
  "handle_status target status = py_modify (\<lambda>w.
     if status = SUSPECT then
       (case map_of (w_suspect w) target of
          None \<Rightarrow>
            w\<lparr>w_suspect := AList.update target (w_next w) (w_suspect w),
              w_timers := AList.update (w_next w) target (w_timers w),
              w_next := Suc (w_next w)\<rparr>
        | Some suspect_task \<Rightarrow> w)
     else
       (case map_of (w_suspect w) target of
          None \<Rightarrow> w
        | Some suspect_task \<Rightarrow>
            w\<lparr>w_suspect := AList.delete target (w_suspect w),
              w_timers := AList.delete suspect_task (w_timers w)\<rparr>))"

definition build_gossip :: "string \<Rightarrow> string \<Rightarrow> (worker, packet) py" where
  "build_gossip local member =
     py_bind (source_of local) (\<lambda>src.
     py_bind (with_members (on_member member (py_read (\<lambda>m. m)))) (\<lambda>m.
     py_return (Gossip src (m_name m) (m_clock m) (m_status m) (m_metadata_dict m))))"

text \<open>\<open>_apply_gossip\<close>; the packet returned is the acknowledgement.\<close>

definition apply_gossip ::
    "int \<Rightarrow> string \<Rightarrow> string \<Rightarrow> string \<Rightarrow> string \<Rightarrow> int \<Rightarrow> status \<Rightarrow> metadata option \<Rightarrow>
     (worker, packet) py" where
  "apply_gossip now local source member name clock status metadata =
     py_seq (handle_status member status) (
     py_seq (with_members (members_apply now member source clock status metadata)) (
     py_bind (source_of local) (\<lambda>src.
     py_return (GossipAck src name clock))))"

subsection \<open>The handler\<close>

definition handle_packet ::
    "(string \<Rightarrow> bytes) \<Rightarrow> int \<Rightarrow> packet \<Rightarrow> (worker, unit) py" where
  "handle_packet rnd now packet =
     py_bind (py_read (\<lambda>w. ms_local (w_members w))) (\<lambda>local.
     let source = src_name (packet_source packet) in
     py_seq (get_member rnd now source (Some (src_validity (packet_source packet)))) (
     py_seq (notify_waiting source) (
     py_bind (get_listening source) (\<lambda>targets.
     py_seq (py_for targets (\<lambda>target.
       py_bind (source_of source) (\<lambda>src. send target (Ack src)))) (
     case packet of
       Ping _ \<Rightarrow> py_bind (source_of local) (\<lambda>src. send source (Ack src))
     | PingReq _ target \<Rightarrow>
         py_seq (get_member rnd now target None) (
         py_bind (source_of local) (\<lambda>src.
         py_seq (send target (Ping src)) (
         add_listening source target)))
     | Ack _ \<Rightarrow> py_return ()
     | Gossip _ name clock status metadata \<Rightarrow>
         py_seq (get_member rnd now name None) (
         py_bind (apply_gossip now local source name name clock status metadata) (\<lambda>ack.
         send source ack))
     | GossipAck _ name clock \<Rightarrow>
         py_seq (get_member rnd now name None) (
         with_members (ack_gossip name source clock)))))))"

text \<open>One turn of \<open>_run_handler\<close>; an exception ends the loop.\<close>

definition loop_fails :: "loop \<Rightarrow> (py_error + unit) \<times> worker \<Rightarrow> worker" where
  "loop_fails l r = (case r of
     (Inr _, w) \<Rightarrow> w
   | (Inl e, w) \<Rightarrow> w\<lparr>w_failed := w_failed w @ [(l, e)]\<rparr>)"

definition loop_runs :: "loop \<Rightarrow> worker \<Rightarrow> bool" where
  "loop_runs l w = (map_of (w_failed w) l = None)"

definition handler_turn :: "(string \<Rightarrow> bytes) \<Rightarrow> int \<Rightarrow> worker \<Rightarrow> worker option" where
  "handler_turn rnd now w =
     (if loop_runs Handler w then
        (case w_recv_queue w of
           [] \<Rightarrow> None
         | packet # rest \<Rightarrow>
             Some (loop_fails Handler (handle_packet rnd now packet (w\<lparr>w_recv_queue := rest\<rparr>))))
      else None)"

subsection \<open>The failure check\<close>

definition suspend_at :: "nat \<Rightarrow> subtask \<Rightarrow> worker \<Rightarrow> worker" where
  "suspend_at task s w = w\<lparr>w_owner := task_suspend task s (w_owner w)\<rparr>"

definition finish :: "nat \<Rightarrow> worker \<Rightarrow> worker" where
  "finish task w = w\<lparr>w_owner := task_done task (w_owner w)\<rparr>"

text \<open>\<open>_wait\<close> up to its suspension; \<open>s\<close> makes the suspended subtask from the event.\<close>

definition wait_begin :: "nat \<Rightarrow> string \<Rightarrow> (nat \<Rightarrow> subtask) \<Rightarrow> worker \<Rightarrow> worker" where
  "wait_begin task target s w =
     (let event = w_next w;
          w = snd (add_waiting target event (w\<lparr>w_next := Suc event\<rparr>))
      in suspend_at task (s event) w)"

text \<open>\<open>_wait\<close> after its suspension: the flag, and the event is dropped from the weak set.\<close>

definition wait_end :: "string \<Rightarrow> nat \<Rightarrow> worker \<Rightarrow> bool \<times> worker" where
  "wait_end target event w =
     ((event, True) \<in> set (events_at target w),
      w\<lparr>w_waiting := AList.update target
         (filter (\<lambda>(e, _). e \<noteq> event) (events_at target w)) (w_waiting w)\<rparr>)"

text \<open>The end of \<open>check\<close>; the task is done whether or not \<open>update\<close> raises.\<close>

definition check_finish :: "nat \<Rightarrow> string \<Rightarrow> bool \<Rightarrow> int \<Rightarrow> worker \<Rightarrow> worker" where
  "check_finish task target online now w =
     (let new_status = (if online then ONLINE else SUSPECT);
          w = snd (py_seq (handle_status target new_status)
                (with_members (members_update now target (Some new_status) None)) w)
      in finish task w)"

definition check_begin :: "nat \<Rightarrow> string \<Rightarrow> worker \<Rightarrow> worker" where
  "check_begin task target w =
     (let w = snd (py_bind (source_of (ms_local (w_members w))) (\<lambda>src. send target (Ping src)) w)
      in wait_begin task target (Check_ping target) w)"

text \<open>
  After the first \<open>_wait\<close>. \<open>None\<close> means that the loop of \<open>find\<close> has not ended with the
  random numbers \<open>draws\<close>.
\<close>

definition check_pinged ::
    "nat \<Rightarrow> string \<Rightarrow> nat \<Rightarrow> nat list \<Rightarrow> int \<Rightarrow> worker \<Rightarrow> worker option" where
  "check_pinged task target event draws now w =
     (case wait_end target event w of
        (True, w) \<Rightarrow> Some (check_finish task target True now w)
      | (False, w) \<Rightarrow>
          (case members_find draws (w_ping_req_count w) AVAILABLE [target] (w_members w) of
             None \<Rightarrow> None
           | Some (Inl e) \<Rightarrow> Some (finish task w)
           | Some (Inr indirects) \<Rightarrow>
               Some (if indirects = [] then check_finish task target False now w
                     else suspend_at task (Check_sending target indirects) w)))"

text \<open>One of the tasks that send the ping-req; after the last one \<open>check\<close> goes on to wait.\<close>

definition check_send :: "nat \<Rightarrow> string \<Rightarrow> string list \<Rightarrow> worker \<Rightarrow> worker" where
  "check_send task target indirects w =
     (case indirects of
        [] \<Rightarrow> wait_begin task target (Check_ping_req target) w
      | indirect # rest \<Rightarrow>
          (let w = snd (py_bind (source_of (ms_local (w_members w)))
                     (\<lambda>src. send indirect (PingReq src target)) w)
           in suspend_at task (Check_sending target rest) w))"

definition check_requested :: "nat \<Rightarrow> string \<Rightarrow> nat \<Rightarrow> int \<Rightarrow> worker \<Rightarrow> worker" where
  "check_requested task target event now w =
     (case wait_end target event w of (online, w) \<Rightarrow> check_finish task target online now w)"

definition disseminate :: "string \<Rightarrow> (worker, unit) py" where
  "disseminate target =
     py_bind (py_read (\<lambda>w. ms_local (w_members w))) (\<lambda>local.
     py_bind (py_read (\<lambda>w. get_gossip target (w_members w))) (\<lambda>members.
     py_for members (\<lambda>member.
       py_bind (build_gossip local member) (\<lambda>packet. send target packet))))"

text \<open>A subtask runs to its next suspension.\<close>

definition subtask_turn :: "nat \<Rightarrow> nat list \<Rightarrow> int \<Rightarrow> worker \<Rightarrow> worker option" where
  "subtask_turn task draws now w =
     (case map_of (running (w_owner w)) task of
        None \<Rightarrow> None
      | Some (Check_start target) \<Rightarrow> Some (check_begin task target w)
      | Some (Check_ping target event) \<Rightarrow> check_pinged task target event draws now w
      | Some (Check_sending target indirects) \<Rightarrow> Some (check_send task target indirects w)
      | Some (Check_ping_req target event) \<Rightarrow> Some (check_requested task target event now w)
      | Some (Disseminate_start target) \<Rightarrow> Some (finish task (snd (disseminate target w))))"

text \<open>
  \<open>_suspect_wait\<close> after its sleep. The \<open>pop\<close> is skipped if \<open>update\<close> raises.
\<close>

definition suspect_expire :: "nat \<Rightarrow> int \<Rightarrow> worker \<Rightarrow> worker option" where
  "suspect_expire task now w =
     (case map_of (w_timers w) task of
        None \<Rightarrow> None
      | Some target \<Rightarrow>
          Some (snd (py_seq (with_members (members_update now target (Some OFFLINE) None))
            (py_modify (\<lambda>w. w\<lparr>w_suspect := AList.delete target (w_suspect w)\<rparr>))
            (w\<lparr>w_timers := AList.delete task (w_timers w)\<rparr>))))"

subsection \<open>The loops\<close>

definition spawn :: "subtask \<Rightarrow> worker \<Rightarrow> worker" where
  "spawn s w = w\<lparr>w_owner := snd (run_subtask s (w_owner w))\<rparr>"

text \<open>One turn of \<open>run_failure_detection\<close> and one of \<open>run_dissemination\<close>.\<close>

definition detection_turn :: "nat list \<Rightarrow> worker \<Rightarrow> worker option" where
  "detection_turn draws w =
     (if loop_runs Detection w then
        (case members_find draws 1 ALL_STATUS [] (w_members w) of
           None \<Rightarrow> None
         | Some (Inl e) \<Rightarrow> Some (loop_fails Detection (Inl e, w))
         | Some (Inr targets) \<Rightarrow>
             Some (loop_fails Detection (py_seq (py_assert (targets \<noteq> []))
               (py_modify (fold (\<lambda>target. spawn (Check_start target)) targets)) w)))
      else None)"

definition dissemination_turn :: "nat list \<Rightarrow> worker \<Rightarrow> worker option" where
  "dissemination_turn draws w =
     (if loop_runs Dissemination w then
        (case members_find draws 1 AVAILABLE [] (w_members w) of
           None \<Rightarrow> None
         | Some (Inl e) \<Rightarrow> Some (loop_fails Dissemination (Inl e, w))
         | Some (Inr targets) \<Rightarrow>
             Some (fold (\<lambda>target. spawn (Disseminate_start target)) targets w))
      else None)"

text \<open>
  The result of \<open>run\<close>: \<open>gather\<close> passes the first exception on and leaves the other loops
  running.
\<close>

definition run_result :: "worker \<Rightarrow> py_error option" where
  "run_result w = (case w_failed w of [] \<Rightarrow> None | (l, e) # _ \<Rightarrow> Some e)"

subsection \<open>Steps\<close>

text \<open>
  The transport puts a packet into the receive queue and takes one from the send queue; the
  application may update the local metadata between two steps.
\<close>

datatype worker_event =
    Receive packet
  | Transmit
  | Handle "string \<Rightarrow> bytes" int
  | Detect "nat list"
  | Gossip_round "nat list"
  | Resume nat "nat list" int
  | Expire nat int
  | Set_metadata metadata int

definition worker_step :: "worker_event \<Rightarrow> worker \<Rightarrow> worker option" where
  "worker_step ev w = (case ev of
     Receive packet \<Rightarrow> Some (w\<lparr>w_recv_queue := w_recv_queue w @ [packet]\<rparr>)
   | Transmit \<Rightarrow>
       (case w_send_queue w of [] \<Rightarrow> None | _ # rest \<Rightarrow> Some (w\<lparr>w_send_queue := rest\<rparr>))
   | Handle rnd now \<Rightarrow> handler_turn rnd now w
   | Detect draws \<Rightarrow> detection_turn draws w
   | Gossip_round draws \<Rightarrow> dissemination_turn draws w
   | Resume task draws now \<Rightarrow> subtask_turn task draws now w
   | Expire task now \<Rightarrow> suspect_expire task now w
   | Set_metadata md now \<Rightarrow>
       Some (snd (with_members (members_update now (ms_local (w_members w)) None (Some md)) w)))"

fun worker_steps :: "worker_event list \<Rightarrow> worker \<Rightarrow> worker option" where
  "worker_steps [] w = Some w"
| "worker_steps (ev # evs) w =
     (case worker_step ev w of None \<Rightarrow> None | Some w' \<Rightarrow> worker_steps evs w')"

end
