(* ===== verification/Swim_Worker_Laws.thy ===== *)
theory Swim_Worker_Laws
  imports Swim_Worker
begin

text \<open>
  What the worker relies on: the contract of the member store, with its interpretation on
  \<open>Members\<close>; the runs of the statements of the worker; and the invariant of the worker (every
  member it refers to exists, its suspicion timers and its wait events are where they should be).
\<close>

subsection \<open>The slots of the status index\<close>

text \<open>Whatever a search can draw is a non-local member of the manager.\<close>

definition slots_known :: "members \<Rightarrow> bool" where
  "slots_known ms \<longleftrightarrow>
     (\<forall>st \<in> set all_statuses. shuffle_drawable (shuffle_at st ms) \<subseteq> set (ms_non_local ms))"

definition store_inv :: "members \<Rightarrow> bool" where
  "store_inv ms \<longleftrightarrow> members_inv ms \<and> slots_known ms"

definition known :: "members \<Rightarrow> string \<Rightarrow> bool" where
  "known ms n \<longleftrightarrow> map_of (ms_members ms) n \<noteq> None"

lemma set_remove_at: "set (remove_at i xs) \<subseteq> set xs"
proof (cases "xs = []")
  case True
  then show ?thesis by (simp add: remove_at_def)
next
  case False
  then have "xs ! (length xs - 1) \<in> set xs" by simp
  then have "set (xs[i := xs ! (length xs - 1)]) \<subseteq> set xs"
    using set_update_subset_insert [of xs i] by blast
  then show ?thesis
    unfolding remove_at_def by (auto dest!: in_set_butlastD)
qed

lemma discard_drawable:
  assumes "shuffle_wf s"
  shows "shuffle_drawable (snd (shuffle_discard v s)) \<subseteq> shuffle_drawable s"
proof (cases "v \<in> shuffle_elems s")
  case True
  then show ?thesis
    using assms set_remove_at [of "the (map_of (indexes s) (Ref v))" "shuffle_values s"]
    by (auto simp: shuffle_removal_run shuffle_drawable_def shuffle_removed_def)
qed simp

lemma add_drawable: "shuffle_drawable (shuffle_add v s) \<subseteq> insert v (shuffle_drawable s)"
  by (auto simp: shuffle_add_def shuffle_drawable_def)

lemma update_changed_slots:
  assumes inv: "members_inv ms" and "slots_known ms" and m: "map_of (ms_members ms) n = Some e"
    and "m_local m = m_local e"
  shows "slots_known (update_changed n m ms)"
proof -
  have wf: "shuffle_wf (shuffle_at st ms)" if "st \<in> set all_statuses" for st
    using that members_invD(9) [OF inv] by (simp add: index_wf_def)
  have "n \<in> set (ms_non_local ms)" if "\<not> m_local m"
    using that m assms(4) members_invD(2) [OF inv m] members_invD(6) [OF inv, of n] by simp
  then have "shuffle_drawable (shuffle_at st (update_changed n m ms)) \<subseteq> set (ms_non_local ms)"
    if "st \<in> set all_statuses" for st
    using that assms(2) discard_drawable [OF wf [OF that], of n] add_drawable [of n "shuffle_at st ms"]
      update_changed_local_shuffle [of m st n ms] update_changed_shuffle [OF inv, of m st n]
    by (cases "m_local m"; simp add: slots_known_def; blast)
  then show ?thesis
    by (simp add: slots_known_def update_changed_fields members_invD(9) [OF inv])
qed

lemma update_common_store:
  assumes "store_inv ms" and "settable st"
  shows "store_inv (snd (update_common now n source clock st md ms)) \<and>
    known (snd (update_common now n source clock st md ms)) = known ms \<and>
    ms_local (snd (update_common now n source clock st md ms)) = ms_local ms"
proof -
  have inv: "members_inv ms" and slots: "slots_known ms" using assms(1) by (auto simp: store_inv_def)
  have inv': "members_inv (snd (update_common now n source clock st md ms))"
    using inv assms(2) by (rule update_common_inv)
  show ?thesis
  proof (rule update_common_cases [OF inv assms(2), of now n source clock md])
    assume "snd (update_common now n source clock st md ms) = ms"
    with assms(1) show ?thesis by simp
  next
    fix m
    assume m: "map_of (ms_members ms) n = Some m"
      and eq: "snd (update_common now n source clock st md ms) =
        update_changed n (changed now source clock (ms_next_clock ms) st md m) ms"
    have "slots_known (update_changed n (changed now source clock (ms_next_clock ms) st md m) ms)"
      using changed_settled(3) [OF members_invD(3) [OF inv m]]
      by (rule update_changed_slots [OF inv slots m])
    with m inv' eq show ?thesis
      by (auto simp: store_inv_def known_def [abs_def] fun_eq_iff update_changed_fields
          update_conv' members_invD(9) [OF inv])
  qed
qed

lemma update_common_returns:
  assumes "store_inv ms" and "known ms n" and "settable st"
  shows "fst (update_common now n source clock st md ms) = Inr ()"
  using assms update_inv [of ms n _ st now source clock md]
  by (fastforce simp: store_inv_def known_def)

lemma members_get_slots:
  assumes "slots_known ms"
  shows "slots_known (members_get rnd now n v ms) \<and>
    set (ms_non_local ms) \<subseteq> set (ms_non_local (members_get rnd now n v ms))"
  using assms add_drawable [of n]
  by (fastforce simp: slots_known_def members_get_def Let_def add_new_member_fields
      split: option.splits)

lemma ack_gossip_slots: "slots_known ms \<Longrightarrow> slots_known (snd (ack_gossip n source clock ms))"
  by (cases "map_of (ms_members ms) source")
    (simp_all add: ack_gossip_run slots_known_def ack_gossip_def py_bind_def py_seq_def on_member_def)

subsection \<open>The contract of the member store\<close>

text \<open>
  What the worker relies on: a lookup makes a member known and never fails; an update or gossip
  about a known member with a settable status never raises; only an acknowledgement can, and then
  with \<open>AssertionError\<close>; no operation breaks the invariant, forgets a member or changes which one
  is local.
\<close>

locale member_store =
  fixes invar :: "'s \<Rightarrow> bool"
    and knows :: "'s \<Rightarrow> string \<Rightarrow> bool"
    and local :: "'s \<Rightarrow> string"
    and lookup :: "bytes \<Rightarrow> int \<Rightarrow> string \<Rightarrow> bytes option \<Rightarrow> 's \<Rightarrow> 's"
    and change :: "int \<Rightarrow> string \<Rightarrow> status option \<Rightarrow> metadata option \<Rightarrow> ('s, unit) py"
    and gossip :: "int \<Rightarrow> string \<Rightarrow> string \<Rightarrow> int \<Rightarrow> status \<Rightarrow> metadata option \<Rightarrow> ('s, unit) py"
    and ack :: "string \<Rightarrow> string \<Rightarrow> int \<Rightarrow> ('s, unit) py"
  assumes knows_local: "invar s \<Longrightarrow> knows s (local s)"
    and lookup_invar: "invar s \<Longrightarrow> invar (lookup rnd now n v s)"
    and lookup_knows: "invar s \<Longrightarrow> knows (lookup rnd now n v s) k = (k = n \<or> knows s k)"
    and lookup_local: "invar s \<Longrightarrow> local (lookup rnd now n v s) = local s"
    and change_returns: "invar s \<Longrightarrow> knows s n \<Longrightarrow> settable st \<Longrightarrow> fst (change now n st md s) = Inr ()"
    and change_invar: "invar s \<Longrightarrow> settable st \<Longrightarrow> invar (snd (change now n st md s))"
    and change_knows: "invar s \<Longrightarrow> settable st \<Longrightarrow> knows (snd (change now n st md s)) = knows s"
    and change_local: "invar s \<Longrightarrow> settable st \<Longrightarrow> local (snd (change now n st md s)) = local s"
    and gossip_returns:
      "invar s \<Longrightarrow> knows s n \<Longrightarrow> settable (Some st') \<Longrightarrow> fst (gossip now n src c st' md s) = Inr ()"
    and gossip_invar: "invar s \<Longrightarrow> settable (Some st') \<Longrightarrow> invar (snd (gossip now n src c st' md s))"
    and gossip_knows:
      "invar s \<Longrightarrow> settable (Some st') \<Longrightarrow> knows (snd (gossip now n src c st' md s)) = knows s"
    and gossip_local:
      "invar s \<Longrightarrow> settable (Some st') \<Longrightarrow> local (snd (gossip now n src c st' md s)) = local s"
    and ack_raises: "invar s \<Longrightarrow> knows s src \<Longrightarrow> fst (ack n src c s) \<in> {Inr (), Inl AssertionError}"
    and ack_invar: "invar s \<Longrightarrow> invar (snd (ack n src c s))"
    and ack_knows: "invar s \<Longrightarrow> knows (snd (ack n src c s)) = knows s"
    and ack_local: "invar s \<Longrightarrow> local (snd (ack n src c s)) = local s"
begin

text \<open>
  The state of the store after some operations: the same member is local, and nothing known
  is forgotten.
\<close>

definition grows :: "'s \<Rightarrow> 's \<Rightarrow> bool" where
  "grows s t \<longleftrightarrow> invar t \<and> local t = local s \<and> (\<forall>n. knows s n \<longrightarrow> knows t n)"

lemma grows_refl: "invar s \<Longrightarrow> grows s s"
  by (simp add: grows_def)

lemma grows_trans: "grows s t \<Longrightarrow> grows t u \<Longrightarrow> grows s u"
  by (simp add: grows_def)

lemma grows_steps:
  assumes "invar s"
  shows "grows s (lookup rnd now n v s)"
    and "settable st \<Longrightarrow> grows s (snd (change now n st md s))"
    and "settable (Some st') \<Longrightarrow> grows s (snd (gossip now n src c st' md s))"
    and "grows s (snd (ack n src c s))"
  using assms
  by (auto simp: grows_def lookup_invar lookup_knows lookup_local change_invar change_knows
      change_local gossip_invar gossip_knows gossip_local ack_invar ack_knows ack_local)

text \<open>The handling of a gossip packet: the lookup of its member, then its content.\<close>

lemma gossip_after_lookup:
  assumes "invar s" and "settable (Some st)"
  shows "fst (gossip now n src c st md (lookup rnd now n v s)) = Inr ()"
    and "grows s (snd (gossip now n src c st md (lookup rnd now n v s)))"
proof -
  have l: "invar (lookup rnd now n v s)" "knows (lookup rnd now n v s) n"
    using assms(1) by (simp_all add: lookup_invar lookup_knows)
  show "fst (gossip now n src c st md (lookup rnd now n v s)) = Inr ()"
    using l assms(2) by (rule gossip_returns)
  show "grows s (snd (gossip now n src c st md (lookup rnd now n v s)))"
    using grows_trans [OF grows_steps(1) [OF assms(1)] grows_steps(3) [OF l(1) assms(2)]] .
qed

lemma ack_after_lookup:
  assumes "invar s" and "knows s src"
  shows "fst (ack n src c (lookup rnd now n v s)) \<in> {Inr (), Inl AssertionError}"
    and "grows s (snd (ack n src c (lookup rnd now n v s)))"
  using assms grows_trans [OF grows_steps(1) [OF assms(1)] grows_steps(4), of rnd now n v n src c]
    ack_raises [of "lookup rnd now n v s" src n c]
  by (simp_all add: lookup_invar lookup_knows)

end

interpretation store: member_store store_inv known ms_local
    members_get members_update members_apply ack_gossip
proof
  fix s :: members
  assume inv: "store_inv s"
  then have mi: "members_inv s" and sl: "slots_known s" by (auto simp: store_inv_def)
  show "known s (ms_local s)" using members_invD(6) [OF mi] by (simp add: known_def)
  fix rnd :: bytes and now :: int and n src :: string and v :: "bytes option" and c :: int
    and md :: "metadata option" and k :: string
  show "store_inv (members_get rnd now n v s)"
    using mi sl by (simp add: store_inv_def members_get_inv members_get_slots)
  show "known (members_get rnd now n v s) k = (k = n \<or> known s k)"
    by (simp add: known_def members_get_lookup)
  show "ms_local (members_get rnd now n v s) = ms_local s" by (rule members_get_fields)
  show "fst (members_update now n st md s) = Inr ()" if "known s n" "settable st" for st
    using that inv by (simp add: members_update_common update_common_returns)
  show "store_inv (snd (members_update now n st md s))"
    "known (snd (members_update now n st md s)) = known s"
    "ms_local (snd (members_update now n st md s)) = ms_local s" if "settable st" for st
    using update_common_store [OF inv that] by (simp_all add: members_update_common)
  show "fst (members_apply now n src c st md s) = Inr ()" if "known s n" "settable (Some st)" for st
    using that inv by (simp add: members_apply_def update_common_returns)
  show "store_inv (snd (members_apply now n src c st md s))"
    "known (snd (members_apply now n src c st md s)) = known s"
    "ms_local (snd (members_apply now n src c st md s)) = ms_local s" if "settable (Some st)" for st
    using update_common_store [OF inv that] by (simp_all add: members_apply_def)
  show "fst (ack_gossip n src c s) \<in> {Inr (), Inl AssertionError}" if "known s src"
    using that by (auto simp: known_def ack_gossip_run split: if_splits)
  show "store_inv (snd (ack_gossip n src c s))"
    using mi sl by (simp add: store_inv_def ack_gossip_inv ack_gossip_slots)
  show "known (snd (ack_gossip n src c s)) = known s"
    by (cases "map_of (ms_members s) src")
      (auto simp: known_def [abs_def] fun_eq_iff ack_gossip_run ack_gossip_def py_bind_def py_seq_def on_member_def)
  show "ms_local (snd (ack_gossip n src c s)) = ms_local s"
    by (cases "map_of (ms_members s) src")
      (auto simp: ack_gossip_run ack_gossip_def py_bind_def py_seq_def on_member_def)
qed

subsection \<open>The runs of the statements\<close>

lemma with_members_run:
  "with_members op w = (fst (op (w_members w)), w\<lparr>w_members := snd (op (w_members w))\<rparr>)"
  by (simp add: with_members_def py_on_run)

lemma get_member_run:
  "get_member rnd now n v w = (Inr (), w\<lparr>w_members := members_get (rnd n) now n v (w_members w)\<rparr>)"
  by (simp add: get_member_def with_members_run)

definition source_at :: "members \<Rightarrow> string \<Rightarrow> source" where
  "source_at ms n = member_source (the (map_of (ms_members ms) n))"

lemma source_of_run:
  "known (w_members w) n \<Longrightarrow> source_of n w = (Inr (source_at (w_members w) n), w)"
  by (auto simp: source_of_def with_members_run known_def source_at_def)

lemma send_run: "send t p w = (Inr (), w\<lparr>w_send_queue := w_send_queue w @ [(t, p)]\<rparr>)"
  by (simp add: send_def)

lemma send_all_run:
  "py_for ts (\<lambda>t. send t p) w = (Inr (), w\<lparr>w_send_queue := w_send_queue w @ map (\<lambda>t. (t, p)) ts\<rparr>)"
  by (induction ts arbitrary: w) (simp_all add: send_run py_seq_def py_bind_def)

lemma source_at_name:
  "store_inv ms \<Longrightarrow> known ms n \<Longrightarrow> src_name (source_at ms n) = n"
  using members_invD(1) [of ms n] by (auto simp: store_inv_def known_def source_at_def member_source_def)

definition waits_notified :: "string \<Rightarrow> worker \<Rightarrow> (string \<times> (nat \<times> bool) list) list" where
  "waits_notified n w = (case map_of (w_waiting w) n of
     None \<Rightarrow> w_waiting w
   | Some es \<Rightarrow> AList.update n (map (\<lambda>(e, _). (e, True)) es) (w_waiting w))"

lemma notify_waiting_run: "notify_waiting n w = (Inr (), w\<lparr>w_waiting := waits_notified n w\<rparr>)"
  by (simp add: notify_waiting_def waits_notified_def split: option.split)

definition listeners_of :: "string \<Rightarrow> worker \<Rightarrow> string list" where
  "listeners_of n w = (case map_of (w_listening w) n of None \<Rightarrow> [] | Some l \<Rightarrow> l)"

lemma get_listening_run:
  "get_listening n w = (Inr (listeners_of n w), w\<lparr>w_listening := AList.delete n (w_listening w)\<rparr>)"
proof (cases "map_of (w_listening w) n")
  case None
  then have "AList.delete n (w_listening w) = w_listening w"
    by (intro delete_id) (simp add: map_of_eq_None_iff)
  with None show ?thesis by (simp add: get_listening_def listeners_of_def)
qed (simp add: get_listening_def listeners_of_def)

definition status_handled :: "string \<Rightarrow> status \<Rightarrow> worker \<Rightarrow> worker" where
  "status_handled target st w = snd (handle_status target st w)"

lemma handle_status_run: "handle_status target st w = (Inr (), status_handled target st w)"
  by (simp add: status_handled_def handle_status_def)

lemma status_handled_fields [simp]:
  "w_members (status_handled t st w) = w_members w"
  "w_ping_req_count (status_handled t st w) = w_ping_req_count w"
  "w_recv_queue (status_handled t st w) = w_recv_queue w"
  "w_send_queue (status_handled t st w) = w_send_queue w"
  "w_waiting (status_handled t st w) = w_waiting w"
  "w_listening (status_handled t st w) = w_listening w"
  "w_owner (status_handled t st w) = w_owner w"
  "w_failed (status_handled t st w) = w_failed w"
  by (simp_all add: status_handled_def handle_status_def split: option.split)

subsection \<open>The handler, packet by packet\<close>

text \<open>
  What every packet does first: its source is looked up with its validity, the checks that wait
  for it are notified, and the members that asked for it are sent an acknowledgement.
\<close>

definition greeted :: "(string \<Rightarrow> bytes) \<Rightarrow> int \<Rightarrow> source \<Rightarrow> worker \<Rightarrow> worker" where
  "greeted rnd now src w =
     (let n = src_name src;
          ms = members_get (rnd n) now n (Some (src_validity src)) (w_members w)
      in w\<lparr>w_members := ms, w_waiting := waits_notified n w,
           w_listening := AList.delete n (w_listening w),
           w_send_queue := w_send_queue w @ map (\<lambda>t. (t, Ack (source_at ms n))) (listeners_of n w)\<rparr>)"

lemma greeted_fields [simp]:
  "w_members (greeted rnd now src w) =
     members_get (rnd (src_name src)) now (src_name src) (Some (src_validity src)) (w_members w)"
  "w_ping_req_count (greeted rnd now src w) = w_ping_req_count w"
  "w_recv_queue (greeted rnd now src w) = w_recv_queue w"
  "w_waiting (greeted rnd now src w) = waits_notified (src_name src) w"
  "w_listening (greeted rnd now src w) = AList.delete (src_name src) (w_listening w)"
  "w_suspect (greeted rnd now src w) = w_suspect w"
  "w_timers (greeted rnd now src w) = w_timers w"
  "w_next (greeted rnd now src w) = w_next w"
  "w_owner (greeted rnd now src w) = w_owner w"
  "w_failed (greeted rnd now src w) = w_failed w"
  by (simp_all add: greeted_def Let_def)

definition reply :: "string \<Rightarrow> packet \<Rightarrow> worker \<Rightarrow> worker" where
  "reply target p w = w\<lparr>w_send_queue := w_send_queue w @ [(target, p)]\<rparr>"

lemma acks_run:
  "known (w_members w) n \<Longrightarrow>
     py_for ts (\<lambda>t. py_bind (source_of n) (\<lambda>src. send t (Ack src))) w =
     (Inr (), w\<lparr>w_send_queue := w_send_queue w @ map (\<lambda>t. (t, Ack (source_at (w_members w) n))) ts\<rparr>)"
  by (induction ts arbitrary: w) (simp_all add: source_of_run send_run py_seq_def py_bind_def)

lemma greeted_known: "known (w_members (greeted rnd now src w)) (src_name src)"
  by (simp add: known_def members_get_lookup)

text \<open>The part of \<open>handle_packet\<close> after the greeting.\<close>

definition respond ::
    "(string \<Rightarrow> bytes) \<Rightarrow> int \<Rightarrow> string \<Rightarrow> packet \<Rightarrow> (worker, unit) py" where
  "respond rnd now local packet =
     (let source = src_name (packet_source packet) in
      case packet of
        Ping _ \<Rightarrow> py_bind (source_of local) (\<lambda>src. send source (Ack src))
      | PingReq _ target \<Rightarrow>
          py_seq (get_member rnd now target None) (
          py_bind (source_of local) (\<lambda>src.
          py_seq (send target (Ping src)) (
          add_listening source target)))
      | Ack _ \<Rightarrow> py_return ()
      | Gossip _ name clock status metadata \<Rightarrow>
          py_seq (get_member rnd now name None) (
          py_bind (apply_gossip now local source name name clock status metadata) (\<lambda>ack.
          send source ack))
      | GossipAck _ name clock \<Rightarrow>
          py_seq (get_member rnd now name None) (
          with_members (ack_gossip name source clock)))"

lemma handle_packet_greets:
  "handle_packet rnd now p w =
     respond rnd now (ms_local (w_members w)) p (greeted rnd now (packet_source p) w)"
proof -
  let ?n = "src_name (packet_source p)"
  let ?ms = "members_get (rnd ?n) now ?n (Some (src_validity (packet_source p))) (w_members w)"
  let ?w = "w\<lparr>w_members := ?ms, w_waiting := waits_notified ?n w,
      w_listening := AList.delete ?n (w_listening w)\<rparr>"
  have k: "known (w_members ?w) ?n" by (simp add: known_def members_get_lookup)
  have n: "waits_notified ?n (w\<lparr>w_members := ?ms\<rparr>) = waits_notified ?n w"
    by (simp add: waits_notified_def split: option.split)
  have l: "listeners_of ?n (w\<lparr>w_members := ?ms, w_waiting := waits_notified ?n w\<rparr>) = listeners_of ?n w"
    by (simp add: listeners_of_def)
  have "handle_packet rnd now p w =
      py_seq (py_for (listeners_of ?n w) (\<lambda>t. py_bind (source_of ?n) (\<lambda>src. send t (Ack src))))
        (respond rnd now (ms_local (w_members w)) p) ?w"
    by (simp add: handle_packet_def respond_def Let_def py_seq_def py_bind_def get_member_run
        notify_waiting_run get_listening_run n l)
  also have "\<dots> = respond rnd now (ms_local (w_members w)) p (greeted rnd now (packet_source p) w)"
  proof -
    have "py_for (listeners_of ?n w) (\<lambda>t. py_bind (source_of ?n) (\<lambda>src. send t (Ack src))) ?w =
        (Inr (), greeted rnd now (packet_source p) w)"
      unfolding acks_run [OF k] by (simp add: greeted_def Let_def)
    then show ?thesis by (intro py_seq_Inr)
  qed
  finally show ?thesis .
qed

lemma handle_Ping:
  assumes "store_inv (w_members w)"
  shows "handle_packet rnd now (Ping src) w = (Inr (),
    let g = greeted rnd now src w
    in reply (src_name src) (Ack (source_at (w_members g) (ms_local (w_members g)))) g)"
proof -
  have "known (w_members (greeted rnd now src w)) (ms_local (w_members w))"
    using assms by (simp add: store.lookup_knows store.knows_local)
  then show ?thesis
    using assms by (simp add: handle_packet_greets respond_def py_bind_Inr [OF source_of_run] send_run
        reply_def Let_def store.lookup_local)
qed

lemma handle_Ack: "handle_packet rnd now (Ack src) w = (Inr (), greeted rnd now src w)"
  by (simp add: handle_packet_greets respond_def)

text \<open>A ping-req: the target is looked up, pinged, and remembered with the member that asked.\<close>

definition relayed :: "(string \<Rightarrow> bytes) \<Rightarrow> int \<Rightarrow> string \<Rightarrow> string \<Rightarrow> worker \<Rightarrow> worker" where
  "relayed rnd now source target w =
     (let ms = members_get (rnd target) now target None (w_members w)
      in (reply target (Ping (source_at ms (ms_local ms))) w)
         \<lparr>w_members := ms,
          w_listening := AList.update target (List.insert source (listeners_of target w))
            (w_listening w)\<rparr>)"

lemma handle_PingReq:
  assumes "store_inv (w_members w)"
  shows "handle_packet rnd now (PingReq src target) w =
    (Inr (), relayed rnd now (src_name src) target (greeted rnd now src w))"
proof -
  let ?g = "greeted rnd now src w"
  let ?ms = "members_get (rnd target) now target None (w_members ?g)"
  have k: "known (w_members (?g\<lparr>w_members := ?ms\<rparr>)) (ms_local (w_members w))"
    and l: "ms_local ?ms = ms_local (w_members w)"
    using assms by (simp_all add: store.lookup_knows store.knows_local store.lookup_local store.lookup_invar)
  have "handle_packet rnd now (PingReq src target) w =
      py_bind (source_of (ms_local (w_members w))) (\<lambda>s. py_seq (send target (Ping s))
        (add_listening (src_name src) target)) (?g\<lparr>w_members := ?ms\<rparr>)"
    by (simp add: handle_packet_greets respond_def Let_def py_seq_def py_bind_def get_member_run)
  also have "\<dots> = (Inr (), relayed rnd now (src_name src) target ?g)"
    using k l by (simp add: source_of_run py_seq_def py_bind_def send_run add_listening_def relayed_def reply_def
        listeners_of_def Let_def)
  finally show ?thesis .
qed

text \<open>A gossip: its status drives the suspicion timer, then it is applied and acknowledged.\<close>

definition gossiped ::
    "(string \<Rightarrow> bytes) \<Rightarrow> int \<Rightarrow> string \<Rightarrow> string \<Rightarrow> int \<Rightarrow> status \<Rightarrow> metadata option \<Rightarrow> worker \<Rightarrow> worker"
  where
  "gossiped rnd now source name clock st md w =
     (let ms = snd (members_apply now name source clock st md
                     (members_get (rnd name) now name None (w_members w)))
      in reply source (GossipAck (source_at ms (ms_local ms)) name clock)
           ((status_handled name st w)\<lparr>w_members := ms\<rparr>))"

lemma status_handled_members:
  "status_handled n st (w\<lparr>w_members := ms\<rparr>) = (status_handled n st w)\<lparr>w_members := ms\<rparr>"
  by (simp add: status_handled_def handle_status_def split: option.split)

lemma handle_Gossip:
  assumes "store_inv (w_members w)" and "settable (Some st)"
  shows "handle_packet rnd now (Gossip src name clock st md) w =
    (Inr (), gossiped rnd now (src_name src) name clock st md (greeted rnd now src w))"
proof -
  let ?g = "greeted rnd now src w"
  let ?ms = "members_get (rnd name) now name None (w_members ?g)"
  let ?r = "members_apply now name (src_name src) clock st md ?ms"
  have inv: "store_inv (w_members ?g)" using assms(1) by (simp add: store.lookup_invar)
  have ret: "fst ?r = Inr ()" and grow: "store.grows (w_members ?g) (snd ?r)"
    using store.gossip_after_lookup [OF inv assms(2)] by blast+
  have l: "ms_local (snd ?r) = ms_local (w_members w)"
    using grow assms(1) by (simp add: store.grows_def store.lookup_local)
  have k: "known (snd ?r) (ms_local (w_members w))"
    using grow store.knows_local [of "snd ?r"] l by (simp add: store.grows_def)
  have "handle_packet rnd now (Gossip src name clock st md) w =
      py_bind (py_bind (source_of (ms_local (w_members w))) (\<lambda>s. py_return (GossipAck s name clock)))
        (send (src_name src)) ((status_handled name st ?g)\<lparr>w_members := snd ?r\<rparr>)"
    using ret by (simp add: handle_packet_greets respond_def apply_gossip_def py_seq_def py_bind_def
        get_member_run handle_status_run status_handled_members with_members_run Let_def)
  also have "\<dots> = (Inr (), gossiped rnd now (src_name src) name clock st md ?g)"
    using k l by (simp add: py_bind_def source_of_run send_run gossiped_def reply_def Let_def)
  finally show ?thesis .
qed

lemma handle_GossipAck:
  "handle_packet rnd now (GossipAck src name clock) w =
    (let g = greeted rnd now src w;
         r = ack_gossip name (src_name src) clock (members_get (rnd name) now name None (w_members g))
     in (fst r, g\<lparr>w_members := snd r\<rparr>))"
  by (simp add: handle_packet_greets respond_def py_seq_def py_bind_def get_member_run
      with_members_run Let_def)

lemmas handle_runs = handle_Ping handle_PingReq handle_Ack handle_Gossip handle_GossipAck

end
