(* ===== verification/Swim_Worker_Inv.thy ===== *)
theory Swim_Worker_Inv
  imports Swim_Worker_Laws
begin

text \<open>
  The invariant of the worker and its preservation by every step: the members it refers to are
  known, the suspicion timers are the entries of \<open>_suspect\<close>, every suspended wait owns an event
  of its own, and the packets in the receive queue carry statuses that can be assigned.
\<close>

subsection \<open>The invariant\<close>

fun subtask_refs :: "subtask \<Rightarrow> string set" where
  "subtask_refs (Check_start t) = {t}"
| "subtask_refs (Check_ping t e) = {t}"
| "subtask_refs (Check_sending t is) = insert t (set is)"
| "subtask_refs (Check_ping_req t e) = {t}"
| "subtask_refs (Disseminate_start t) = {t}"

definition listening_refs :: "(string \<times> string list) list \<Rightarrow> string set" where
  "listening_refs d = (\<Union>l \<in> snd ` set d. set l)"

definition task_refs :: "(nat \<times> subtask) list \<Rightarrow> string set" where
  "task_refs d = (\<Union>s \<in> snd ` set d. subtask_refs s)"

definition queue_refs :: "(string \<times> packet) list \<Rightarrow> string set" where
  "queue_refs q = fst ` set q"

definition timer_refs :: "worker \<Rightarrow> string set" where
  "timer_refs w = keys_of (w_suspect w) \<union> snd ` set (w_timers w)"

definition worker_refs :: "worker \<Rightarrow> string set" where
  "worker_refs w = queue_refs (w_send_queue w) \<union> timer_refs w \<union>
     listening_refs (w_listening w) \<union> task_refs (running (w_owner w))"

definition known_inv :: "worker \<Rightarrow> bool" where
  "known_inv w \<longleftrightarrow> store_inv (w_members w) \<and> (\<forall>n \<in> worker_refs w. known (w_members w) n)"

definition timers_inv :: "worker \<Rightarrow> bool" where
  "timers_inv w \<longleftrightarrow>
     (\<forall>t i. map_of (w_suspect w) t = Some i \<longleftrightarrow> map_of (w_timers w) i = Some t) \<and>
     (\<forall>i t. map_of (w_timers w) i = Some t \<longrightarrow> i < w_next w)"

text \<open>The target and the event of a suspended \<open>_wait\<close>.\<close>

definition waits_of :: "worker \<Rightarrow> nat \<Rightarrow> (string \<times> nat) option" where
  "waits_of w i = (case map_of (running (w_owner w)) i of
     Some (Check_ping t e) \<Rightarrow> Some (t, e)
   | Some (Check_ping_req t e) \<Rightarrow> Some (t, e)
   | _ \<Rightarrow> None)"

definition event_ids :: "string \<Rightarrow> worker \<Rightarrow> nat set" where
  "event_ids t w = fst ` set (events_at t w)"

definition event_inv :: "worker \<Rightarrow> bool" where
  "event_inv w \<longleftrightarrow>
     (\<forall>i t e. waits_of w i = Some (t, e) \<longrightarrow> e \<in> event_ids t w) \<and>
     (\<forall>t e. e \<in> event_ids t w \<longrightarrow> e < w_next w) \<and>
     (\<forall>i j t u e. waits_of w i = Some (t, e) \<longrightarrow> waits_of w j = Some (u, e) \<longrightarrow> i = j)"

fun packet_ok :: "packet \<Rightarrow> bool" where
  "packet_ok (Gossip src name clock st md) \<longleftrightarrow> settable (Some st)"
| "packet_ok p \<longleftrightarrow> True"

definition worker_inv :: "worker \<Rightarrow> bool" where
  "worker_inv w \<longleftrightarrow> known_inv w \<and> timers_inv w \<and> event_inv w \<and> owner_inv (w_owner w) \<and>
     (\<forall>p \<in> set (w_recv_queue w). packet_ok p)"

subsection \<open>The parts of the state each invariant reads\<close>

lemma timers_inv_cong:
  "timers_inv w \<Longrightarrow> w_suspect w' = w_suspect w \<Longrightarrow> w_timers w' = w_timers w \<Longrightarrow>
     w_next w \<le> w_next w' \<Longrightarrow> timers_inv w'"
  by (fastforce simp: timers_inv_def)

lemma event_invD:
  assumes "event_inv w"
  shows "waits_of w i = Some (t, e) \<Longrightarrow> e \<in> event_ids t w"
    and "e \<in> event_ids t w \<Longrightarrow> e < w_next w"
    and "waits_of w i = Some (t, e) \<Longrightarrow> waits_of w j = Some (u, e) \<Longrightarrow> i = j"
  using assms unfolding event_inv_def by blast+

lemma event_invI:
  assumes "\<And>i t e. waits_of w i = Some (t, e) \<Longrightarrow> e \<in> event_ids t w"
    and "\<And>t e. e \<in> event_ids t w \<Longrightarrow> e < w_next w"
    and "\<And>i j t u e. waits_of w i = Some (t, e) \<Longrightarrow> waits_of w j = Some (u, e) \<Longrightarrow> i = j"
  shows "event_inv w"
  using assms unfolding event_inv_def by blast

lemma event_inv_cong:
  assumes "event_inv w" and "\<And>i. waits_of w' i = waits_of w i \<or> waits_of w' i = None"
    and "\<And>t. fst ` set (events_at t w') = fst ` set (events_at t w)" and "w_next w \<le> w_next w'"
  shows "event_inv w'"
proof -
  have sub: "waits_of w i = Some x" if "waits_of w' i = Some x" for i x
    using that assms(2) [of i] by auto
  have ids: "event_ids t w' = event_ids t w" for t by (simp add: event_ids_def assms(3))
  show ?thesis
  proof (rule event_invI)
    show "e \<in> event_ids t w'" if "waits_of w' i = Some (t, e)" for i t e
      using event_invD(1) [OF assms(1) sub [OF that]] by (simp add: ids)
    show "e < w_next w'" if "e \<in> event_ids t w'" for t e
      using event_invD(2) [OF assms(1), of e t] that assms(4) by (simp add: ids)
    show "i = j" if "waits_of w' i = Some (t, e)" "waits_of w' j = Some (u, e)" for i j t u e
      using event_invD(3) [OF assms(1) sub [OF that(1)] sub [OF that(2)]] .
  qed
qed

lemma known_inv_grows:
  assumes "known_inv w" and "store.grows (w_members w) (w_members w')"
    and "\<And>n. n \<in> worker_refs w' \<Longrightarrow> n \<notin> worker_refs w \<Longrightarrow> known (w_members w') n"
  shows "known_inv w'"
  using assms by (auto simp: known_inv_def store.grows_def)

lemma alist_update_set: "set (AList.update k v d) \<subseteq> insert (k, v) (set d)"
  by (induction d) auto

lemma alist_delete_set: "set (AList.delete k d) \<subseteq> set d"
  by (auto simp: AList.delete_eq)

lemma alist_values:
  "snd ` set (AList.update k v d) \<subseteq> insert v (snd ` set d)"
  "snd ` set (AList.delete k d) \<subseteq> snd ` set d"
  using alist_update_set [of k v d] alist_delete_set [of k d] by auto

text \<open>Bounds on the references after an update of one field.\<close>

lemma queue_refs_append: "queue_refs (q @ q') = queue_refs q \<union> fst ` set q'"
  by (auto simp: queue_refs_def)

lemma task_refs_bounds:
  "task_refs (AList.update i s d) \<subseteq> task_refs d \<union> subtask_refs s"
  "task_refs (AList.delete i d) \<subseteq> task_refs d"
  using alist_update_set [of i s d] alist_delete_set [of i d] by (auto simp: task_refs_def)

lemma listening_refs_bounds:
  "listening_refs (AList.update t l d) \<subseteq> set l \<union> listening_refs d"
  "listening_refs (AList.delete t d) \<subseteq> listening_refs d"
  using alist_update_set [of t l d] alist_delete_set [of t d] by (auto simp: listening_refs_def)

lemma worker_refs_cong:
  "w_send_queue w' = w_send_queue w \<Longrightarrow> w_suspect w' = w_suspect w \<Longrightarrow> w_timers w' = w_timers w \<Longrightarrow>
     w_listening w' = w_listening w \<Longrightarrow> w_owner w' = w_owner w \<Longrightarrow> worker_refs w' = worker_refs w"
  by (simp add: worker_refs_def timer_refs_def)

lemma refs_send: "worker_refs (w\<lparr>w_send_queue := w_send_queue w @ ps\<rparr>) = worker_refs w \<union> fst ` set ps"
  by (simp add: worker_refs_def timer_refs_def queue_refs_append Un_ac)

lemma refs_owner:
  "worker_refs (w\<lparr>w_owner := task_suspend i s (w_owner w)\<rparr>) \<subseteq> worker_refs w \<union> subtask_refs s"
  "worker_refs (w\<lparr>w_owner := snd (run_subtask s (w_owner w))\<rparr>) \<subseteq> worker_refs w \<union> subtask_refs s"
  "worker_refs (w\<lparr>w_owner := task_done i (w_owner w)\<rparr>) \<subseteq> worker_refs w"
  using task_refs_bounds(1) [of i s "running (w_owner w)"]
    task_refs_bounds(1) [of "next_task (w_owner w)" s "running (w_owner w)"]
    task_refs_bounds(2) [of i "running (w_owner w)"]
  by (simp_all add: worker_refs_def timer_refs_def task_suspend_def run_subtask_def task_done_def Let_def)
    blast+

lemma refs_other [simp]:
  "worker_refs (w\<lparr>w_members := ms\<rparr>) = worker_refs w"
  "worker_refs (w\<lparr>w_waiting := ws\<rparr>) = worker_refs w"
  "worker_refs (w\<lparr>w_next := k\<rparr>) = worker_refs w"
  "worker_refs (w\<lparr>w_recv_queue := q\<rparr>) = worker_refs w"
  "worker_refs (w\<lparr>w_failed := fs\<rparr>) = worker_refs w"
  by (simp_all add: worker_refs_def timer_refs_def)

lemma refs_status_handled: "worker_refs (status_handled t st w) \<subseteq> insert t (worker_refs w)"
proof -
  have "timer_refs (status_handled t st w) \<subseteq> insert t (timer_refs w)"
    using alist_values(1) [of "w_next w" t "w_timers w"]
      alist_values(2) [of "the (map_of (w_suspect w) t)" "w_timers w"]
    by (cases "map_of (w_suspect w) t"; cases "st = SUSPECT")
      (auto simp: timer_refs_def status_handled_def handle_status_def dom_update)
  then show ?thesis by (auto simp: worker_refs_def)
qed

subsection \<open>Suspicion timers\<close>

lemma status_handled_timers:
  assumes "timers_inv w"
  shows "timers_inv (status_handled t st w)"
    and "map_of (w_suspect (status_handled t st w)) t =
      (if st = SUSPECT then Some (case map_of (w_suspect w) t of None \<Rightarrow> w_next w | Some i \<Rightarrow> i)
       else None)"
    and "n \<noteq> t \<Longrightarrow> map_of (w_suspect (status_handled t st w)) n = map_of (w_suspect w) n"
proof -
  let ?w = "status_handled t st w"
  have iff: "(map_of (w_suspect w) n = Some i) = (map_of (w_timers w) i = Some n)" for n i
    using assms by (simp add: timers_inv_def)
  have less: "map_of (w_timers w) i = Some n \<Longrightarrow> i < w_next w" for i n
    using assms by (simp add: timers_inv_def)
  consider (start) "st = SUSPECT" "map_of (w_suspect w) t = None"
    | (cancel) i where "st \<noteq> SUSPECT" "map_of (w_suspect w) t = Some i"
    | (same) "?w = w"
    by (cases "map_of (w_suspect w) t"; cases "st = SUSPECT")
      (auto simp: status_handled_def handle_status_def)
  then show "timers_inv ?w"
  proof cases
    case start
    then have m: "map_of (w_suspect ?w) = (map_of (w_suspect w))(t \<mapsto> w_next w)"
      "map_of (w_timers ?w) = (map_of (w_timers w))(w_next w \<mapsto> t)" "w_next ?w = Suc (w_next w)"
      by (simp_all add: status_handled_def handle_status_def update_conv')
    have "map_of (w_timers w) i \<noteq> Some t" for i using iff [of t i] start(2) by simp
    moreover have "map_of (w_suspect w) n \<noteq> Some (w_next w)" for n
      using iff [of n "w_next w"] less by auto
    ultimately show ?thesis
      using iff less by (auto simp: timers_inv_def m less_SucI)
  next
    case (cancel i)
    then have m: "map_of (w_suspect ?w) = (map_of (w_suspect w))(t := None)"
      "map_of (w_timers ?w) = (map_of (w_timers w))(i := None)" "w_next ?w = w_next w"
      by (simp_all add: status_handled_def handle_status_def delete_conv')
    have ti: "map_of (w_timers w) i = Some t" using iff cancel(2) by simp
    have "(((map_of (w_suspect w))(t := None)) n = Some j) = (((map_of (w_timers w))(i := None)) j = Some n)" for n j
      using iff [of n j] iff [of t j] iff [of n i] ti cancel(2) by auto
    then show ?thesis using less by (auto simp: timers_inv_def m)
  qed (simp add: assms)
  show "map_of (w_suspect (status_handled t st w)) t =
      (if st = SUSPECT then Some (case map_of (w_suspect w) t of None \<Rightarrow> w_next w | Some i \<Rightarrow> i)
       else None)"
    by (auto simp: status_handled_def handle_status_def update_conv' delete_conv' split: option.split)
  show "n \<noteq> t \<Longrightarrow> map_of (w_suspect (status_handled t st w)) n = map_of (w_suspect w) n"
    by (auto simp: status_handled_def handle_status_def update_conv' delete_conv' split: option.split)
qed

lemma status_handled_next: "w_next w \<le> w_next (status_handled t st w)"
  by (simp add: status_handled_def handle_status_def split: option.split)

lemma status_handled_waits [simp]:
  "waits_of (status_handled t st w) = waits_of w"
  "events_at n (status_handled t st w) = events_at n w"
  by (simp_all add: waits_of_def [abs_def] events_at_def)

subsection \<open>Preservation, statement by statement\<close>

lemma worker_invD:
  assumes "worker_inv w"
  shows "known_inv w" and "timers_inv w" and "event_inv w" and "owner_inv (w_owner w)"
    and "\<And>p. p \<in> set (w_recv_queue w) \<Longrightarrow> packet_ok p"
    and "store_inv (w_members w)" and "\<And>n. n \<in> worker_refs w \<Longrightarrow> known (w_members w) n"
  using assms by (auto simp: worker_inv_def known_inv_def)

text \<open>
  A step that leaves the timers and the waits alone: it is enough to look at the store, the
  references, the owner and the receive queue.
\<close>

lemma worker_inv_step:
  assumes inv: "worker_inv w" and "store.grows (w_members w) (w_members w')"
    and "\<And>n. n \<in> worker_refs w' \<Longrightarrow> n \<notin> worker_refs w \<Longrightarrow> known (w_members w') n"
    and "timers_inv w'" and "w_next w \<le> w_next w'"
    and "\<And>i. waits_of w' i = waits_of w i \<or> waits_of w' i = None"
    and "\<And>t. fst ` set (events_at t w') = fst ` set (events_at t w)"
    and "owner_inv (w_owner w')" and "\<And>p. p \<in> set (w_recv_queue w') \<Longrightarrow> packet_ok p"
  shows "worker_inv w'"
  using known_inv_grows [OF worker_invD(1) [OF inv] assms(2,3)]
    event_inv_cong [OF worker_invD(3) [OF inv] assms(6,7,5)] assms(4,8,9)
  by (simp add: worker_inv_def)

lemma waits_owner_cong: "w_owner w' = w_owner w \<Longrightarrow> waits_of w' i = waits_of w i"
  by (simp add: waits_of_def)

lemma events_at_cong: "w_waiting w' = w_waiting w \<Longrightarrow> events_at t w' = events_at t w"
  by (simp add: events_at_def)

lemma members_step_inv':
  assumes "worker_inv w" and "store.grows (w_members w) ms"
  shows "worker_inv (w\<lparr>w_members := ms\<rparr>)"
  using assms
  by (intro worker_inv_step [OF assms(1)])
    (auto simp: worker_invD events_at_def waits_of_def
      intro: timers_inv_cong [OF worker_invD(2) [OF assms(1)]])

lemma reply_inv:
  assumes "worker_inv w" and "known (w_members w) t"
  shows "worker_inv (reply t p w)"
  using assms unfolding reply_def
  by (intro worker_inv_step [OF assms(1)])
    (auto simp: worker_invD events_at_def waits_of_def refs_send store.grows_refl
      intro: timers_inv_cong [OF worker_invD(2) [OF assms(1)]])

lemma status_handled_inv:
  assumes "worker_inv w" and "known (w_members w) t"
  shows "worker_inv (status_handled t st w)"
  using assms refs_status_handled [of t st w]
  by (intro worker_inv_step [OF assms(1)])
    (auto simp: worker_invD status_handled_timers status_handled_next store.grows_refl)

lemma listeners_sub: "set (listeners_of t w) \<subseteq> listening_refs (w_listening w)"
proof (cases "map_of (w_listening w) t")
  case None
  then show ?thesis by (simp add: listeners_of_def)
next
  case (Some l)
  then have "l \<in> snd ` set (w_listening w)" by (force dest: map_of_SomeD)
  with Some show ?thesis by (auto simp: listeners_of_def listening_refs_def)
qed

lemma refs_listening:
  "worker_refs (w\<lparr>w_listening := AList.update t (List.insert n (listeners_of t w)) (w_listening w)\<rparr>)
     \<subseteq> insert n (worker_refs w)"
  using listening_refs_bounds(1) [of t "List.insert n (listeners_of t w)" "w_listening w"]
    listeners_sub [of t w]
  by (auto simp: worker_refs_def timer_refs_def)

lemma listening_inv:
  assumes "worker_inv w" and "known (w_members w) n"
  shows "worker_inv (w\<lparr>w_listening := AList.update t (List.insert n (listeners_of t w)) (w_listening w)\<rparr>)"
  using assms refs_listening [where w = w and t = t and n = n]
  by (intro worker_inv_step [OF assms(1)])
    (auto simp: worker_invD events_at_def waits_of_def store.grows_refl
      intro: timers_inv_cong [OF worker_invD(2) [OF assms(1)]])

lemma waits_notified_events:
  "events_at t (w\<lparr>w_waiting := waits_notified n w\<rparr>) =
     (if t = n then map (\<lambda>(e, _). (e, True)) (events_at t w) else events_at t w)"
  by (auto simp: events_at_def waits_notified_def update_conv' split: option.split)

lemma greeted_events:
  "events_at t (greeted rnd now src w) =
     (if t = src_name src then map (\<lambda>(e, _). (e, True)) (events_at t w) else events_at t w)"
  using waits_notified_events [where t = t and w = w and n = "src_name src"] by (simp add: events_at_def)

lemma greeted_inv:
  assumes "worker_inv w"
  shows "worker_inv (greeted rnd now src w)"
proof (rule worker_inv_step [OF assms])
  have inv: "store_inv (w_members w)" using assms by (rule worker_invD)
  show "store.grows (w_members w) (w_members (greeted rnd now src w))"
    using inv by (simp add: store.grows_steps)
  show "known (w_members (greeted rnd now src w)) n"
    if "n \<in> worker_refs (greeted rnd now src w)" "n \<notin> worker_refs w" for n
  proof -
    have "queue_refs (w_send_queue (greeted rnd now src w)) =
        queue_refs (w_send_queue w) \<union> set (listeners_of (src_name src) w)"
      by (simp add: greeted_def Let_def queue_refs_append image_image)
    then have "worker_refs (greeted rnd now src w) \<subseteq> worker_refs w"
      using listeners_sub [of "src_name src" w] listening_refs_bounds(2) [of "src_name src" "w_listening w"]
      by (auto simp: worker_refs_def timer_refs_def)
    with that show ?thesis by blast
  qed
  show "timers_inv (greeted rnd now src w)"
    using worker_invD(2) [OF assms] by (rule timers_inv_cong) simp_all
  show "fst ` set (events_at t (greeted rnd now src w)) = fst ` set (events_at t w)" for t
    by (force simp: greeted_events)
qed (use assms in \<open>simp_all add: waits_of_def worker_invD\<close>)

text \<open>The handler.\<close>

lemma handle_packet_inv:
  assumes inv: "worker_inv w" and ok: "packet_ok p"
  shows "worker_inv (snd (handle_packet rnd now p w))"
proof -
  have st: "store_inv (w_members w)" using inv by (rule worker_invD)
  let ?g = "greeted rnd now (packet_source p) w" and ?n = "src_name (packet_source p)"
  have g: "worker_inv ?g" using inv by (rule greeted_inv)
  then have gst: "store_inv (w_members ?g)" by (rule worker_invD)
  have k: "known (w_members ?g) ?n" by (rule greeted_known)
  show ?thesis
  proof (cases p)
    case (Ping src)
    with g k st show ?thesis by (simp add: handle_Ping Let_def reply_inv del: greeted_fields)
  next
    case (PingReq src t)
    let ?ms = "members_get (rnd t) now t None (w_members ?g)"
    have grow: "store.grows (w_members ?g) ?ms" using gst by (rule store.grows_steps)
    have kt: "known ?ms t" and kn: "known ?ms ?n" using gst k by (simp_all add: store.lookup_knows del: greeted_fields)
    have 1: "worker_inv (?g\<lparr>w_members := ?ms\<rparr>)" using g grow by (rule members_step_inv')
    then have "worker_inv (reply t (Ping (source_at ?ms (ms_local ?ms))) (?g\<lparr>w_members := ?ms\<rparr>))"
      using kt by (intro reply_inv) simp_all
    then have "worker_inv ((reply t (Ping (source_at ?ms (ms_local ?ms))) (?g\<lparr>w_members := ?ms\<rparr>))
        \<lparr>w_listening := AList.update t (List.insert ?n (listeners_of t ?g)) (w_listening ?g)\<rparr>)"
      using listening_inv [of "reply t (Ping (source_at ?ms (ms_local ?ms))) (?g\<lparr>w_members := ?ms\<rparr>)" ?n t] kn
      by (simp add: reply_def listeners_of_def del: greeted_fields)
    moreover have "relayed rnd now ?n t ?g = (reply t (Ping (source_at ?ms (ms_local ?ms))) (?g\<lparr>w_members := ?ms\<rparr>))
        \<lparr>w_listening := AList.update t (List.insert ?n (listeners_of t ?g)) (w_listening ?g)\<rparr>"
      by (simp add: relayed_def Let_def reply_def del: greeted_fields)
    ultimately show ?thesis
      using PingReq st by (simp add: handle_PingReq del: greeted_fields)
  next
    case (Ack src)
    with g show ?thesis by (simp add: handle_Ack)
  next
    case (Gossip src name clock sta md)
    let ?r = "members_apply now name ?n clock sta md (members_get (rnd name) now name None (w_members ?g))"
    have set: "settable (Some sta)" using ok Gossip by simp
    have grow: "store.grows (w_members ?g) (snd ?r)" using gst set by (rule store.gossip_after_lookup)
    have "known (snd ?r) name"
      using gst set by (simp add: store.gossip_knows store.lookup_invar store.lookup_knows del: greeted_fields)
    moreover have "worker_inv (?g\<lparr>w_members := snd ?r\<rparr>)" using g grow by (rule members_step_inv')
    ultimately have "worker_inv (status_handled name sta (?g\<lparr>w_members := snd ?r\<rparr>))"
      by (intro status_handled_inv) simp_all
    then have "worker_inv (reply ?n (GossipAck (source_at (snd ?r) (ms_local (snd ?r))) name clock)
        (status_handled name sta (?g\<lparr>w_members := snd ?r\<rparr>)))"
      using k grow by (intro reply_inv) (auto simp: store.grows_def)
    with Gossip st set show ?thesis
      by (simp add: handle_Gossip gossiped_def Let_def status_handled_members del: greeted_fields)
  next
    case (GossipAck src name clock)
    let ?r = "ack_gossip name ?n clock (members_get (rnd name) now name None (w_members ?g))"
    have "store.grows (w_members ?g) (snd ?r)" using gst k by (rule store.ack_after_lookup)
    with g have "worker_inv (?g\<lparr>w_members := snd ?r\<rparr>)" by (rule members_step_inv')
    with GossipAck show ?thesis by (simp add: handle_GossipAck Let_def del: greeted_fields)
  qed
qed

subsection \<open>Subtasks\<close>

lemma spawn_fields [simp]:
  "w_members (spawn s w) = w_members w" "w_send_queue (spawn s w) = w_send_queue w"
  "w_recv_queue (spawn s w) = w_recv_queue w" "w_suspect (spawn s w) = w_suspect w"
  "w_timers (spawn s w) = w_timers w" "w_next (spawn s w) = w_next w"
  "w_waiting (spawn s w) = w_waiting w" "w_failed (spawn s w) = w_failed w"
  by (simp_all add: spawn_def)

lemma finish_fields [simp]:
  "w_members (finish i w) = w_members w" "w_send_queue (finish i w) = w_send_queue w"
  "w_recv_queue (finish i w) = w_recv_queue w" "w_suspect (finish i w) = w_suspect w"
  "w_timers (finish i w) = w_timers w" "w_next (finish i w) = w_next w"
  "w_waiting (finish i w) = w_waiting w" "w_failed (finish i w) = w_failed w"
  "w_listening (finish i w) = w_listening w"
  by (simp_all add: finish_def)

lemma suspend_at_fields [simp]:
  "w_members (suspend_at i s w) = w_members w" "w_send_queue (suspend_at i s w) = w_send_queue w"
  "w_recv_queue (suspend_at i s w) = w_recv_queue w" "w_suspect (suspend_at i s w) = w_suspect w"
  "w_timers (suspend_at i s w) = w_timers w" "w_next (suspend_at i s w) = w_next w"
  "w_waiting (suspend_at i s w) = w_waiting w" "w_failed (suspend_at i s w) = w_failed w"
  "w_listening (suspend_at i s w) = w_listening w"
  by (simp_all add: suspend_at_def)

definition wait_of :: "subtask \<Rightarrow> (string \<times> nat) option" where
  "wait_of s = (case s of Check_ping t e \<Rightarrow> Some (t, e) | Check_ping_req t e \<Rightarrow> Some (t, e) | _ \<Rightarrow> None)"

lemma waits_of_owner:
  "waits_of (suspend_at i s w) j = (if j = i then wait_of s else waits_of w j)"
  "waits_of (finish i w) j = (if j = i then None else waits_of w j)"
  "waits_of (spawn s w) j = (if j = next_task (w_owner w) then wait_of s else waits_of w j)"
  by (simp_all add: waits_of_def suspend_at_def finish_def spawn_def run_subtask_lookup wait_of_def)

text \<open>A step of the owner alone, after which no subtask waits that did not wait before.\<close>

lemma owner_step_inv:
  assumes inv: "worker_inv w" and "owner_inv o'"
    and "\<And>n. n \<in> worker_refs (w\<lparr>w_owner := o'\<rparr>) \<Longrightarrow> n \<notin> worker_refs w \<Longrightarrow> known (w_members w) n"
    and "\<And>i. waits_of (w\<lparr>w_owner := o'\<rparr>) i = waits_of w i \<or> waits_of (w\<lparr>w_owner := o'\<rparr>) i = None"
  shows "worker_inv (w\<lparr>w_owner := o'\<rparr>)"
proof (rule worker_inv_step [OF inv])
  show "timers_inv (w\<lparr>w_owner := o'\<rparr>)"
    using worker_invD(2) [OF inv] by (rule timers_inv_cong) simp_all
  show "waits_of (w\<lparr>w_owner := o'\<rparr>) i = waits_of w i \<or> waits_of (w\<lparr>w_owner := o'\<rparr>) i = None" for i
    by (rule assms(4))
qed (use assms in \<open>simp_all add: worker_invD events_at_def store.grows_refl\<close>)

lemma spawn_inv:
  assumes "worker_inv w" and "wait_of s = None" and "\<And>n. n \<in> subtask_refs s \<Longrightarrow> known (w_members w) n"
  shows "worker_inv (spawn s w)"
  unfolding spawn_def
proof (rule owner_step_inv [OF assms(1)])
  let ?w = "w\<lparr>w_owner := snd (run_subtask s (w_owner w))\<rparr>"
  show "owner_inv (snd (run_subtask s (w_owner w)))" using assms(1) by (auto dest: worker_invD)
  show "known (w_members w) n" if "n \<in> worker_refs ?w" "n \<notin> worker_refs w" for n
    using that refs_owner(2) [where w = w and s = s] assms(3) by blast
  show "waits_of ?w i = waits_of w i \<or> waits_of ?w i = None" for i
    using waits_of_owner(3) [of s w i] assms(2) unfolding spawn_def by presburger
qed

lemma spawn_all_inv:
  assumes "worker_inv w" and "\<And>t. wait_of (s t) = None" and "\<And>t. subtask_refs (s t) = {t}"
    and "\<And>t. t \<in> set ts \<Longrightarrow> known (w_members w) t"
  shows "worker_inv (fold (\<lambda>t. spawn (s t)) ts w)"
  using assms(1,4)
proof (induction ts arbitrary: w)
  case (Cons t ts)
  have "worker_inv (spawn (s t) w)" using Cons.prems assms(2,3) by (intro spawn_inv) auto
  with Cons show ?case by simp
qed simp

lemma finish_inv:
  assumes "worker_inv w"
  shows "worker_inv (finish i w)"
  unfolding finish_def
proof (rule owner_step_inv [OF assms])
  let ?w = "w\<lparr>w_owner := task_done i (w_owner w)\<rparr>"
  show "owner_inv (task_done i (w_owner w))" using assms by (auto dest: worker_invD)
  show "known (w_members w) n" if "n \<in> worker_refs ?w" "n \<notin> worker_refs w" for n
    using that refs_owner(3) by blast
  show "waits_of ?w j = waits_of w j \<or> waits_of ?w j = None" for j
    using waits_of_owner(2) [of i w j] unfolding finish_def by presburger
qed

lemma task_target_known:
  assumes "worker_inv w" and "map_of (running (w_owner w)) i = Some s" and "n \<in> subtask_refs s"
  shows "known (w_members w) n"
proof -
  have "s \<in> snd ` set (running (w_owner w))" using map_of_SomeD [OF assms(2)] by force
  then have "n \<in> worker_refs w" using assms(3) by (auto simp: worker_refs_def task_refs_def)
  with assms(1) show ?thesis by (rule worker_invD)
qed

lemma suspend_inv:
  assumes "worker_inv w" and "map_of (running (w_owner w)) i = Some s'" and "wait_of s = None"
    and "\<And>n. n \<in> subtask_refs s \<Longrightarrow> known (w_members w) n"
  shows "worker_inv (suspend_at i s w)"
  unfolding suspend_at_def
proof (rule owner_step_inv [OF assms(1)])
  let ?w = "w\<lparr>w_owner := task_suspend i s (w_owner w)\<rparr>"
  show "owner_inv (task_suspend i s (w_owner w))"
    using owner_keeps(3) [OF worker_invD(4) [OF assms(1)]] assms(2) by simp
  show "known (w_members w) n" if "n \<in> worker_refs ?w" "n \<notin> worker_refs w" for n
    using that refs_owner(1) [where w = w and s = s and i = i] assms(4) by blast
  show "waits_of ?w j = waits_of w j \<or> waits_of ?w j = None" for j
    using waits_of_owner(1) [of i s w j] assms(3) unfolding suspend_at_def by presburger
qed

text \<open>A wait begins: a fresh event, not yet set.\<close>

lemma wait_begin_run:
  "wait_begin i t s w = suspend_at i (s (w_next w))
     (w\<lparr>w_next := Suc (w_next w),
        w_waiting := AList.update t (events_at t w @ [(w_next w, False)]) (w_waiting w)\<rparr>)"
  by (simp add: wait_begin_def add_waiting_def events_at_def Let_def)

lemma wait_begin_events:
  "events_at n (wait_begin i t s w) =
     (if n = t then events_at t w @ [(w_next w, False)] else events_at n w)"
  by (simp add: wait_begin_run events_at_def update_conv')

lemma wait_begin_inv:
  assumes inv: "worker_inv w" and "map_of (running (w_owner w)) i = Some s'"
    and s: "\<And>e. wait_of (s e) = Some (t, e)" "\<And>e. subtask_refs (s e) = {t}"
    and "known (w_members w) t"
  shows "worker_inv (wait_begin i t s w)"
proof -
  let ?w = "wait_begin i t s w"
  have f: "w_members ?w = w_members w" "w_next ?w = Suc (w_next w)" "w_recv_queue ?w = w_recv_queue w"
    "w_suspect ?w = w_suspect w" "w_timers ?w = w_timers w"
    "w_owner ?w = task_suspend i (s (w_next w)) (w_owner w)"
    by (simp_all add: wait_begin_run) (simp add: suspend_at_def)
  have "worker_refs ?w = worker_refs (w\<lparr>w_owner := task_suspend i (s (w_next w)) (w_owner w)\<rparr>)"
    by (rule worker_refs_cong) (simp_all add: wait_begin_run, simp_all add: suspend_at_def)
  then have "worker_refs ?w \<subseteq> insert t (worker_refs w)"
    using refs_owner(1) [where w = w and s = "s (w_next w)" and i = i] s(2) by auto
  then have "known_inv ?w"
    using assms(5) inv by (auto simp: known_inv_def f worker_invD)
  moreover have "timers_inv ?w"
    using worker_invD(2) [OF inv] by (rule timers_inv_cong) (simp_all add: f)
  moreover have "owner_inv (w_owner ?w)"
    using owner_keeps(3) [OF worker_invD(4) [OF inv]] assms(2) by (simp add: f)
  moreover have "event_inv ?w"
  proof -
    have ei: "event_inv w" using inv by (rule worker_invD)
    have wt: "waits_of ?w j = (if j = i then Some (t, w_next w) else waits_of w j)" for j
      using s(1) by (simp add: wait_begin_run waits_of_owner) (simp add: waits_of_def)
    have less: "waits_of w j = Some (u, e) \<Longrightarrow> e < w_next w" for j u e
      using event_invD(1,2) [OF ei] by blast
    have ids: "event_ids u ?w = (if u = t then insert (w_next w) (event_ids t w) else event_ids u w)" for u
      by (simp add: event_ids_def wait_begin_events)
    show ?thesis
    proof (rule event_invI)
      fix j u e assume h: "waits_of ?w j = Some (u, e)"
      show "e \<in> event_ids u ?w"
      proof (cases "j = i")
        case True
        with h have "t = u" "w_next w = e" by (simp_all add: wt)
        with ids [of u] show ?thesis by simp
      next
        case False
        with h have "e \<in> event_ids u w" by (intro event_invD(1) [OF ei]) (simp add: wt)
        then show ?thesis by (cases "u = t") (simp_all add: ids)
      qed
    next
      fix u e assume "e \<in> event_ids u ?w"
      then have "e = w_next w \<or> e \<in> event_ids u w" by (cases "u = t") (simp_all add: ids)
      then show "e < w_next ?w" using event_invD(2) [OF ei] by (auto simp: f less_SucI)
    next
      fix j k u v e
      assume h: "waits_of ?w j = Some (u, e)" "waits_of ?w k = Some (v, e)"
      show "j = k"
      proof (cases "j = i \<or> k = i")
        case True
        with h less [of j u e] less [of k v e] show ?thesis by (auto simp: wt split: if_splits)
      next
        case False
        with h event_invD(3) [OF ei] show ?thesis by (simp add: wt)
      qed
    qed
  qed
  ultimately show ?thesis using inv by (simp add: worker_inv_def f)
qed

text \<open>A wait ends: its event is dropped, and the subtask no longer waits.\<close>

lemma wait_end_fields [simp]:
  "w_members (snd (wait_end t e w)) = w_members w"
  "w_send_queue (snd (wait_end t e w)) = w_send_queue w"
  "w_recv_queue (snd (wait_end t e w)) = w_recv_queue w"
  "w_suspect (snd (wait_end t e w)) = w_suspect w"
  "w_timers (snd (wait_end t e w)) = w_timers w"
  "w_next (snd (wait_end t e w)) = w_next w"
  "w_listening (snd (wait_end t e w)) = w_listening w"
  "w_owner (snd (wait_end t e w)) = w_owner w"
  "w_failed (snd (wait_end t e w)) = w_failed w"
  "w_ping_req_count (snd (wait_end t e w)) = w_ping_req_count w"
  by (simp_all add: wait_end_def)

lemma wait_end_events:
  "events_at n (snd (wait_end t e w)) =
     (if n = t then filter (\<lambda>(d, _). d \<noteq> e) (events_at t w) else events_at n w)"
  by (simp add: wait_end_def events_at_def update_conv')

lemma wait_end_event_inv:
  assumes "event_inv w" and "waits_of w i = Some (t, e)"
    and "\<And>j. waits_of w' j = (if j = i then None else waits_of w j)"
    and "\<And>n. events_at n w' = events_at n (snd (wait_end t e w))" and "w_next w' = w_next w"
  shows "event_inv w'"
proof (rule event_invI)
  have ids: "event_ids u w' = (if u = t then event_ids t w - {e} else event_ids u w)" for u
    by (auto simp: event_ids_def assms(4) wait_end_events)
  show "d \<in> event_ids u w'" if "waits_of w' j = Some (u, d)" for j u d
  proof -
    have j: "j \<noteq> i" "waits_of w j = Some (u, d)" using that by (auto simp: assms(3) split: if_splits)
    then have "d \<noteq> e" using event_invD(3) [OF assms(1,2), of j u] by auto
    with event_invD(1) [OF assms(1) j(2)] show ?thesis by (cases "u = t") (simp_all add: ids)
  qed
  show "d < w_next w'" if "d \<in> event_ids u w'" for u d
    using that event_invD(2) [OF assms(1), of d u] by (auto simp: ids assms(5) split: if_splits)
  show "j = k" if "waits_of w' j = Some (u, d)" "waits_of w' k = Some (v, d)" for j k u v d
    using that event_invD(3) [OF assms(1), of j u d k v] by (auto simp: assms(3) split: if_splits)
qed

lemma wait_end_inv:
  assumes inv: "worker_inv w" and w: "waits_of w i = Some (t, e)"
  defines "w1 \<equiv> snd (wait_end t e w)"
  shows "worker_inv (finish i w1)"
    and "(\<And>n. n \<in> set ns \<Longrightarrow> known (w_members w) n) \<Longrightarrow> worker_inv (suspend_at i (Check_sending t ns) w1)"
proof -
  obtain s where s: "map_of (running (w_owner w)) i = Some s" "t \<in> subtask_refs s"
    using w by (auto simp: waits_of_def split: option.splits subtask.splits)
  have kt: "known (w_members w) t" using task_target_known [OF inv s] .
  have refs: "worker_refs w1 = worker_refs w" by (rule worker_refs_cong) (simp_all add: w1_def)
  have w1: "waits_of w1 j = waits_of w j" for j by (rule waits_owner_cong) (simp add: w1_def)
  have ev: "event_inv w'" if "\<And>j. waits_of w' j = (if j = i then None else waits_of w j)"
    "w_waiting w' = w_waiting w1" "w_next w' = w_next w" for w'
    using wait_end_event_inv [OF worker_invD(3) [OF inv] w that(1)] that(2,3)
    by (simp add: events_at_def w1_def)
  have ev: "event_inv (finish i w1)" "event_inv (suspend_at i (Check_sending t ns) w1)"
    by (rule ev; simp add: waits_of_owner w1 wait_of_def; simp add: w1_def)+
  have ti: "timers_inv w'" if "w_suspect w' = w_suspect w" "w_timers w' = w_timers w" "w_next w' = w_next w" for w'
    using worker_invD(2) [OF inv] that by (intro timers_inv_cong [of w w']) simp_all
  show "worker_inv (finish i w1)"
    using inv ev refs refs_owner(3) [where i = i and w = w1]
    by (auto simp: worker_inv_def known_inv_def w1_def finish_def intro!: ti)
  show "worker_inv (suspend_at i (Check_sending t ns) w1)"
    if "\<And>n. n \<in> set ns \<Longrightarrow> known (w_members w) n"
    using inv ev refs that kt refs_owner(1) [where i = i and w = w1 and s = "Check_sending t ns"]
      owner_keeps(3) [OF worker_invD(4) [OF inv], of i] s(1)
    by (auto simp: worker_inv_def known_inv_def w1_def suspend_at_def intro!: ti)
qed

subsection \<open>The outcome of a check\<close>

text \<open>What the end of a check does apart from ending the task: the timer and the status.\<close>

definition concluded :: "string \<Rightarrow> status \<Rightarrow> int \<Rightarrow> worker \<Rightarrow> worker" where
  "concluded t st now w =
     (status_handled t st w)\<lparr>w_members := snd (members_update now t (Some st) None (w_members w))\<rparr>"

lemma check_finish_run:
  "check_finish i t online now w = concluded t (if online then ONLINE else SUSPECT) now (finish i w)"
proof -
  have "status_handled t st (finish i w) = finish i (status_handled t st w)" for st
    by (simp add: finish_def status_handled_def handle_status_def split: option.split)
  then show ?thesis
    by (simp add: check_finish_def Let_def py_seq_def py_bind_def handle_status_run with_members_run
        concluded_def) (simp add: finish_def status_handled_members)
qed

lemma concluded_inv:
  assumes "worker_inv w" and "known (w_members w) t" and "settable (Some st)"
  shows "worker_inv (concluded t st now w)"
proof -
  have "worker_inv (status_handled t st w)" using assms(1,2) by (rule status_handled_inv)
  then show ?thesis
    using worker_invD(6) [OF assms(1)] assms(3)
    unfolding concluded_def by (intro members_step_inv') (simp_all add: store.grows_steps)
qed

lemma wait_target:
  assumes "waits_of w i = Some (t, e)"
  obtains s where "map_of (running (w_owner w)) i = Some s" and "t \<in> subtask_refs s"
  using assms by (auto simp: waits_of_def split: option.splits subtask.splits)

lemma wait_target_known: "worker_inv w \<Longrightarrow> waits_of w i = Some (t, e) \<Longrightarrow> known (w_members w) t"
  by (erule wait_target) (rule task_target_known)

lemma check_finish_inv:
  assumes "worker_inv w" and "waits_of w i = Some (t, e)"
  shows "worker_inv (check_finish i t online now (snd (wait_end t e w)))"
  unfolding check_finish_run
  using wait_end_inv(1) [OF assms] wait_target_known [OF assms]
  by (intro concluded_inv) simp_all

text \<open>The members that a search returns.\<close>

lemma find_known:
  assumes "store_inv ms" and "st \<in> set all_statuses" and "members_find draws k st ex ms = Some r"
  obtains ns where "r = Inr ns" and "distinct ns" and "set ns \<subseteq> set (ms_non_local ms)"
    and "\<And>n. n \<in> set ns \<Longrightarrow> known ms n" and "int (length ns) = max 0 (find_bound k (shuffle_at st ms) ex)"
proof -
  have inv: "members_inv ms" and slots: "slots_known ms" using assms(1) by (auto simp: store_inv_def)
  have wf: "shuffle_wf (shuffle_at st ms)"
    using members_invD(9) [OF inv] assms(2) by (simp add: index_wf_def)
  from find_result [OF wf assms(3)]
  obtain ns where ns: "r = Inr ns" "distinct ns" "set ns \<subseteq> set (ms_non_local ms)"
    "int (length ns) = max 0 (find_bound k (shuffle_at st ms) ex)"
    using slots assms(2) by (auto simp: slots_known_def)
  moreover have "known ms n" if "n \<in> set ns" for n
    using that ns(3) members_invD(6) [OF inv, of n] by (auto simp: known_def)
  ultimately show ?thesis using that by blast
qed

lemma check_pinged_inv:
  assumes inv: "worker_inv w" and w: "waits_of w i = Some (t, e)"
    and run: "check_pinged i t e draws now w = Some w'"
  shows "worker_inv w'"
proof -
  obtain online w1 where we: "wait_end t e w = (online, w1)" by (cases "wait_end t e w")
  then have w1: "w1 = snd (wait_end t e w)" by simp
  note fin = check_finish_inv [OF inv w, of _ now, folded w1]
  show ?thesis
  proof (cases online)
    case True
    with we run fin [of True] show ?thesis by (simp add: check_pinged_def)
  next
    case False
    let ?f = "members_find draws (w_ping_req_count w1) AVAILABLE [t] (w_members w1)"
    obtain r where r: "?f = Some r"
      using run we False by (cases ?f) (simp_all add: check_pinged_def)
    have "store_inv (w_members w1)" using worker_invD(6) [OF inv] by (simp add: w1)
    then obtain ns where ns: "r = Inr ns" "\<And>n. n \<in> set ns \<Longrightarrow> known (w_members w1) n"
      by (rule find_known [OF _ _ r]) (auto simp: all_statuses_def)
    have "w' = (if ns = [] then check_finish i t False now w1
        else suspend_at i (Check_sending t ns) w1)"
      using run we False r ns(1) by (simp add: check_pinged_def)
    then show ?thesis
      using fin [of False] wait_end_inv(2) [OF inv w, of ns, folded w1] ns(2) by (auto simp: w1)
  qed
qed

lemma send_from_local:
  assumes "worker_inv w"
  shows "py_bind (source_of (ms_local (w_members w))) (\<lambda>src. send t (p src)) w =
    (Inr (), reply t (p (source_at (w_members w) (ms_local (w_members w)))) w)"
  using store.knows_local [OF worker_invD(6) [OF assms]]
  by (simp add: py_bind_def source_of_run send_run reply_def)

lemma reply_fields [simp]:
  "w_members (reply t p w) = w_members w" "w_owner (reply t p w) = w_owner w"
  "w_next (reply t p w) = w_next w" "w_suspect (reply t p w) = w_suspect w"
  "w_timers (reply t p w) = w_timers w" "w_waiting (reply t p w) = w_waiting w"
  "w_failed (reply t p w) = w_failed w" "w_recv_queue (reply t p w) = w_recv_queue w"
  "w_listening (reply t p w) = w_listening w"
  by (simp_all add: reply_def)

lemma check_begin_inv:
  assumes "worker_inv w" and "map_of (running (w_owner w)) i = Some (Check_start t)"
  shows "worker_inv (check_begin i t w)"
proof -
  have "known (w_members w) t" using assms by (rule task_target_known) simp
  moreover from this have "worker_inv (reply t (Ping (source_at (w_members w) (ms_local (w_members w)))) w)"
    using assms(1) by (intro reply_inv)
  ultimately show ?thesis
    using assms(2) by (simp add: check_begin_def Let_def send_from_local [OF assms(1)] wait_begin_inv wait_of_def)
qed

lemma check_send_inv:
  assumes "worker_inv w" and task: "map_of (running (w_owner w)) i = Some (Check_sending t ns)"
  shows "worker_inv (check_send i t ns w)"
proof (cases ns)
  case Nil
  have "known (w_members w) t" using assms by (rule task_target_known) simp
  with assms Nil show ?thesis by (simp add: check_send_def wait_begin_inv wait_of_def)
next
  case (Cons n rest)
  have k: "known (w_members w) m" if "m \<in> insert t (set ns)" for m
    using assms by (rule task_target_known) (use that in simp)
  then have "worker_inv (reply n (PingReq (source_at (w_members w) (ms_local (w_members w))) t) w)"
    using assms(1) Cons by (intro reply_inv) auto
  then have "worker_inv (suspend_at i (Check_sending t rest)
      (reply n (PingReq (source_at (w_members w) (ms_local (w_members w))) t) w))"
    using task k Cons by (intro suspend_inv [where s' = "Check_sending t ns"]) (auto simp: wait_of_def)
  then show ?thesis
    using Cons send_from_local [OF assms(1), of n "\<lambda>src. PingReq src t"] by (simp add: check_send_def Let_def)
qed

subsection \<open>Dissemination\<close>

text \<open>The packet that carries the gossip about a member.\<close>

definition gossip_packet :: "members \<Rightarrow> string \<Rightarrow> packet" where
  "gossip_packet ms n =
     (let m = the (map_of (ms_members ms) n)
      in Gossip (source_at ms (ms_local ms)) (m_name m) (m_clock m) (m_status m) (m_metadata_dict m))"

lemma get_gossip_known: "n \<in> set (get_gossip target ms) \<Longrightarrow> known ms n"
  by (auto simp: get_gossip_def known_def simp del: filter.simps split: option.splits)

lemma send_gossip_run:
  assumes "known (w_members w) l" and "l = ms_local (w_members w)"
    and "\<And>n. n \<in> set ns \<Longrightarrow> known (w_members w) n"
  shows "py_for ns (\<lambda>n. py_bind (build_gossip l n) (\<lambda>packet. send t packet)) w =
    (Inr (), w\<lparr>w_send_queue := w_send_queue w @ map (\<lambda>n. (t, gossip_packet (w_members w) n)) ns\<rparr>)"
  using assms
proof (induction ns arbitrary: w)
  case Nil
  then show ?case by simp
next
  case (Cons n ns)
  obtain m where m: "map_of (ms_members (w_members w)) n = Some m"
    using Cons.prems(3) [of n] by (auto simp: known_def)
  let ?w = "w\<lparr>w_send_queue := w_send_queue w @ [(t, gossip_packet (w_members w) n)]\<rparr>"
  have "py_bind (build_gossip l n) (\<lambda>packet. send t packet) w = (Inr (), ?w)"
    using Cons.prems(1,2) m
    by (simp add: build_gossip_def py_bind_def source_of_run with_members_run send_run gossip_packet_def)
  moreover have "py_for ns (\<lambda>n. py_bind (build_gossip l n) (\<lambda>packet. send t packet)) ?w =
      (Inr (), ?w\<lparr>w_send_queue := w_send_queue ?w @ map (\<lambda>n. (t, gossip_packet (w_members ?w) n)) ns\<rparr>)"
    using Cons.prems by (intro Cons.IH) auto
  ultimately show ?case by (simp add: py_seq_def py_bind_def)
qed

lemma disseminate_run:
  assumes "store_inv (w_members w)"
  shows "disseminate t w = (Inr (), w\<lparr>w_send_queue := w_send_queue w @
    map (\<lambda>n. (t, gossip_packet (w_members w) n)) (get_gossip t (w_members w))\<rparr>)"
  using send_gossip_run [OF store.knows_local [OF assms] refl get_gossip_known]
  by (simp add: disseminate_def py_bind_def [of "py_read _"])

lemma send_all_inv:
  assumes "worker_inv w" and "\<And>t. t \<in> fst ` set ps \<Longrightarrow> known (w_members w) t"
  shows "worker_inv (w\<lparr>w_send_queue := w_send_queue w @ ps\<rparr>)"
  using assms
  by (intro worker_inv_step [OF assms(1)])
    (auto simp: worker_invD events_at_def waits_of_def refs_send store.grows_refl
      intro: timers_inv_cong [OF worker_invD(2) [OF assms(1)]])

lemma disseminate_inv:
  assumes "worker_inv w" and "known (w_members w) t"
  shows "worker_inv (snd (disseminate t w))"
  using assms by (auto simp: disseminate_run worker_invD intro!: send_all_inv)

lemma subtask_turn_inv:
  assumes inv: "worker_inv w" and run: "subtask_turn i draws now w = Some w'"
  shows "worker_inv w'"
proof -
  obtain s where s: "map_of (running (w_owner w)) i = Some s"
    using run by (cases "map_of (running (w_owner w)) i") (simp_all add: subtask_turn_def)
  show ?thesis
  proof (cases s)
    case (Check_start t)
    with s run inv show ?thesis by (auto simp: subtask_turn_def check_begin_inv)
  next
    case (Check_ping t e)
    with s run inv show ?thesis
      by (intro check_pinged_inv [OF inv, of i t e draws now]) (simp_all add: subtask_turn_def waits_of_def)
  next
    case (Check_sending t ns)
    with s run inv show ?thesis by (auto simp: subtask_turn_def check_send_inv)
  next
    case (Check_ping_req t e)
    then have "waits_of w i = Some (t, e)" using s by (simp add: waits_of_def)
    with Check_ping_req s run check_finish_inv [OF inv this] show ?thesis
      by (auto simp: subtask_turn_def check_requested_def split: prod.splits)
  next
    case (Disseminate_start t)
    then have "known (w_members w) t" using s by (intro task_target_known [OF inv s]) simp
    with Disseminate_start s run inv show ?thesis
      by (auto simp: subtask_turn_def intro!: finish_inv disseminate_inv)
  qed
qed

subsection \<open>Every step\<close>

lemma suspect_expire_inv:
  assumes inv: "worker_inv w" and run: "suspect_expire i now w = Some w'"
  shows "worker_inv w'"
    and "\<exists>t. map_of (w_timers w) i = Some t \<and> known (w_members w) t \<and>
      w_members w' = snd (members_update now t (Some OFFLINE) None (w_members w)) \<and>
      w_suspect w' = AList.delete t (w_suspect w) \<and> w_timers w' = AList.delete i (w_timers w)"
proof -
  obtain t where t: "map_of (w_timers w) i = Some t"
    using run by (cases "map_of (w_timers w) i") (simp_all add: suspect_expire_def)
  then have "t \<in> snd ` set (w_timers w)" by (force dest: map_of_SomeD)
  then have k: "known (w_members w) t"
    using inv by (intro worker_invD(7)) (simp_all add: worker_refs_def timer_refs_def)
  let ?ms = "snd (members_update now t (Some OFFLINE) None (w_members w))"
  let ?w = "w\<lparr>w_members := ?ms, w_suspect := AList.delete t (w_suspect w),
    w_timers := AList.delete i (w_timers w)\<rparr>"
  have "fst (members_update now t (Some OFFLINE) None (w_members w)) = Inr ()"
    using worker_invD(6) [OF inv] k by (simp add: store.change_returns)
  then have "w\<lparr>w_timers := AList.delete i (w_timers w), w_members := ?ms,
      w_suspect := AList.delete t (w_suspect w)\<rparr> = w'"
    using run t by (simp add: suspect_expire_def py_seq_def py_bind_def with_members_run)
  then have w': "w' = ?w" by (elim subst) simp
  have ti: "timers_inv w" using inv by (rule worker_invD)
  have st: "map_of (w_suspect w) t = Some i" using ti t by (simp add: timers_inv_def)
  have iff: "(map_of (w_suspect w) n = Some j) = (map_of (w_timers w) j = Some n)"
    and less: "map_of (w_timers w) j = Some n \<Longrightarrow> j < w_next w" for n j
    using ti by (simp_all add: timers_inv_def)
  have "(((map_of (w_suspect w))(t := None)) n = Some j) = (((map_of (w_timers w))(i := None)) j = Some n)" for n j
    using iff [of n j] iff [of t j] iff [of n i] t st by auto
  then have "timers_inv ?w" using less by (auto simp: timers_inv_def delete_conv')
  moreover have "worker_refs ?w \<subseteq> worker_refs w"
    using alist_values(2) [of i "w_timers w"] by (auto simp: worker_refs_def timer_refs_def)
  ultimately show "worker_inv w'"
    unfolding w' using inv
    by (intro worker_inv_step [OF inv])
      (auto simp: worker_invD store.grows_steps events_at_def waits_of_def)
  show "\<exists>t. map_of (w_timers w) i = Some t \<and> known (w_members w) t \<and>
      w_members w' = snd (members_update now t (Some OFFLINE) None (w_members w)) \<and>
      w_suspect w' = AList.delete t (w_suspect w) \<and> w_timers w' = AList.delete i (w_timers w)"
    using t k by (simp add: w')
qed

lemma worker_inv_queues:
  assumes "worker_inv w"
  shows "packet_ok p \<Longrightarrow> worker_inv (w\<lparr>w_recv_queue := w_recv_queue w @ [p]\<rparr>)"
    and "w_recv_queue w = p # q \<Longrightarrow> worker_inv (w\<lparr>w_recv_queue := q\<rparr>)"
    and "w_send_queue w = x # xs \<Longrightarrow> worker_inv (w\<lparr>w_send_queue := xs\<rparr>)"
    and "worker_inv (w\<lparr>w_failed := fs\<rparr>)"
proof -
  have *: "worker_inv w'"
    if same: "w_members w' = w_members w" "w_suspect w' = w_suspect w" "w_timers w' = w_timers w"
      "w_next w' = w_next w" "w_owner w' = w_owner w" "w_waiting w' = w_waiting w"
      "w_listening w' = w_listening w"
      and "set (w_send_queue w') \<subseteq> set (w_send_queue w)"
      and ok: "\<And>p. p \<in> set (w_recv_queue w') \<Longrightarrow> packet_ok p" for w'
  proof (rule worker_inv_step [OF assms])
    show "timers_inv w'"
      using worker_invD(2) [OF assms] by (rule timers_inv_cong) (simp_all add: same)
    have "worker_refs w' \<subseteq> worker_refs w"
      using that(8) by (auto simp: worker_refs_def timer_refs_def queue_refs_def same)
    then show "known (w_members w') n" if "n \<in> worker_refs w'" "n \<notin> worker_refs w" for n
      using that by blast
  qed (use same ok assms in \<open>simp_all add: worker_invD store.grows_refl events_at_def waits_of_def\<close>)
  show "packet_ok p \<Longrightarrow> worker_inv (w\<lparr>w_recv_queue := w_recv_queue w @ [p]\<rparr>)"
    using worker_invD(5) [OF assms] by (intro *) auto
  show "w_recv_queue w = p # q \<Longrightarrow> worker_inv (w\<lparr>w_recv_queue := q\<rparr>)"
    using worker_invD(5) [OF assms] by (intro *) auto
  show "w_send_queue w = x # xs \<Longrightarrow> worker_inv (w\<lparr>w_send_queue := xs\<rparr>)"
    using worker_invD(5) [OF assms] by (intro *) auto
  show "worker_inv (w\<lparr>w_failed := fs\<rparr>)"
    using worker_invD(5) [OF assms] by (intro *) auto
qed

lemma loop_fails_inv: "worker_inv (snd r) \<Longrightarrow> worker_inv (loop_fails l r)"
  using worker_inv_queues(4) [of "snd r"]
  by (cases r; cases "fst r") (simp_all add: loop_fails_def)

fun event_ok :: "worker_event \<Rightarrow> bool" where
  "event_ok (Receive p) \<longleftrightarrow> packet_ok p"
| "event_ok ev \<longleftrightarrow> True"

lemma handler_turn_inv:
  assumes "worker_inv w" and "handler_turn rnd now w = Some w'"
  shows "worker_inv w'"
proof -
  obtain p q where q: "w_recv_queue w = p # q"
    and w': "w' = loop_fails Handler (handle_packet rnd now p (w\<lparr>w_recv_queue := q\<rparr>))"
    using assms(2) by (auto simp: handler_turn_def split: if_splits list.splits)
  have "packet_ok p" using worker_invD(5) [OF assms(1)] q by simp
  with worker_inv_queues(2) [OF assms(1) q] show ?thesis
    unfolding w' by (intro loop_fails_inv handle_packet_inv)
qed

lemma worker_step_inv:
  assumes inv: "worker_inv w" and ok: "event_ok ev" and run: "worker_step ev w = Some w'"
  shows "worker_inv w'"
proof (cases ev)
  case (Receive p)
  with run ok inv show ?thesis by (auto simp: worker_step_def worker_inv_queues(1))
next
  case Transmit
  with run inv show ?thesis by (auto simp: worker_step_def worker_inv_queues(3) split: list.splits)
next
  case (Handle rnd now)
  with run inv show ?thesis by (simp add: worker_step_def handler_turn_inv)
next
  case (Detect draws)
  then have d: "detection_turn draws w = Some w'" using run by (simp add: worker_step_def)
  then obtain r where r: "members_find draws 1 ALL_STATUS [] (w_members w) = Some r"
    by (auto simp: detection_turn_def split: if_splits option.splits)
  obtain ns where ns: "r = Inr ns" "\<And>n. n \<in> set ns \<Longrightarrow> known (w_members w) n"
    by (rule find_known [OF worker_invD(6) [OF inv] _ r]) (auto simp: all_statuses_def)
  have "worker_inv (fold (\<lambda>target. spawn (Check_start target)) ns w)"
    using inv ns(2) by (intro spawn_all_inv) (simp_all add: wait_of_def)
  with d r ns(1) inv show ?thesis
    by (auto simp: detection_turn_def py_seq_def py_bind_def split: if_splits intro!: loop_fails_inv)
next
  case (Gossip_round draws)
  then have d: "dissemination_turn draws w = Some w'" using run by (simp add: worker_step_def)
  then obtain r where r: "members_find draws 1 AVAILABLE [] (w_members w) = Some r"
    by (auto simp: dissemination_turn_def split: if_splits option.splits)
  obtain ns where ns: "r = Inr ns" "\<And>n. n \<in> set ns \<Longrightarrow> known (w_members w) n"
    by (rule find_known [OF worker_invD(6) [OF inv] _ r]) (auto simp: all_statuses_def)
  have "worker_inv (fold (\<lambda>target. spawn (Disseminate_start target)) ns w)"
    using inv ns(2) by (intro spawn_all_inv) (simp_all add: wait_of_def)
  with d r ns(1) show ?thesis by (auto simp: dissemination_turn_def split: if_splits)
next
  case (Resume i draws now)
  with run inv show ?thesis by (simp add: worker_step_def subtask_turn_inv)
next
  case (Expire i now)
  with run inv show ?thesis by (simp add: worker_step_def suspect_expire_inv(1))
next
  case (Set_metadata md now)
  with run inv show ?thesis
    by (auto simp: worker_step_def with_members_run worker_invD store.grows_steps
        intro!: members_step_inv')
qed

text \<open>
  The workers that a run reaches: a new worker on a manager that the constructor built, and then
  any sequence of events, as long as the gossip received carries statuses that can be assigned.
\<close>

inductive worker_reachable :: "worker \<Rightarrow> bool" where
  worker_start:
    "members_init rnd now name peers md = (Inr (), ms) \<Longrightarrow> worker_reachable (worker_init count ms)"
| worker_run:
    "worker_reachable w \<Longrightarrow> event_ok ev \<Longrightarrow> worker_step ev w = Some w' \<Longrightarrow> worker_reachable w'"

lemma members_peers_slots: "slots_known (members_peers rnd now l ps)"
proof -
  have "slots_known ms \<Longrightarrow> slots_known (fold (\<lambda>peer. members_get (rnd peer) now peer None) ps ms)" for ms
    by (induction ps arbitrary: ms) (simp_all add: members_get_slots)
  moreover have "slots_known (members_blank rnd now l)"
    by (simp add: slots_known_def members_blank_def shuffle_at_def shuffle_drawable_def empty_shuffle_def)
  ultimately show ?thesis by (simp add: members_peers_def)
qed

lemma members_init_store:
  "members_init rnd now name peers md = (Inr (), ms) \<Longrightarrow> store_inv ms"
  using update_common_store [of "members_peers rnd now name peers" "Some ONLINE" now name None 1 "Some md"]
  by (simp add: members_init_peers members_update_common store_inv_def members_peers_state
      members_peers_slots)

lemma worker_init_inv: "store_inv ms \<Longrightarrow> worker_inv (worker_init count ms)"
  by (auto simp: worker_inv_def worker_init_def known_inv_def worker_refs_def queue_refs_def
      timer_refs_def listening_refs_def task_refs_def timers_inv_def owner_init_def
      intro!: event_invI)
    (auto simp: waits_of_def event_ids_def events_at_def owner_inv_def)

lemma worker_reachable_inv: "worker_reachable w \<Longrightarrow> worker_inv w"
  by (induction rule: worker_reachable.induct)
    (auto intro: worker_init_inv members_init_store worker_step_inv)

end
