(* ===== verification/Swim_Worker_Props.thy ===== *)
theory Swim_Worker_Props
  imports Swim_Worker_Inv
begin

text \<open>
  The properties of the worker: what it answers to each packet, what a failure check concludes
  from the packets that were handled while it waited, what the suspicion timers do to the members,
  and when one of the loops of \<open>run\<close> ends.
\<close>

text \<open>A concrete worker for the examples below.\<close>

definition demo_worker :: "string list \<Rightarrow> worker" where
  "demo_worker peers = worker_init 1 (demo_members peers)"

lemma demo_worker_reachable: "worker_reachable (demo_worker peers)"
  unfolding demo_worker_def by (rule worker_start [OF demo_members_init])

lemma worker_run_steps:
  "worker_reachable w \<Longrightarrow> \<forall>ev \<in> set evs. event_ok ev \<Longrightarrow> worker_steps evs w = Some w' \<Longrightarrow>
     worker_reachable w'"
  by (induction evs arbitrary: w) (auto intro: worker_run split: option.splits)

lemma demo_worker_fields [simp]:
  "w_members (demo_worker peers) = demo_members peers" "w_recv_queue (demo_worker peers) = []"
  "w_send_queue (demo_worker peers) = []" "w_waiting (demo_worker peers) = []"
  "w_listening (demo_worker peers) = []" "w_suspect (demo_worker peers) = []"
  "w_timers (demo_worker peers) = []" "w_next (demo_worker peers) = 0"
  "w_owner (demo_worker peers) = owner_init" "w_failed (demo_worker peers) = []"
  "w_ping_req_count (demo_worker peers) = 1"
  by (simp_all add: demo_worker_def worker_init_def)

text \<open>The worker with one packet in its receive queue.\<close>

definition demo_received :: "string list \<Rightarrow> packet \<Rightarrow> worker" where
  "demo_received peers p = (demo_worker peers)\<lparr>w_recv_queue := [p]\<rparr>"

lemma demo_received_reachable: "packet_ok p \<Longrightarrow> worker_reachable (demo_received peers p)"
  by (rule worker_run [OF demo_worker_reachable, of "Receive p"])
    (simp_all add: worker_step_def demo_received_def)

subsection \<open>The invariant\<close>

text \<open>
  C2: In every state of a run: whatever is in the send queue is addressed to a member that exists;
  the subtasks work on members that exist; the entries of \<open>_suspect\<close> are exactly the running
  timers; every suspended wait owns one event, which is registered under its target and is shared
  with no other wait; and the member manager keeps its invariant.
\<close>

theorem worker_invariant:
  assumes "worker_reachable w"
  shows "members_inv (w_members w) \<and>
    (\<forall>(t, p) \<in> set (w_send_queue w). known (w_members w) t) \<and>
    (\<forall>i s n. map_of (running (w_owner w)) i = Some s \<and> n \<in> subtask_refs s \<longrightarrow> known (w_members w) n) \<and>
    (\<forall>t i. (map_of (w_suspect w) t = Some i) = (map_of (w_timers w) i = Some t)) \<and>
    (\<forall>i j t u e. waits_of w i = Some (t, e) \<longrightarrow> e \<in> fst ` set (events_at t w) \<and>
       (waits_of w j = Some (u, e) \<longrightarrow> j = i))"
proof (intro conjI)
  have inv: "worker_inv w" using assms by (rule worker_reachable_inv)
  show "members_inv (w_members w)" using worker_invD(6) [OF inv] by (simp add: store_inv_def)
  show "\<forall>(t, p) \<in> set (w_send_queue w). known (w_members w) t"
    using worker_invD(7) [OF inv] by (force simp: worker_refs_def queue_refs_def)
  show "\<forall>i s n. map_of (running (w_owner w)) i = Some s \<and> n \<in> subtask_refs s \<longrightarrow> known (w_members w) n"
    using task_target_known [OF inv] by blast
  show "\<forall>t i. (map_of (w_suspect w) t = Some i) = (map_of (w_timers w) i = Some t)"
    using worker_invD(2) [OF inv] by (simp add: timers_inv_def)
  show "\<forall>i j t u e. waits_of w i = Some (t, e) \<longrightarrow> e \<in> fst ` set (events_at t w) \<and>
      (waits_of w j = Some (u, e) \<longrightarrow> j = i)"
    using event_invD [OF worker_invD(3) [OF inv]] unfolding event_ids_def by blast
qed

theorem worker_invariant_witness:
  "worker_reachable (demo_received [''a''] (Ack \<lparr>src_name = ''b'', src_validity = []\<rparr>)) \<and>
   members_inv (w_members (demo_received [''a''] (Ack \<lparr>src_name = ''b'', src_validity = []\<rparr>)))"
  using worker_invariant [OF demo_received_reachable [of "Ack \<lparr>src_name = ''b'', src_validity = []\<rparr>" "[''a'']"]]
    demo_received_reachable [of "Ack \<lparr>src_name = ''b'', src_validity = []\<rparr>" "[''a'']"]
  by simp

subsection \<open>The answers of the handler\<close>

lemma get_source_local:
  assumes "members_inv ms"
  shows "source_at (members_get rnd now n v ms) (ms_local ms) = source_at ms (ms_local ms)"
proof -
  obtain m where m: "map_of (ms_members ms) (ms_local ms) = Some m"
    using members_invD(6) [OF assms, of "ms_local ms"] by auto
  then have "m_local m" using members_invD(2) [OF assms m] by simp
  with m show ?thesis
    by (auto simp: source_at_def members_get_lookup member_source_def check_validity_def split: option.split)
qed

lemma get_source:
  assumes "members_inv ms" and "n \<noteq> ms_local ms"
  shows "source_at (members_get rnd now n (Some v) ms) n = \<lparr>src_name = n, src_validity = v\<rparr>"
  using assms members_invD(1,2) [OF assms(1), of n]
  by (cases "map_of (ms_members ms) n")
    (auto simp: source_at_def members_get_lookup member_source_def check_validity_def member_init_def)

lemma apply_source:
  assumes inv: "members_inv ms" and "settable (Some st)"
  shows "source_at (snd (members_apply now n source clock st md ms)) k = source_at ms k"
  unfolding members_apply_def
proof (rule update_common_cases [OF inv assms(2), of now n "Some source" clock md])
  fix m
  assume m: "map_of (ms_members ms) n = Some m"
    and eq: "snd (update_common now n (Some source) clock (Some st) md ms) =
      update_changed n (changed now (Some source) clock (ms_next_clock ms) (Some st) md m) ms"
  show "source_at (snd (update_common now n (Some source) clock (Some st) md ms)) k = source_at ms k"
    using m changed_settled [OF members_invD(3) [OF inv m]]
    by (simp add: eq source_at_def update_changed_lookup [OF inv] member_source_def)
qed simp

lemma greeted_send_queue:
  assumes "members_inv (w_members w)" and "src_name src \<noteq> ms_local (w_members w)"
  shows "w_send_queue (greeted rnd now src w) =
    w_send_queue w @ map (\<lambda>t. (t, Ack src)) (listeners_of (src_name src) w)"
  using get_source [OF assms] by (simp add: greeted_def Let_def)

lemma handler_turn_run:
  assumes "loop_runs Handler w" and "w_recv_queue w = p # q"
  shows "handler_turn rnd now w =
    Some (loop_fails Handler (handle_packet rnd now p (w\<lparr>w_recv_queue := q\<rparr>)))"
  using assms by (simp add: handler_turn_def)

text \<open>
  C15: Every packet from another member is answered, and only so: the members that had sent a
  ping-req for its source are each sent one acknowledgement in the name of that source, in order;
  then a ping is answered with an acknowledgement, a ping-req with a ping of its target, a gossip
  with an acknowledgement of exactly its name and clock (whether or not the gossip was accepted),
  and the other packets with nothing. The loop goes on unless the packet acknowledges gossip
  above the next clock.
\<close>

theorem handler_replies:
  assumes "worker_reachable w" and "loop_runs Handler w" and "w_recv_queue w = p # q"
    and "src_name (packet_source p) \<noteq> ms_local (w_members w)"
  shows "\<exists>w'. handler_turn rnd now w = Some w' \<and> w_recv_queue w' = q \<and>
    w_send_queue w' = w_send_queue w @
      map (\<lambda>t. (t, Ack (packet_source p))) (listeners_of (src_name (packet_source p)) w) @
      (let n = src_name (packet_source p);
           local = source_at (w_members w) (ms_local (w_members w))
       in case p of
            Ping _ \<Rightarrow> [(n, Ack local)]
          | PingReq _ target \<Rightarrow> [(target, Ping local)]
          | Ack _ \<Rightarrow> []
          | Gossip _ name clock _ _ \<Rightarrow> [(n, GossipAck local name clock)]
          | GossipAck _ _ _ \<Rightarrow> []) \<and>
    w_failed w' = w_failed w @
      (case p of
         GossipAck _ _ clock \<Rightarrow>
           if clock \<le> ms_next_clock (w_members w) then [] else [(Handler, AssertionError)]
       | _ \<Rightarrow> [])"
proof -
  have winv: "worker_inv w" using assms(1) by (rule worker_reachable_inv)
  have st: "store_inv (w_members w)" and mi: "members_inv (w_members w)"
    using worker_invD(6) [OF winv] by (auto simp: store_inv_def)
  let ?w = "w\<lparr>w_recv_queue := q\<rparr>" and ?l = "ms_local (w_members w)"
  let ?g = "greeted rnd now (packet_source p) ?w" and ?n = "src_name (packet_source p)"
  have lst: "listeners_of ?n ?w = listeners_of ?n w" by (simp add: listeners_of_def)
  have sq: "w_send_queue ?g =
      w_send_queue w @ map (\<lambda>t. (t, Ack (packet_source p))) (listeners_of ?n w)"
    using greeted_send_queue [of ?w "packet_source p" rnd now] mi assms(4) lst by simp
  have gst: "store_inv (w_members ?g)" and gl: "ms_local (w_members ?g) = ?l"
    using st by (simp_all add: store.lookup_invar store.lookup_local)
  have gmi: "members_inv (w_members ?g)" using gst by (simp add: store_inv_def)
  have gs: "source_at (w_members ?g) ?l = source_at (w_members w) ?l"
    using get_source_local [OF mi] by simp
  have nc: "ms_next_clock (w_members ?g) = ms_next_clock (w_members w)"
    by (simp add: members_get_fields)
  note turn = handler_turn_run [OF assms(2,3), of rnd now]
  show ?thesis
  proof (cases p)
    case (Ping src)
    with turn st sq gs gl show ?thesis
      by (simp add: handle_Ping Let_def loop_fails_def reply_def del: greeted_fields(1))
  next
    case (PingReq src t)
    have "source_at (members_get (rnd t) now t None (w_members ?g)) ?l = source_at (w_members w) ?l"
      using get_source_local [OF gmi, of "rnd t" now t None] gl gs by simp
    moreover have "ms_local (members_get (rnd t) now t None (w_members ?g)) = ?l"
      using gst gl by (simp add: store.lookup_local del: greeted_fields(1))
    ultimately show ?thesis
      using PingReq turn st sq
      by (simp add: handle_PingReq Let_def loop_fails_def relayed_def reply_def del: greeted_fields(1))
  next
    case (Ack src)
    with turn sq show ?thesis by (simp add: handle_Ack loop_fails_def)
  next
    case (Gossip src name clock sta md)
    then have set: "settable (Some sta)" using worker_invD(5) [OF winv, of p] assms(3) by simp
    let ?m = "members_get (rnd name) now name None (w_members ?g)"
    let ?r = "snd (members_apply now name ?n clock sta md ?m)"
    have mst: "store_inv ?m" and ml: "ms_local ?m = ?l"
      using gst gl by (simp_all add: store.lookup_invar store.lookup_local del: greeted_fields(1))
    have "source_at ?r ?l = source_at (w_members w) ?l"
      using apply_source [OF _ set, of ?m] mst get_source_local [OF gmi, of "rnd name" now name None] gl gs
      by (simp add: store_inv_def del: greeted_fields(1))
    moreover have "ms_local ?r = ?l" using mst set ml by (simp add: store.gossip_local)
    ultimately show ?thesis
      using Gossip turn st set sq
      by (simp add: handle_Gossip Let_def loop_fails_def gossiped_def reply_def del: greeted_fields(1))
  next
    case (GossipAck src name clock)
    let ?m = "members_get (rnd name) now name None (w_members ?g)"
    have "known ?m ?n" using gst greeted_known by (simp add: store.lookup_knows del: greeted_fields(1))
    then obtain e where "map_of (ms_members ?m) ?n = Some e" by (auto simp: known_def)
    moreover have "ms_next_clock ?m = ms_next_clock (w_members w)" by (simp add: members_get_fields)
    ultimately show ?thesis
      using GossipAck turn sq
      by (simp add: handle_GossipAck Let_def loop_fails_def ack_gossip_run del: greeted_fields(1))
  qed
qed

theorem handler_replies_witness:
  "\<exists>w'. handler_turn (\<lambda>_. []) 5 (demo_received [''a''] (Ping \<lparr>src_name = ''a'', src_validity = [9]\<rparr>)) = Some w' \<and>
    w_send_queue w' = [(''a'', Ack (source_at (demo_members [''a'']) ''me''))] \<and> w_failed w' = []"
proof -
  let ?p = "Ping \<lparr>src_name = ''a'', src_validity = [9]\<rparr>"
  have "loop_runs Handler (demo_received [''a''] ?p)" "w_recv_queue (demo_received [''a''] ?p) = [?p]"
    by (simp_all add: demo_received_def loop_runs_def)
  from handler_replies [OF demo_received_reachable this, of "\<lambda>_. []" 5] show ?thesis
    by (auto simp: demo_received_def demo_fields listeners_of_def Let_def)
qed

text \<open>What the handling of a packet leaves alone.\<close>

lemma handle_fields:
  assumes "worker_inv w" and "packet_ok p"
  shows "w_owner (snd (handle_packet rnd now p w)) = w_owner w"
    and "w_failed (snd (handle_packet rnd now p w)) = w_failed w"
    and "w_recv_queue (snd (handle_packet rnd now p w)) = w_recv_queue w"
    and "w_waiting (snd (handle_packet rnd now p w)) = waits_notified (src_name (packet_source p)) w"
  using assms worker_invD(6) [OF assms(1)]
  by (cases p; simp add: handle_runs Let_def reply_def relayed_def gossiped_def)+

lemma loop_fails_fields [simp]:
  "w_owner (loop_fails l r) = w_owner (snd r)" "w_waiting (loop_fails l r) = w_waiting (snd r)"
  "w_recv_queue (loop_fails l r) = w_recv_queue (snd r)" "w_members (loop_fails l r) = w_members (snd r)"
  "w_suspect (loop_fails l r) = w_suspect (snd r)" "w_timers (loop_fails l r) = w_timers (snd r)"
  "w_send_queue (loop_fails l r) = w_send_queue (snd r)" "w_listening (loop_fails l r) = w_listening (snd r)"
  by (auto simp: loop_fails_def split: prod.split sum.split)

lemma loop_fails_keeps:
  "map_of (w_failed (snd r)) k = Some e \<Longrightarrow> map_of (w_failed (loop_fails l r)) k = Some e"
  by (cases r; cases "fst r") (auto simp: loop_fails_def)

text \<open>A loop that has ended stays ended; what a step takes from the receive queue.\<close>

lemma concluded_fields [simp]:
  "w_owner (concluded t st now w) = w_owner w" "w_waiting (concluded t st now w) = w_waiting w"
  "w_recv_queue (concluded t st now w) = w_recv_queue w" "w_failed (concluded t st now w) = w_failed w"
  "w_members (concluded t st now w) = snd (members_update now t (Some st) None (w_members w))"
  by (simp_all add: concluded_def)

lemma wait_begin_fields [simp]:
  "w_recv_queue (wait_begin i t s w) = w_recv_queue w" "w_failed (wait_begin i t s w) = w_failed w"
  "w_members (wait_begin i t s w) = w_members w"
  by (simp_all add: wait_begin_run)

lemma spawn_all_fields [simp]:
  "w_recv_queue (fold (\<lambda>t. spawn (s t)) ts w) = w_recv_queue w"
  "w_failed (fold (\<lambda>t. spawn (s t)) ts w) = w_failed w"
  "w_waiting (fold (\<lambda>t. spawn (s t)) ts w) = w_waiting w"
  "w_members (fold (\<lambda>t. spawn (s t)) ts w) = w_members w"
  by (induction ts arbitrary: w) simp_all

lemma subtask_turn_fields:
  assumes inv: "worker_inv w" and "subtask_turn i draws now w = Some w'"
  shows "w_failed w' = w_failed w \<and> w_recv_queue w' = w_recv_queue w"
proof -
  obtain s where s: "map_of (running (w_owner w)) i = Some s"
    using assms(2) by (cases "map_of (running (w_owner w)) i") (simp_all add: subtask_turn_def)
  show ?thesis
  proof (cases s)
    case (Check_start t)
    with s assms show ?thesis
      by (auto simp: subtask_turn_def check_begin_def Let_def send_from_local [OF inv])
  next
    case (Check_ping t e)
    obtain online w1 where we: "wait_end t e w = (online, w1)" by (cases "wait_end t e w")
    then have "w1 = snd (wait_end t e w)" by simp
    then have "w_failed w1 = w_failed w" "w_recv_queue w1 = w_recv_queue w" by simp_all
    with Check_ping s assms we show ?thesis
      by (auto simp: subtask_turn_def check_pinged_def check_finish_run
          split: bool.splits option.splits sum.splits)
  next
    case (Check_sending t ns)
    with s assms show ?thesis
      using send_from_local [OF inv, of _ "\<lambda>src. PingReq src t"]
      by (auto simp: subtask_turn_def check_send_def Let_def split: list.splits)
  next
    case (Check_ping_req t e)
    obtain online w1 where we: "wait_end t e w = (online, w1)" by (cases "wait_end t e w")
    then have "w1 = snd (wait_end t e w)" by simp
    then have "w_failed w1 = w_failed w" "w_recv_queue w1 = w_recv_queue w" by simp_all
    with Check_ping_req s assms we show ?thesis
      by (auto simp: subtask_turn_def check_requested_def check_finish_run)
  next
    case (Disseminate_start t)
    with s assms show ?thesis
      by (auto simp: subtask_turn_def disseminate_run [OF worker_invD(6) [OF inv]])
  qed
qed

lemma worker_step_dead:
  assumes inv: "worker_inv w" and dead: "map_of (w_failed w) Handler = Some err"
    and run: "worker_step ev w = Some w'"
  shows "map_of (w_failed w') Handler = Some err \<and>
    w_recv_queue w' = w_recv_queue w @ (case ev of Receive p \<Rightarrow> [p] | _ \<Rightarrow> [])"
proof (cases ev)
  case (Handle rnd now)
  with run dead show ?thesis by (simp add: worker_step_def handler_turn_def loop_runs_def)
next
  case (Detect draws)
  have "detection_turn draws w = Some w'" using Detect run by (simp add: worker_step_def)
  then show ?thesis
    using Detect dead
    by (auto simp: detection_turn_def py_seq_def py_bind_def split: if_splits option.splits sum.splits
        intro!: loop_fails_keeps)
next
  case (Gossip_round draws)
  have "dissemination_turn draws w = Some w'" using Gossip_round run by (simp add: worker_step_def)
  then show ?thesis
    using Gossip_round dead
    by (auto simp: dissemination_turn_def split: if_splits option.splits sum.splits intro!: loop_fails_keeps)
next
  case (Resume i draws now)
  with run dead subtask_turn_fields [OF inv, of i draws now w'] show ?thesis
    by (simp add: worker_step_def)
next
  case (Expire i now)
  with run dead show ?thesis
    by (auto simp: worker_step_def suspect_expire_def py_seq_def py_bind_def with_members_run
        split: option.splits sum.splits)
qed (use run dead in \<open>auto simp: worker_step_def with_members_run split: list.splits\<close>)

definition received :: "worker_event list \<Rightarrow> packet list" where
  "received evs = concat (map (\<lambda>ev. case ev of Receive p \<Rightarrow> [p] | _ \<Rightarrow> []) evs)"

lemma worker_steps_dead:
  assumes "worker_inv w" and "map_of (w_failed w) Handler = Some err"
    and "\<forall>ev \<in> set evs. event_ok ev" and "worker_steps evs w = Some w'"
  shows "map_of (w_failed w') Handler = Some err \<and> w_recv_queue w' = w_recv_queue w @ received evs"
  using assms
proof (induction evs arbitrary: w)
  case Nil
  then show ?case by (simp add: received_def)
next
  case (Cons ev evs)
  obtain w1 where w1: "worker_step ev w = Some w1" "worker_steps evs w1 = Some w'"
    using Cons.prems(4) by (auto split: option.splits)
  have "worker_inv w1" using Cons.prems(1,3) w1(1) by (auto intro: worker_step_inv)
  with Cons.IH [of w1] worker_step_dead [OF Cons.prems(1,2) w1(1)] Cons.prems(3) w1(2) show ?case
    by (simp add: received_def)
qed

text \<open>
  C37: One acknowledgement above the next clock, as arrives after a restart for gossip sent before
  it, ends the handler for good: \<open>AssertionError\<close> is the result of \<open>run\<close> unless another loop
  had failed before, the detection and dissemination loops are not ended, and whatever happens
  afterwards, no packet received is ever taken from the queue again.
\<close>

theorem late_ack_ends_handler:
  assumes "worker_reachable w" and "loop_runs Handler w"
    and "w_recv_queue w = GossipAck src name clock # q"
    and "ms_next_clock (w_members w) < clock" and "src_name src \<noteq> ms_local (w_members w)"
  shows "\<exists>w'. handler_turn rnd now w = Some w' \<and>
    w_failed w' = w_failed w @ [(Handler, AssertionError)] \<and>
    (w_failed w = [] \<longrightarrow> run_result w' = Some AssertionError \<and>
       loop_runs Detection w' \<and> loop_runs Dissemination w') \<and>
    (\<forall>evs w''. (\<forall>ev \<in> set evs. event_ok ev) \<and> worker_steps evs w' = Some w'' \<longrightarrow>
       w_recv_queue w'' = q @ received evs)"
proof -
  have inv: "worker_inv w" using assms(1) by (rule worker_reachable_inv)
  have st: "store_inv (w_members w)" using inv by (rule worker_invD)
  let ?p = "GossipAck src name clock" and ?w = "w\<lparr>w_recv_queue := q\<rparr>"
  have inv': "worker_inv ?w" using worker_inv_queues(2) [OF inv assms(3)] .
  let ?r = "handle_packet rnd now ?p ?w"
  let ?g = "greeted rnd now src ?w"
  let ?m = "members_get (rnd name) now name None (w_members ?g)"
  have "store_inv (w_members ?g)" using st by (simp add: store.lookup_invar)
  then have "known ?m (src_name src)"
    using greeted_known [of rnd now src ?w] by (simp add: store.lookup_knows del: greeted_fields(1))
  then obtain e where "map_of (ms_members ?m) (src_name src) = Some e" by (auto simp: known_def)
  then have r: "fst ?r = Inl AssertionError"
    using assms(4) by (simp add: handle_GossipAck Let_def ack_gossip_run members_get_fields del: greeted_fields(1))
      (simp add: members_get_fields)
  let ?w' = "loop_fails Handler ?r"
  have turn: "handler_turn rnd now w = Some ?w'" using assms(2,3) by (simp add: handler_turn_run)
  have f: "w_failed ?w' = w_failed w @ [(Handler, AssertionError)]"
    using r handle_fields(2) [OF inv', of ?p rnd now] by (cases ?r) (auto simp: loop_fails_def)
  have dead: "map_of (w_failed ?w') Handler = Some AssertionError"
    using assms(2) f by (simp add: loop_runs_def map_add_def)
  have q: "w_recv_queue ?w' = q" using handle_fields(3) [OF inv', of ?p] by simp
  have "worker_inv ?w'" using handler_turn_inv [OF inv turn] .
  then have "w_recv_queue w'' = q @ received evs"
    if "\<forall>ev \<in> set evs. event_ok ev" "worker_steps evs ?w' = Some w''" for evs w''
    using worker_steps_dead [OF _ dead that] q by simp
  moreover have "run_result ?w' = Some AssertionError \<and> loop_runs Detection ?w' \<and>
      loop_runs Dissemination ?w'" if "w_failed w = []"
    using that f by (simp add: run_result_def loop_runs_def)
  ultimately show ?thesis using turn f by (intro exI [of _ ?w'] conjI allI impI) auto
qed

theorem late_ack_ends_handler_witness:
  "\<exists>w'. handler_turn (\<lambda>_. []) 5
      (demo_received [''a''] (GossipAck \<lparr>src_name = ''a'', src_validity = [9]\<rparr> ''me'' 100)) = Some w' \<and>
    w_failed w' = [(Handler, AssertionError)] \<and> run_result w' = Some AssertionError"
proof -
  let ?p = "GossipAck \<lparr>src_name = ''a'', src_validity = [9]\<rparr> ''me'' 100"
  have "loop_runs Handler (demo_received [''a''] ?p)" "w_recv_queue (demo_received [''a''] ?p) = [?p]"
    by (simp_all add: demo_received_def loop_runs_def)
  from late_ack_ends_handler [OF demo_received_reachable this, of "\<lambda>_. []" 5] show ?thesis
    by (auto simp: demo_received_def demo_fields)
qed

end
