(* ===== verification/Swim_Worker_Table.thy ===== *)
theory Swim_Worker_Table
  imports Swim_Worker_Props
begin

text \<open>
  What a step of the worker does to its table of members and to its send queue, whatever the
  event: the table changes by the operations of \<open>Members\<close> only, so that a property that these
  keep is kept by every step, and a packet that is sent is a ping, a ping-req, an
  acknowledgement of a ping, the gossip about an entry of the table, or the acknowledgement of the
  gossip just handled.
\<close>

subsection \<open>The turns of a subtask\<close>

text \<open>The packets that carry no clock, and those that a worker makes of its table.\<close>

definition plain :: "packet \<Rightarrow> bool" where
  "plain p \<longleftrightarrow> (case p of Gossip _ _ _ _ _ \<Rightarrow> False | GossipAck _ _ _ \<Rightarrow> False | _ \<Rightarrow> True)"

lemma plain_simps [simp]:
  "plain (Ping s)" "plain (PingReq s t)" "plain (Ack s)" "\<not> plain (Gossip s n c st md)" "\<not> plain (GossipAck s n c)"
  by (simp_all add: plain_def)

lemma plain_gossip [simp]: "\<not> plain (gossip_packet ms n)"
  by (simp add: gossip_packet_def Let_def)

definition issued :: "members \<Rightarrow> packet \<Rightarrow> bool" where
  "issued ms p \<longleftrightarrow> plain p \<or> (\<exists>n. known ms n \<and> p = gossip_packet ms n)"

lemma issued_plain [simp]: "plain p \<Longrightarrow> issued ms p"
  by (simp add: issued_def)

definition names_known :: "members \<Rightarrow> packet \<Rightarrow> bool" where
  "names_known ms p \<longleftrightarrow> (\<forall>n \<in> packet_names p. known ms n)"

text \<open>
  One turn of a subtask: the table stays, or one member is declared online or suspect; what is
  sent was issued from the table and names members of it; the members that wait for an answer stay.
\<close>

definition turned :: "int \<Rightarrow> worker \<Rightarrow> worker \<Rightarrow> bool" where
  "turned now w w' \<longleftrightarrow>
     (w_members w' = w_members w \<or>
        (\<exists>t st. st \<in> {ONLINE, SUSPECT} \<and> w_members w' = snd (members_update now t (Some st) None (w_members w)))) \<and>
     (\<forall>x \<in> set (w_send_queue w'). x \<in> set (w_send_queue w) \<or>
        issued (w_members w) (snd x) \<and> names_known (w_members w) (snd x)) \<and>
     w_listening w' = w_listening w"

lemma turn_queues [simp]:
  "w_send_queue (wait_begin i t s w) = w_send_queue w" "w_listening (wait_begin i t s w) = w_listening w"
  "w_send_queue (concluded t st now w) = w_send_queue w" "w_listening (concluded t st now w) = w_listening w"
  "w_listening (spawn u w) = w_listening w"
  by (simp_all add: wait_begin_run concluded_def spawn_def)

lemma fold_spawn_queues [simp]:
  "w_send_queue (fold (\<lambda>t. spawn (k t)) ts w) = w_send_queue w"
  "w_listening (fold (\<lambda>t. spawn (k t)) ts w) = w_listening w"
  by (induction ts arbitrary: w) simp_all

lemma reply_send_queue [simp]: "w_send_queue (reply t p w) = w_send_queue w @ [(t, p)]"
  by (simp add: reply_def)

lemma turned_same: "w_members w' = w_members w \<Longrightarrow> w_send_queue w' = w_send_queue w \<Longrightarrow>
    w_listening w' = w_listening w \<Longrightarrow> turned now w w'"
  by (simp add: turned_def)

lemma check_finish_turned:
  assumes "w_members v = w_members w" and "w_send_queue v = w_send_queue w" and "w_listening v = w_listening w"
  shows "turned now w (check_finish i t online now v)"
  unfolding turned_def check_finish_run by (auto simp: assms)

lemma wait_end_same:
  assumes "wait_end t e w = (online, v)"
  shows "w_members v = w_members w" and "w_send_queue v = w_send_queue w" and "w_listening v = w_listening w"
  using assms wait_end_fields(1,2,7) [of t e w] by simp_all

lemma local_source_name:
  "store_inv ms \<Longrightarrow> src_name (source_at ms (ms_local ms)) = ms_local ms"
  by (simp add: source_at_name store.knows_local)

lemma gossip_packet_names:
  assumes "store_inv ms" and "known ms n"
  shows "names_known ms (gossip_packet ms n)"
proof -
  obtain m where m: "map_of (ms_members ms) n = Some m" using assms(2) by (auto simp: known_def)
  have "members_inv ms" using assms(1) by (simp add: store_inv_def)
  then have "m_name m = n" using m by (rule members_invD)
  then show ?thesis
    using assms m by (simp add: names_known_def gossip_packet_def Let_def local_source_name store.knows_local)
qed

lemma subtask_turned:
  assumes inv: "worker_inv w" and run: "subtask_turn i draws now w = Some w'"
  shows "turned now w w'"
proof -
  obtain s where s: "map_of (running (w_owner w)) i = Some s"
    using run by (cases "map_of (running (w_owner w)) i") (simp_all add: subtask_turn_def)
  have known: "known (w_members w) n" if "n \<in> subtask_refs s" for n
    using inv s that by (rule task_target_known)
  note st = worker_invD(6) [OF inv]
  note names = names_known_def local_source_name [OF st] store.knows_local [OF st]
  show ?thesis
  proof (cases s)
    case (Check_start t)
    with s run show ?thesis
      by (auto simp: subtask_turn_def check_begin_def Let_def send_from_local [OF inv] turned_def names)
  next
    case (Check_ping t e)
    obtain online v where e: "wait_end t e w = (online, v)" by (cases "wait_end t e w")
    note same = wait_end_same [OF e]
    have "turned now w (finish i v)" "turned now w (suspend_at i u v)" for u
      using same by (simp_all add: turned_same)
    with Check_ping s run e check_finish_turned [OF same] show ?thesis
      by (auto simp: subtask_turn_def check_pinged_def split: bool.splits option.splits sum.splits if_splits)
  next
    case (Check_sending t ns)
    with s run show ?thesis
      using send_from_local [OF inv, of _ "\<lambda>src. PingReq src t"] known
      by (auto simp: subtask_turn_def check_send_def Let_def turned_def names split: list.splits)
  next
    case (Check_ping_req t e)
    obtain online v where e: "wait_end t e w = (online, v)" by (cases "wait_end t e w")
    with Check_ping_req s run check_finish_turned [OF wait_end_same [OF e]] show ?thesis
      by (auto simp: subtask_turn_def check_requested_def)
  next
    case (Disseminate_start t)
    have "issued (w_members w) (gossip_packet (w_members w) n)" "names_known (w_members w) (gossip_packet (w_members w) n)"
      if "n \<in> set (get_gossip t (w_members w))" for n
      using get_gossip_known [OF that] gossip_packet_names [OF st] by (auto simp: issued_def)
    with Disseminate_start s run show ?thesis
      by (auto simp: subtask_turn_def disseminate_run [OF worker_invD(6) [OF inv]] turned_def)
  qed
qed

subsection \<open>Properties of the table that the operations keep\<close>

text \<open>
  \<open>told n md\<close> says which metadata gossip about \<open>n\<close> may carry, and \<open>own n md\<close> which the
  application may set when \<open>n\<close> is the local member.
\<close>

locale table_property =
  fixes good :: "members \<Rightarrow> bool"
    and told :: "string \<Rightarrow> metadata option \<Rightarrow> bool"
    and own :: "string \<Rightarrow> metadata \<Rightarrow> bool"
  assumes get_good: "store_inv ms \<Longrightarrow> good ms \<Longrightarrow> good (members_get rnd now n v ms)"
    and status_good:
      "store_inv ms \<Longrightarrow> good ms \<Longrightarrow> settable (Some st) \<Longrightarrow> good (snd (members_update now n (Some st) None ms))"
    and metadata_good:
      "store_inv ms \<Longrightarrow> good ms \<Longrightarrow> own (ms_local ms) d \<Longrightarrow>
         good (snd (members_update now (ms_local ms) None (Some d) ms))"
    and apply_good:
      "store_inv ms \<Longrightarrow> good ms \<Longrightarrow> settable (Some st) \<Longrightarrow> told n md \<Longrightarrow>
         good (snd (members_apply now n source clock st md ms))"
    and ack_good: "store_inv ms \<Longrightarrow> good ms \<Longrightarrow> good (snd (ack_gossip n source clock ms))"
begin

definition told_packet :: "packet \<Rightarrow> bool" where
  "told_packet p \<longleftrightarrow> (case p of Gossip _ n _ _ md \<Rightarrow> told n md | _ \<Rightarrow> True)"

lemma handle_good:
  assumes "worker_inv w" and "packet_ok p" and "told_packet p" and "good (w_members w)"
  shows "good (w_members (snd (handle_packet rnd now p w)))"
proof -
  have st: "store_inv (w_members w)" using assms(1) by (rule worker_invD)
  let ?g = "w_members (greeted rnd now (packet_source p) w)"
  have g: "store_inv ?g" "good ?g" using st assms(4) by (simp_all add: store.lookup_invar get_good)
  have l: "store_inv (members_get r now n v ?g)" "good (members_get r now n v ?g)" for r n v
    using g by (simp_all add: store.lookup_invar get_good del: greeted_fields(1))
  show ?thesis
    using assms(2,3) st g l
    by (cases p; simp add: handle_runs Let_def reply_def relayed_def gossiped_def apply_good ack_good
        told_packet_def del: greeted_fields(1))
qed

lemma turned_good: "worker_inv w \<Longrightarrow> turned now w w' \<Longrightarrow> good (w_members w) \<Longrightarrow> good (w_members w')"
  unfolding turned_def by (auto dest: worker_invD(6) intro!: status_good)

lemma step_good:
  assumes inv: "worker_inv w" and run: "worker_step ev w = Some w'" and good: "good (w_members w)"
    and told: "\<And>p q. w_recv_queue w = p # q \<Longrightarrow> told_packet p"
    and own: "\<And>md now. ev = Set_metadata md now \<Longrightarrow> own (ms_local (w_members w)) md"
  shows "good (w_members w')"
proof (cases ev)
  case (Handle rnd now)
  then obtain p q where q: "w_recv_queue w = p # q"
    and w': "w' = loop_fails Handler (handle_packet rnd now p (w\<lparr>w_recv_queue := q\<rparr>))"
    using run by (auto simp: worker_step_def handler_turn_def split: if_splits list.splits)
  have "packet_ok p" using worker_invD(5) [OF inv] q by simp
  with handle_good [OF worker_inv_queues(2) [OF inv q] _ told [OF q]] good show ?thesis by (simp add: w')
next
  case (Resume j draws now)
  then have "turned now w w'" using run by (intro subtask_turned [OF inv]) (simp add: worker_step_def)
  with inv show ?thesis using good by (rule turned_good)
next
  case (Expire j now)
  then have "suspect_expire j now w = Some w'" using run by (simp add: worker_step_def)
  from suspect_expire_inv(2) [OF inv this]
  obtain t where "w_members w' = snd (members_update now t (Some OFFLINE) None (w_members w))" by blast
  then show ?thesis using worker_invD(6) [OF inv] good by (simp add: status_good)
next
  case (Set_metadata md now)
  then show ?thesis
    using run worker_invD(6) [OF inv] good own by (auto simp: worker_step_def with_members_run metadata_good)
qed (use run good in \<open>auto simp: worker_step_def detection_turn_def dissemination_turn_def py_seq_def py_bind_def
    split: list.splits if_splits option.splits sum.splits\<close>)

end

subsection \<open>Instances\<close>

lemma update_common_keeps:
  assumes "store_inv ms" and "settable st" and "good ms"
    and "\<And>m. map_of (ms_members ms) n = Some m \<Longrightarrow>
      good (update_changed n (changed now source clock (ms_next_clock ms) st md m) ms)"
  shows "good (snd (update_common now n source clock st md ms))"
proof -
  have inv: "members_inv ms" using assms(1) by (simp add: store_inv_def)
  show ?thesis
    by (rule update_common_cases [OF inv assms(2), of now n source clock md]) (use assms(3,4) in auto)
qed

lemma ack_gossip_keeps:
  assumes "good ms"
    and "\<And>m. map_of (ms_members ms) source = Some m \<Longrightarrow>
      good (put_member source (m\<lparr>m_known_clocks := AList.update n clock (m_known_clocks m)\<rparr>) ms)"
  shows "good (snd (ack_gossip n source clock ms))"
  using assms by (cases "map_of (ms_members ms) source")
    (auto simp: ack_gossip_run ack_gossip_def py_bind_def py_seq_def on_member_def)

text \<open>The local member stays the same, and the next clock does not go back.\<close>

interpretation local_kept: table_property "\<lambda>ms. ms_local ms = l" "\<lambda>n md. True" "\<lambda>n md. True" for l
  by standard (simp_all add: store.lookup_local store.change_local store.gossip_local store.ack_local)

lemma update_changed_next:
  "store_inv ms \<Longrightarrow> ms_next_clock (update_changed n m ms) = max (ms_next_clock ms) (m_clock m + 1)"
  by (simp add: update_changed_fields members_invD(9) store_inv_def)

interpretation clock_kept: table_property "\<lambda>ms. c \<le> ms_next_clock ms" "\<lambda>n md. True" "\<lambda>n md. True" for c
proof
  fix ms :: members and rnd :: bytes and now clock :: int and n source :: string and v :: "bytes option"
    and st :: status and md :: "metadata option" and d :: metadata
  assume inv: "store_inv ms" and c: "c \<le> ms_next_clock ms"
  show "c \<le> ms_next_clock (members_get rnd now n v ms)" using c by (simp add: members_get_fields)
  have u: "c \<le> ms_next_clock (snd (update_common now n src k s m ms))" if "settable s" for n src k s m
    using inv that c by (rule update_common_keeps) (simp add: update_changed_next [OF inv] c max.coboundedI1)
  show "settable (Some st) \<Longrightarrow> c \<le> ms_next_clock (snd (members_update now n (Some st) None ms))"
    "c \<le> ms_next_clock (snd (members_update now (ms_local ms) None (Some d) ms))"
    "settable (Some st) \<Longrightarrow> c \<le> ms_next_clock (snd (members_apply now n source clock st md ms))"
    using u by (simp_all add: members_update_common members_apply_def)
  show "c \<le> ms_next_clock (snd (ack_gossip n source clock ms))"
    using c by (rule ack_gossip_keeps) (simp add: c)
qed

text \<open>Every status in the table is one that can be assigned.\<close>

definition table_settable :: "members \<Rightarrow> bool" where
  "table_settable ms \<longleftrightarrow> (\<forall>n m. map_of (ms_members ms) n = Some m \<longrightarrow> settable (Some (m_status m)))"

text \<open>All metadata in the table satisfies \<open>P\<close> for the member it is about.\<close>

definition table_sourced :: "(string \<Rightarrow> metadata \<Rightarrow> bool) \<Rightarrow> members \<Rightarrow> bool" where
  "table_sourced P ms \<longleftrightarrow>
     (\<forall>n m md. map_of (ms_members ms) n = Some m \<and> m_metadata_dict m = Some md \<longrightarrow> P n md)"

lemma table_changed:
  assumes inv: "store_inv ms" and "map_of (ms_members ms) n = Some m"
  shows "table_settable ms \<Longrightarrow> settable (Some (m_status e)) \<Longrightarrow> table_settable (update_changed n e ms)"
    and "table_sourced P ms \<Longrightarrow> (\<And>md. m_metadata_dict e = Some md \<Longrightarrow> P n md) \<Longrightarrow>
      table_sourced P (update_changed n e ms)"
  using inv by (auto simp: table_settable_def table_sourced_def update_changed_lookup store_inv_def)

lemma settable_after: "settable (Some old) \<Longrightarrow> settable new \<Longrightarrow> settable (Some (status_after old new))"
  by (auto simp: status_after_def settable_def transition_def split: option.split if_splits)

lemma table_settable_update:
  assumes "store_inv ms" and "table_settable ms" and "settable st"
  shows "table_settable (snd (update_common now n source clock st md ms))"
proof (rule update_common_keeps [where good = table_settable, OF assms(1,3,2)])
  fix m assume m: "map_of (ms_members ms) n = Some m"
  then have "settable (Some (m_status m))" using assms(2) by (auto simp: table_settable_def)
  then show "table_settable (update_changed n (changed now source clock (ms_next_clock ms) st md m) ms)"
    using assms by (intro table_changed(1) [OF assms(1) m]) (simp_all add: changed_def settable_after)
qed

lemma table_sourced_update:
  assumes "store_inv ms" and "table_sourced P ms" and "settable st" and "\<And>d. md = Some d \<Longrightarrow> P n d"
  shows "table_sourced P (snd (update_common now n source clock st md ms))"
proof (rule update_common_keeps [where good = "table_sourced P", OF assms(1,3,2)])
  fix m assume m: "map_of (ms_members ms) n = Some m"
  then have "P n d" if "m_metadata_dict m = Some d" for d using assms(2) that by (auto simp: table_sourced_def)
  then show "table_sourced P (update_changed n (changed now source clock (ms_next_clock ms) st md m) ms)"
    using assms by (intro table_changed(2) [OF assms(1) m]) (auto simp: changed_def split: if_splits option.splits)
qed

lemma table_get:
  "table_settable ms \<Longrightarrow> table_settable (members_get rnd now n v ms)"
  "table_sourced P ms \<Longrightarrow> table_sourced P (members_get rnd now n v ms)"
  by (auto simp: table_settable_def table_sourced_def members_get_lookup split: option.splits if_splits)

lemma table_ack:
  "table_settable ms \<Longrightarrow> table_settable (snd (ack_gossip n source clock ms))"
  "table_sourced P ms \<Longrightarrow> table_sourced P (snd (ack_gossip n source clock ms))"
proof -
  show "table_settable ms \<Longrightarrow> table_settable (snd (ack_gossip n source clock ms))"
    by (rule ack_gossip_keeps [where good = table_settable]) (auto simp: table_settable_def)
  show "table_sourced P ms \<Longrightarrow> table_sourced P (snd (ack_gossip n source clock ms))"
    by (rule ack_gossip_keeps [where good = "table_sourced P"]) (auto simp: table_sourced_def)
qed

interpretation statuses_kept: table_property table_settable "\<lambda>n md. True" "\<lambda>n md. True"
  by standard (simp_all add: table_get table_ack table_settable_update members_update_common members_apply_def)

interpretation sources_kept:
  table_property "table_sourced P" "\<lambda>n md. \<forall>d. md = Some d \<longrightarrow> P n d" P for P
  by standard
    (auto simp: table_get table_ack members_update_common members_apply_def intro!: table_sourced_update)

subsection \<open>What is sent\<close>

text \<open>The acknowledgement of a gossip, as an answer to it.\<close>

definition answers :: "packet \<Rightarrow> string \<times> packet \<Rightarrow> bool" where
  "answers p x \<longleftrightarrow> (\<exists>s n c st md s'. p = Gossip s n c st md \<and> x = (src_name s, GossipAck s' n c))"

lemma names_known_grows: "names_known ms p \<Longrightarrow> store.grows ms ms' \<Longrightarrow> names_known ms' p"
  by (simp add: names_known_def store.grows_def)

lemma greeted_sends:
  assumes "store_inv (w_members w)" and "x \<in> set (w_send_queue (greeted rnd now src w))"
  shows "x \<in> set (w_send_queue w) \<or> plain (snd x) \<and> names_known (w_members (greeted rnd now src w)) (snd x)"
  using assms
  by (auto simp: greeted_def Let_def names_known_def source_at_name store.lookup_invar store.lookup_knows)

lemma handle_sends:
  assumes "worker_inv w" and "packet_ok p" and "x \<in> set (w_send_queue (snd (handle_packet rnd now p w)))"
  shows "x \<in> set (w_send_queue w) \<or> (plain (snd x) \<or> answers p x) \<and>
    names_known (w_members (snd (handle_packet rnd now p w))) (snd x)"
proof -
  have st: "store_inv (w_members w)" using assms(1) by (rule worker_invD)
  let ?g = "greeted rnd now (packet_source p) w"
  let ?get = "\<lambda>n. members_get (rnd n) now n None (w_members ?g)"
  note g = greeted_sends [OF st, of _ rnd now "packet_source p"]
  have gi: "store_inv (w_members ?g)" using st by (simp add: store.lookup_invar)
  have li: "store_inv (?get n)" "known (?get n) n" "store.grows (w_members ?g) (?get n)" for n
    using gi by (simp_all add: store.lookup_invar store.lookup_knows store.grows_steps del: greeted_fields(1))
  show ?thesis
  proof (cases p)
    case (Ping src)
    then show ?thesis
      using assms(3) g [of x] gi
      by (auto simp: handle_Ping [OF st] Let_def names_known_def local_source_name store.knows_local
          simp del: greeted_fields(1))
  next
    case (PingReq src target)
    have "names_known (?get target) q" if "names_known (w_members ?g) q" for q
      using that li(3) by (rule names_known_grows)
    with PingReq show ?thesis
      using assms(3) g [of x] li [of target]
      by (auto simp: handle_PingReq [OF st] relayed_def Let_def local_source_name store.knows_local
          simp: names_known_def [of _ "Ping _"] simp del: greeted_fields(1))
  next
    case (Ack src)
    then show ?thesis using assms(3) g [of x] by (auto simp: handle_Ack simp del: greeted_fields(1))
  next
    case (Gossip src name clock st' md)
    let ?ms = "snd (members_apply now name (src_name src) clock st' md (?get name))"
    have ok: "settable (Some st')" using assms(2) Gossip by simp
    have grow: "store.grows (?get name) ?ms" using li(1) ok by (rule store.grows_steps)
    then have ms: "store_inv ?ms" "known ?ms name" "names_known (w_members ?g) q \<Longrightarrow> names_known ?ms q" for q
      using li(2) names_known_grows [OF names_known_grows [OF _ li(3)]] by (auto simp: store.grows_def)
    with Gossip show ?thesis
      using assms(3) g [of x]
      by (auto simp: handle_Gossip [OF st ok] gossiped_def Let_def answers_def local_source_name store.knows_local
          simp: names_known_def [of _ "GossipAck _ _ _"] simp del: greeted_fields(1))
  next
    case (GossipAck src name clock)
    let ?ms = "snd (ack_gossip name (src_name src) clock (?get name))"
    have "store.grows (?get name) ?ms" using li(1) by (rule store.grows_steps)
    then have "names_known ?ms q" if "names_known (w_members ?g) q" for q
      using that names_known_grows [OF names_known_grows [OF _ li(3)]] by blast
    with GossipAck show ?thesis
      using assms(3) g [of x] by (auto simp: handle_GossipAck Let_def simp del: greeted_fields(1))
  qed
qed

lemma step_sends:
  assumes inv: "worker_inv w" and run: "worker_step ev w = Some w'" and x: "x \<in> set (w_send_queue w')"
  shows "x \<in> set (w_send_queue w) \<or> names_known (w_members w') (snd x) \<and> (issued (w_members w) (snd x) \<or>
    (\<exists>rnd now p q. ev = Handle rnd now \<and> w_recv_queue w = p # q \<and> answers p x))"
proof (cases ev)
  case (Handle rnd now)
  then obtain p q where q: "w_recv_queue w = p # q"
    and w': "w' = loop_fails Handler (handle_packet rnd now p (w\<lparr>w_recv_queue := q\<rparr>))"
    using run by (auto simp: worker_step_def handler_turn_def split: if_splits list.splits)
  have "packet_ok p" using worker_invD(5) [OF inv] q by simp
  with handle_sends [OF worker_inv_queues(2) [OF inv q] this, of x rnd now] x q Handle show ?thesis
    by (auto simp: w')
next
  case (Resume j draws now)
  then have t: "turned now w w'" using run by (intro subtask_turned [OF inv]) (simp add: worker_step_def)
  have "known (w_members w') = known (w_members w)"
    using t worker_invD(6) [OF inv] by (auto simp: turned_def store.change_knows settable_def status_defs)
  then show ?thesis using x t by (auto simp: turned_def names_known_def)
qed (use run x in \<open>auto simp: worker_step_def detection_turn_def dissemination_turn_def suspect_expire_def
    with_members_run py_seq_def py_bind_def split: list.splits if_splits option.splits sum.splits\<close>)

subsection \<open>What is received, and what ends the handler\<close>

lemma step_receives:
  assumes inv: "worker_inv w" and run: "worker_step ev w = Some w'" and p: "p \<in> set (w_recv_queue w')"
  shows "p \<in> set (w_recv_queue w) \<or> ev = Receive p"
proof (cases ev)
  case (Handle rnd now)
  then obtain r q where q: "w_recv_queue w = r # q"
    and w': "w' = loop_fails Handler (handle_packet rnd now r (w\<lparr>w_recv_queue := q\<rparr>))"
    using run by (auto simp: worker_step_def handler_turn_def split: if_splits list.splits)
  have "packet_ok r" using worker_invD(5) [OF inv] q by simp
  with handle_fields(3) [OF worker_inv_queues(2) [OF inv q] this, of rnd now] p q show ?thesis
    by (simp add: w')
next
  case (Resume j draws now)
  then show ?thesis using run p subtask_turn_fields [OF inv, of j draws now w'] by (simp add: worker_step_def)
qed (use run p in \<open>auto simp: worker_step_def detection_turn_def dissemination_turn_def suspect_expire_def
    with_members_run py_seq_def py_bind_def split: list.splits if_splits option.splits sum.splits\<close>)

lemma handle_survives:
  assumes "worker_inv w" and "packet_ok p"
    and "\<And>s n c. p = GossipAck s n c \<Longrightarrow> c \<le> ms_next_clock (w_members w)"
  shows "fst (handle_packet rnd now p w) = Inr ()"
proof (cases p)
  case (GossipAck s n c)
  let ?ms = "members_get (rnd n) now n None (w_members (greeted rnd now s w))"
  have "map_of (ms_members ?ms) (src_name s) \<noteq> None" "ms_next_clock ?ms = ms_next_clock (w_members w)"
    by (simp_all add: members_get_lookup members_get_fields)
  then show ?thesis
    using assms(3) [OF GossipAck] by (auto simp: GossipAck handle_GossipAck Let_def ack_gossip_run simp del: greeted_fields(1))
qed (use assms worker_invD(6) [OF assms(1)] in \<open>simp_all add: handle_runs Let_def\<close>)

lemma step_survives:
  assumes inv: "worker_inv w" and run: "worker_step ev w = Some w'" and l: "loop_runs Handler w"
    and ack: "\<And>s n c q. w_recv_queue w = GossipAck s n c # q \<Longrightarrow> c \<le> ms_next_clock (w_members w)"
  shows "loop_runs Handler w'"
proof (cases ev)
  case (Handle rnd now)
  then obtain p q where q: "w_recv_queue w = p # q"
    and w': "w' = loop_fails Handler (handle_packet rnd now p (w\<lparr>w_recv_queue := q\<rparr>))"
    using run by (auto simp: worker_step_def handler_turn_def split: if_splits list.splits)
  have ok: "packet_ok p" using worker_invD(5) [OF inv] q by simp
  note vinv = worker_inv_queues(2) [OF inv q]
  have "fst (handle_packet rnd now p (w\<lparr>w_recv_queue := q\<rparr>)) = Inr ()"
    using ack q by (intro handle_survives [OF vinv ok]) simp
  then have "w_failed w' = w_failed w"
    using handle_fields(2) [OF vinv ok, of rnd now] by (simp add: w' loop_fails_def split_beta)
  with l show ?thesis by (simp add: loop_runs_def)
next
  case (Detect draws)
  then have "detection_turn draws w = Some w'" using run by (simp add: worker_step_def)
  then show ?thesis
    using l by (auto simp: detection_turn_def loop_runs_def py_seq_def py_bind_def loop_fails_def map_add_def
        split: if_splits option.splits sum.splits)
next
  case (Resume j draws now)
  then show ?thesis
    using run l subtask_turn_fields [OF inv, of j draws now w'] by (simp add: worker_step_def loop_runs_def)
qed (use run l in \<open>auto simp: worker_step_def dissemination_turn_def suspect_expire_def loop_runs_def loop_fails_def
    map_add_def with_members_run py_seq_def py_bind_def split: list.splits if_splits option.splits sum.splits\<close>)

end
