(* ===== verification/Swim_Cluster.thy ===== *)
theory Swim_Cluster
  imports Swim_Worker_Table
begin

text \<open>
  A cluster: workers that run \<open>swimprotocol/worker.py\<close> on different hosts, with a network between
  them. The name of a member is its address, so that a packet for a member reaches the process that
  runs under this name. Everything that was ever sent stays in flight: a packet may arrive any
  number of times, in any order, or never. Processes start at any time, and may start again under
  the same name, without their memory.
\<close>

subsection \<open>Steps\<close>

record cluster =
  cl_node :: "string \<Rightarrow> worker option"
  cl_flight :: "(string \<times> packet) list"

definition cluster_init :: cluster where
  "cluster_init = \<lparr>cl_node = (\<lambda>_. None), cl_flight = []\<rparr>"

text \<open>
  \<open>Start\<close> makes the members and the worker of a process, as \<open>run\<close> of the programs does; \<open>At n ev\<close> is
  a step of the worker \<open>n\<close> that does not touch the network.
\<close>

datatype cluster_event =
    Start string "string \<Rightarrow> bytes" int "string list" metadata int
  | At string worker_event
  | Send string
  | Deliver nat

fun off_network :: "worker_event \<Rightarrow> bool" where
  "off_network (Receive p) = False"
| "off_network Transmit = False"
| "off_network _ = True"

definition put_node :: "string \<Rightarrow> worker \<Rightarrow> cluster \<Rightarrow> cluster" where
  "put_node n w c = c\<lparr>cl_node := (cl_node c)(n := Some w)\<rparr>"

definition at_node :: "string \<Rightarrow> worker_event \<Rightarrow> cluster \<Rightarrow> cluster option" where
  "at_node n ev c = (case cl_node c n of
     None \<Rightarrow> None
   | Some w \<Rightarrow> map_option (\<lambda>w'. put_node n w' c) (worker_step ev w))"

definition cluster_step :: "cluster_event \<Rightarrow> cluster \<Rightarrow> cluster option" where
  "cluster_step ev c = (case ev of
     Start n rnd now peers md count \<Rightarrow>
       (case members_init rnd now n peers md of
          (Inl _, _) \<Rightarrow> None
        | (Inr _, ms) \<Rightarrow> Some (put_node n (worker_init count ms) c))
   | At n wev \<Rightarrow> if off_network wev then at_node n wev c else None
   | Send n \<Rightarrow>
       (case cl_node c n of
          None \<Rightarrow> None
        | Some w \<Rightarrow>
            (case w_send_queue w of
               [] \<Rightarrow> None
             | x # _ \<Rightarrow> map_option (\<lambda>c'. c'\<lparr>cl_flight := cl_flight c' @ [x]\<rparr>) (at_node n Transmit c)))
   | Deliver k \<Rightarrow>
       if k < length (cl_flight c)
       then (case cl_flight c ! k of (n, p) \<Rightarrow> at_node n (Receive p) c)
       else None)"

fun cluster_run :: "cluster_event list \<Rightarrow> cluster \<Rightarrow> cluster option" where
  "cluster_run [] c = Some c"
| "cluster_run (ev # evs) c =
     (case cluster_step ev c of None \<Rightarrow> None | Some c' \<Rightarrow> cluster_run evs c')"

lemma cluster_run_append:
  "cluster_run (evs @ evs') c =
     (case cluster_run evs c of None \<Rightarrow> None | Some d \<Rightarrow> cluster_run evs' d)"
  by (induction evs arbitrary: c) (auto split: option.split)

text \<open>The names that processes start under, and what a process publishes as its metadata.\<close>

definition started :: "cluster_event list \<Rightarrow> string list" where
  "started evs = concat (map (\<lambda>ev. case ev of Start n _ _ _ _ _ \<Rightarrow> [n] | _ \<Rightarrow> []) evs)"

definition publishes :: "string \<Rightarrow> metadata \<Rightarrow> cluster_event \<Rightarrow> bool" where
  "publishes n md ev \<longleftrightarrow> (case ev of
     Start m _ _ _ d _ \<Rightarrow> m = n \<and> d = md
   | At m (Set_metadata d _) \<Rightarrow> m = n \<and> d = md
   | _ \<Rightarrow> False)"

subsection \<open>What a step changes\<close>

text \<open>The packets that exist: received and not handled, queued for sending, or in flight.\<close>

definition around :: "cluster \<Rightarrow> (string \<times> packet) set" where
  "around c = set (cl_flight c) \<union>
     {x. \<exists>n w. cl_node c n = Some w \<and> x \<in> set (w_send_queue w)} \<union>
     {(n, p). \<exists>w. cl_node c n = Some w \<and> p \<in> set (w_recv_queue w)}"

lemma put_node_simps [simp]:
  "cl_node (put_node n w c) = (cl_node c)(n := Some w)" "cl_flight (put_node n w c) = cl_flight c"
  by (simp_all add: put_node_def)

lemma worker_init_fields [simp]:
  "w_members (worker_init count ms) = ms" "w_recv_queue (worker_init count ms) = []"
  "w_send_queue (worker_init count ms) = []" "w_failed (worker_init count ms) = []"
  by (simp_all add: worker_init_def)

text \<open>
  Every step of the cluster is a start or a step of one worker; what it makes appear is what the
  worker sends.
\<close>

lemma cluster_step_cases:
  assumes "cluster_step ev c = Some c'"
  obtains (start) n rnd now peers md count ms where "ev = Start n rnd now peers md count"
    and "members_init rnd now n peers md = (Inr (), ms)" and "c' = put_node n (worker_init count ms) c"
  | (work) n wev w w' where "cl_node c n = Some w" and "worker_step wev w = Some w'"
    and "cl_node c' = (cl_node c)(n := Some w')" and "set (cl_flight c') \<subseteq> around c"
    and "\<And>p. wev = Receive p \<Longrightarrow> (n, p) \<in> around c"
    and "\<And>md now. wev = Set_metadata md now \<Longrightarrow> ev = At n wev"
    and "started [ev] = []"
proof (cases ev)
  case (Start n rnd now peers md count)
  with assms that(1) show ?thesis
    by (auto simp: cluster_step_def split: prod.splits sum.splits)
next
  case (At n wev)
  with assms obtain w w' where w: "cl_node c n = Some w" "worker_step wev w = Some w'" "c' = put_node n w' c"
    and off: "off_network wev"
    by (auto simp: cluster_step_def at_node_def split: if_splits option.splits)
  show ?thesis
    by (rule that(2) [OF w(1,2)]) (use w At off in \<open>auto simp: around_def started_def\<close>)
next
  case (Send n)
  with assms obtain w x q where w: "cl_node c n = Some w" "w_send_queue w = x # q"
    "c' = (put_node n (w\<lparr>w_send_queue := q\<rparr>) c)\<lparr>cl_flight := cl_flight c @ [x]\<rparr>"
    by (auto simp: cluster_step_def at_node_def worker_step_def split: option.splits list.splits)
  have "worker_step Transmit w = Some (w\<lparr>w_send_queue := q\<rparr>)" using w(2) by (simp add: worker_step_def)
  moreover have "x \<in> around c"
    unfolding around_def by (rule UnI1, rule UnI2, intro CollectI exI [of _ n] exI [of _ w]) (simp add: w(1,2))
  ultimately show ?thesis
    by (intro that(2) [OF w(1)]) (use w Send in \<open>auto simp: around_def started_def\<close>)
next
  case (Deliver k)
  with assms obtain n p w w' where w: "cl_node c n = Some w" "worker_step (Receive p) w = Some w'"
    "c' = put_node n w' c" "k < length (cl_flight c)" "cl_flight c ! k = (n, p)"
    by (auto simp: cluster_step_def at_node_def split: if_splits option.splits prod.splits)
  have "(n, p) \<in> set (cl_flight c)" using w(4,5) nth_mem by fastforce
  then show ?thesis
    by (intro that(2) [OF w(1,2)]) (use w Deliver in \<open>auto simp: around_def started_def\<close>)
qed

lemma aroundI:
  "x \<in> set (cl_flight c) \<Longrightarrow> x \<in> around c"
  "cl_node c n = Some w \<Longrightarrow> x \<in> set (w_send_queue w) \<Longrightarrow> x \<in> around c"
  "cl_node c n = Some w \<Longrightarrow> p \<in> set (w_recv_queue w) \<Longrightarrow> (n, p) \<in> around c"
  unfolding around_def by blast+

lemma aroundE:
  assumes "x \<in> around c"
  obtains "x \<in> set (cl_flight c)"
  | n w where "cl_node c n = Some w" and "x \<in> set (w_send_queue w)"
  | n w p where "cl_node c n = Some w" and "p \<in> set (w_recv_queue w)" and "x = (n, p)"
  using assms unfolding around_def by blast

lemma around_start:
  assumes "x \<in> around (put_node n (worker_init count ms) c)"
  shows "x \<in> around c"
  using assms by (cases rule: aroundE) (auto split: if_splits intro: aroundI)

lemma around_work:
  assumes node: "cl_node c n = Some w" and inv: "worker_inv w" and inv': "worker_inv w'"
    and step: "worker_step wev w = Some w'"
    and c': "cl_node c' = (cl_node c)(n := Some w')" "set (cl_flight c') \<subseteq> around c"
    and recv: "\<And>p. wev = Receive p \<Longrightarrow> (n, p) \<in> around c"
    and x: "x \<in> around c'"
  shows "x \<in> around c \<or> names_known (w_members w') (snd x) \<and> known (w_members w') (fst x) \<and>
    (issued (w_members w) (snd x) \<or> (\<exists>p. (n, p) \<in> around c \<and> answers p x))"
  using x
proof (cases rule: aroundE)
  case 1
  with c'(2) show ?thesis by blast
next
  case (2 m v)
  show ?thesis
  proof (cases "m = n")
    case True
    then have "x \<in> set (w_send_queue w')" using 2 c'(1) by simp
    moreover have "known (w_members w') (fst x)"
      using worker_invD(7) [OF inv'] calculation by (simp add: worker_refs_def queue_refs_def)
    ultimately show ?thesis
      using step_sends [OF inv step, of x] aroundI(2) [OF node, of x] aroundI(3) [OF node] by auto
  next
    case False
    with 2 c'(1) show ?thesis by (auto intro: aroundI)
  qed
next
  case (3 m v p)
  show ?thesis
  proof (cases "m = n")
    case True
    then have "p \<in> set (w_recv_queue w')" using 3 c'(1) by simp
    from step_receives [OF inv step this] show ?thesis
      using aroundI(3) [OF node] recv 3(3) True by auto
  next
    case False
    with 3 c'(1) show ?thesis by (auto intro: aroundI)
  qed
qed

subsection \<open>Every process is sound\<close>

definition cluster_ok :: "cluster \<Rightarrow> bool" where
  "cluster_ok c \<longleftrightarrow>
     (\<forall>n w. cl_node c n = Some w \<longrightarrow>
        worker_inv w \<and> ms_local (w_members w) = n \<and> table_settable (w_members w)) \<and>
     (\<forall>x \<in> around c. packet_ok (snd x))"

lemma cluster_okD:
  assumes "cluster_ok c"
  shows "cl_node c n = Some w \<Longrightarrow> worker_inv w" and "cl_node c n = Some w \<Longrightarrow> ms_local (w_members w) = n"
    and "cl_node c n = Some w \<Longrightarrow> table_settable (w_members w)" and "x \<in> around c \<Longrightarrow> packet_ok (snd x)"
  using assms unfolding cluster_ok_def by blast+

lemma plain_ok: "plain p \<Longrightarrow> packet_ok p"
  by (cases p) simp_all

lemma issued_ok: "table_settable ms \<Longrightarrow> issued ms p \<Longrightarrow> packet_ok p"
  by (auto simp: issued_def plain_ok gossip_packet_def known_def table_settable_def Let_def)

lemma answers_ok: "answers p x \<Longrightarrow> packet_ok (snd x)"
  by (auto simp: answers_def)

lemma init_table:
  assumes "members_init rnd now n peers md = (Inr (), ms)"
  shows "store_inv ms" and "ms_local ms = n" and "table_settable ms"
    and "map_of (ms_members ms) k = Some m \<Longrightarrow> m_metadata_dict m = Some d \<Longrightarrow> k = n \<and> d = md"
proof -
  let ?p = "members_peers rnd now n peers"
  let ?m = "changed now None 1 1 (Some ONLINE) (Some md) (member_init n True (rnd n) now)"
  have p: "members_inv ?p" using members_peers_state by blast
  have ms: "ms = update_changed n ?m ?p" using assms by (simp add: members_init_result)
  show "store_inv ms" using assms by (rule members_init_store)
  show "ms_local ms = n"
    using members_peers_state by (simp add: ms update_changed_fields(2) [OF members_invD(9) [OF p]])
  have at: "map_of (ms_members ms) j = (if j = n then Some ?m
      else if j \<in> set peers then Some (member_init j False (rnd j) now) else None)" for j
    using members_peers_state by (simp add: ms update_changed_lookup [OF p])
  show "table_settable ms"
    by (auto simp: table_settable_def at changed_def settable_after split: if_splits)
  show "k = n \<and> d = md" if "map_of (ms_members ms) k = Some m" "m_metadata_dict m = Some d"
    using that by (auto simp: at changed_def split: if_splits)
qed

lemma cluster_step_ok:
  assumes ok: "cluster_ok c" and "cluster_step ev c = Some c'"
  shows "cluster_ok c'"
  using assms(2)
proof (cases rule: cluster_step_cases)
  case (start n rnd now peers md count ms)
  note t = init_table [OF start(2)]
  show ?thesis
    unfolding cluster_ok_def start(3)
    using cluster_okD [OF ok] t worker_init_inv [OF t(1)] by (auto dest: around_start)
next
  case (work n wev w w')
  note inv = cluster_okD(1) [OF ok work(1)]
  have ev: "event_ok wev" using cluster_okD(4) [OF ok work(5)] by (cases wev) auto
  have inv': "worker_inv w'" using inv ev work(2) by (rule worker_step_inv)
  moreover have "ms_local (w_members w') = n"
    by (rule local_kept.step_good [OF inv work(2) cluster_okD(2) [OF ok work(1)]])
      (auto simp: local_kept.told_packet_def split: packet.split)
  moreover have "table_settable (w_members w')"
    by (rule statuses_kept.step_good [OF inv work(2) cluster_okD(3) [OF ok work(1)]])
      (auto simp: statuses_kept.told_packet_def split: packet.split)
  moreover have "packet_ok (snd x)" if "x \<in> around c'" for x
    using around_work [OF work(1) inv inv' work(2-5) that] cluster_okD(4) [OF ok]
      issued_ok [OF cluster_okD(3) [OF ok work(1)]] answers_ok by blast
  ultimately show ?thesis
    unfolding cluster_ok_def work(3) using cluster_okD [OF ok] by auto
qed

subsection \<open>Where metadata comes from\<close>

definition packet_sourced :: "(string \<Rightarrow> metadata \<Rightarrow> bool) \<Rightarrow> packet \<Rightarrow> bool" where
  "packet_sourced P p \<longleftrightarrow> (\<forall>s n k st md. p = Gossip s n k st (Some md) \<longrightarrow> P n md)"

lemma packet_sourced_told: "sources_kept.told_packet P p = packet_sourced P p"
  by (cases p) (auto simp: sources_kept.told_packet_def packet_sourced_def)

definition cluster_sourced :: "(string \<Rightarrow> metadata \<Rightarrow> bool) \<Rightarrow> cluster \<Rightarrow> bool" where
  "cluster_sourced P c \<longleftrightarrow> (\<forall>n w. cl_node c n = Some w \<longrightarrow> table_sourced P (w_members w)) \<and>
     (\<forall>x \<in> around c. packet_sourced P (snd x))"

lemma cluster_sourcedD:
  assumes "cluster_sourced P c"
  shows "cl_node c n = Some w \<Longrightarrow> table_sourced P (w_members w)" and "x \<in> around c \<Longrightarrow> packet_sourced P (snd x)"
  using assms unfolding cluster_sourced_def by blast+

lemma issued_sourced:
  assumes "store_inv ms" and "table_sourced P ms" and "issued ms p"
  shows "packet_sourced P p"
proof (cases "plain p")
  case True
  then show ?thesis by (auto simp: packet_sourced_def)
next
  case False
  then obtain n m where n: "map_of (ms_members ms) n = Some m" "p = gossip_packet ms n"
    using assms(3) by (auto simp: issued_def known_def)
  have "m_name m = n" using members_invD(1) [of ms n m] assms(1) n(1) by (simp add: store_inv_def)
  with n assms(2) show ?thesis by (auto simp: packet_sourced_def gossip_packet_def table_sourced_def)
qed

lemma cluster_step_sourced:
  assumes ok: "cluster_ok c" and src: "cluster_sourced P c" and step: "cluster_step ev c = Some c'"
    and pub: "\<And>n md. publishes n md ev \<Longrightarrow> P n md"
  shows "cluster_sourced P c'"
  using step
proof (cases rule: cluster_step_cases)
  case (start n rnd now peers md count ms)
  have "P n md" using pub by (simp add: publishes_def start(1))
  then have "table_sourced P ms" using init_table(4) [OF start(2)] by (auto simp: table_sourced_def)
  then show ?thesis
    unfolding cluster_sourced_def start(3) using cluster_sourcedD [OF src] by (auto dest: around_start)
next
  case (work n wev w w')
  note inv = cluster_okD(1) [OF ok work(1)]
  have inv': "worker_inv w'" using cluster_okD(1) [OF cluster_step_ok [OF ok step], of n w'] by (simp add: work(3))
  have "table_sourced P (w_members w')"
  proof (rule sources_kept.step_good [OF inv work(2) cluster_sourcedD(1) [OF src work(1)]])
    fix p q assume "w_recv_queue w = p # q"
    then have "(n, p) \<in> around c" using aroundI(3) [OF work(1), of p] by simp
    from cluster_sourcedD(2) [OF src this] show "sources_kept.told_packet P p" by (simp add: packet_sourced_told)
  next
    fix md now assume md: "wev = Set_metadata md now"
    have "ev = At n wev" using work(6) md .
    then have "P n md" using pub by (simp add: publishes_def md)
    then show "P (ms_local (w_members w)) md" using cluster_okD(2) [OF ok work(1)] by simp
  qed
  moreover have "packet_sourced P (snd x)" if "x \<in> around c'" for x
    using around_work [OF work(1) inv inv' work(2-5) that] cluster_sourcedD(2) [OF src, of x]
      issued_sourced [OF worker_invD(6) [OF inv] cluster_sourcedD(1) [OF src work(1)]]
    by (auto simp: answers_def packet_sourced_def)
  ultimately show ?thesis
    unfolding cluster_sourced_def work(3) using cluster_sourcedD(1) [OF src] by auto
qed

lemma cluster_run_sourced:
  assumes "cluster_run evs c = Some c'" and "cluster_ok c" and "cluster_sourced P c"
    and "\<And>ev n md. ev \<in> set evs \<Longrightarrow> publishes n md ev \<Longrightarrow> P n md"
  shows "cluster_ok c' \<and> cluster_sourced P c'"
  using assms
proof (induction evs arbitrary: c)
  case (Cons ev evs)
  obtain d where d: "cluster_step ev c = Some d" "cluster_run evs d = Some c'"
    using Cons.prems(1) by (auto split: option.splits)
  have pub: "P n md" if "publishes n md ev" for n md using Cons.prems(4) [of ev] that by simp
  have "cluster_ok d" using Cons.prems(2) d(1) by (rule cluster_step_ok)
  moreover have "cluster_sourced P d" using Cons.prems(2,3) d(1) pub by (rule cluster_step_sourced)
  ultimately show ?case using d(2) Cons.prems(4) by (intro Cons.IH [of d]) auto
qed simp

lemma cluster_init_ok [simp]: "cluster_ok cluster_init" "cluster_sourced P cluster_init" "around cluster_init = {}"
  by (auto simp: cluster_ok_def cluster_sourced_def cluster_init_def around_def)

subsection \<open>Acknowledgements in a cluster without restarts\<close>

text \<open>The clock \<open>k\<close> is below the next clock of the process \<open>n\<close>.\<close>

definition bounded :: "cluster \<Rightarrow> string \<Rightarrow> int \<Rightarrow> bool" where
  "bounded c n k \<longleftrightarrow> (\<exists>w. cl_node c n = Some w \<and> k < ms_next_clock (w_members w))"

text \<open>Gossip carries a clock below the next clock of its source, an acknowledgement one of its target.\<close>

definition packet_bounded :: "cluster \<Rightarrow> string \<times> packet \<Rightarrow> bool" where
  "packet_bounded c x \<longleftrightarrow> (case snd x of
     Gossip s n k st md \<Rightarrow> bounded c (src_name s) k
   | GossipAck s n k \<Rightarrow> bounded c (fst x) k
   | _ \<Rightarrow> True)"

definition cluster_live :: "cluster \<Rightarrow> bool" where
  "cluster_live c \<longleftrightarrow> (\<forall>n w. cl_node c n = Some w \<longrightarrow> loop_runs Handler w) \<and> (\<forall>x \<in> around c. packet_bounded c x)"

lemma packet_bounded_mono:
  "packet_bounded c x \<Longrightarrow> (\<And>n k. bounded c n k \<Longrightarrow> bounded c' n k) \<Longrightarrow> packet_bounded c' x"
  by (simp add: packet_bounded_def split: packet.splits)

lemma issued_bounded:
  assumes "store_inv (w_members w)" and "cl_node c (ms_local (w_members w)) = Some w"
    and "issued (w_members w) (snd x)"
  shows "packet_bounded c x"
proof (cases "plain (snd x)")
  case True
  then show ?thesis by (cases "snd x") (simp_all add: packet_bounded_def)
next
  case False
  let ?ms = "w_members w"
  have inv: "members_inv ?ms" using assms(1) by (simp add: store_inv_def)
  from False obtain n m where n: "map_of (ms_members ?ms) n = Some m" "snd x = gossip_packet ?ms n"
    using assms(3) by (auto simp: issued_def known_def)
  have "src_name (source_at ?ms (ms_local ?ms)) = ms_local ?ms"
    using assms(1) store.knows_local by (intro source_at_name)
  with n assms(2) members_invD(5) [OF inv n(1)] show ?thesis
    by (simp add: packet_bounded_def gossip_packet_def bounded_def)
qed

lemma cluster_step_live:
  assumes ok: "cluster_ok c" and live: "cluster_live c" and step: "cluster_step ev c = Some c'"
    and fresh: "\<And>n. n \<in> set (started [ev]) \<Longrightarrow> cl_node c n = None"
  shows "cluster_live c'"
  using step
proof (cases rule: cluster_step_cases)
  case (start n rnd now peers md count ms)
  have "cl_node c n = None" using fresh by (simp add: started_def start(1))
  then have mono: "bounded c' m k" if "bounded c m k" for m k
    using that by (auto simp: bounded_def start(3))
  have "packet_bounded c' x" if "x \<in> around c'" for x
  proof -
    have "x \<in> around c" using that unfolding start(3) by (rule around_start)
    then have "packet_bounded c x" using live by (simp add: cluster_live_def)
    then show ?thesis using mono by (rule packet_bounded_mono)
  qed
  moreover have "loop_runs Handler (worker_init count ms)" by (simp add: loop_runs_def)
  ultimately show ?thesis using live unfolding cluster_live_def by (auto simp: start(3))
next
  case (work n wev w w')
  note inv = cluster_okD(1) [OF ok work(1)] and loc = cluster_okD(2) [OF ok work(1)]
  have inv': "worker_inv w'" using cluster_okD(1) [OF cluster_step_ok [OF ok step], of n w'] by (simp add: work(3))
  have pb: "packet_bounded c x" if "x \<in> around c" for x using live that by (simp add: cluster_live_def)
  have "ms_next_clock (w_members w) \<le> ms_next_clock (w_members w')"
    by (rule clock_kept.step_good [OF inv work(2)]) (auto simp: clock_kept.told_packet_def split: packet.split)
  then have mono: "bounded c' m k" if "bounded c m k" for m k
    using that work(1) by (auto simp: bounded_def work(3) split: if_splits)
  have "packet_bounded c' x" if "x \<in> around c'" for x
  proof -
    have "x \<in> around c \<or> issued (w_members w) (snd x) \<or> (\<exists>p. (n, p) \<in> around c \<and> answers p x)"
      using around_work [OF work(1) inv inv' work(2-5) that] by blast
    then have "packet_bounded c x"
    proof (elim disjE exE conjE)
      assume "issued (w_members w) (snd x)"
      with worker_invD(6) [OF inv] show ?thesis using work(1) loc by (intro issued_bounded) auto
    next
      fix p assume "(n, p) \<in> around c" "answers p x"
      with pb [of "(n, p)"] show ?thesis by (auto simp: answers_def packet_bounded_def)
    qed (rule pb)
    then show ?thesis using mono by (rule packet_bounded_mono)
  qed
  moreover have "loop_runs Handler w'"
  proof (rule step_survives [OF inv work(2)])
    show "loop_runs Handler w" using live work(1) by (simp add: cluster_live_def)
    fix s m k q assume "w_recv_queue w = GossipAck s m k # q"
    then have "(n, GossipAck s m k) \<in> around c" using aroundI(3) [OF work(1), of "GossipAck s m k"] by simp
    from pb [OF this] show "k \<le> ms_next_clock (w_members w)" using work(1) by (simp add: packet_bounded_def bounded_def)
  qed
  ultimately show ?thesis using live by (auto simp: cluster_live_def work(3))
qed

lemma started_append: "started (ev # evs) = started [ev] @ started evs"
  by (simp add: started_def)

lemma cluster_step_names:
  assumes "cluster_step ev c = Some c'"
  shows "dom (cl_node c') = dom (cl_node c) \<union> set (started [ev])"
  using assms by (cases rule: cluster_step_cases) (auto simp: started_def)

lemma cluster_run_live:
  assumes "cluster_run evs c = Some c'" and "cluster_ok c" and "cluster_live c"
    and "distinct (started evs)" and "set (started evs) \<inter> dom (cl_node c) = {}"
  shows "cluster_live c'"
  using assms
proof (induction evs arbitrary: c)
  case (Cons ev evs)
  obtain d where d: "cluster_step ev c = Some d" "cluster_run evs d = Some c'"
    using Cons.prems(1) by (auto split: option.splits)
  note st = started_append [of ev evs]
  have "cluster_ok d" using Cons.prems(2) d(1) by (rule cluster_step_ok)
  moreover have "cluster_live d"
    using Cons.prems(5) unfolding st
    by (intro cluster_step_live [OF Cons.prems(2,3) d(1)]) (auto simp: domIff)
  moreover have "distinct (started evs)" "set (started evs) \<inter> dom (cl_node d) = {}"
    using Cons.prems(4,5) unfolding st cluster_step_names [OF d(1)] by auto
  ultimately show ?case using d(2) by (intro Cons.IH [of d])
qed simp

subsection \<open>A run with a restart\<close>

text \<open>
  Two processes. The first finds the second online and gossips its third change to it; it starts
  again before the acknowledgement arrives.
\<close>

definition exchange :: "cluster_event list" where
  "exchange =
     [Start ''a'' (\<lambda>_. [1]) 0 [''b''] {(''k'', [1])} 1, Start ''b'' (\<lambda>_. [2]) 0 [''a''] {} 1,
      At ''a'' (Detect [0]), At ''a'' (Resume 0 [] 1), Send ''a'', Deliver 0,
      At ''b'' (Handle (\<lambda>_. [3]) 1), Send ''b'', Deliver 1,
      At ''a'' (Handle (\<lambda>_. [4]) 1), At ''a'' (Resume 0 [] 1),
      At ''a'' (Set_metadata {(''k'', [2])} 2), At ''a'' (Set_metadata {(''k'', [3])} 2),
      At ''a'' (Gossip_round [0]), At ''a'' (Resume 1 [] 3), Send ''a'', Deliver 2,
      At ''b'' (Handle (\<lambda>_. [5]) 3), Send ''b'']"

definition restart :: "cluster_event list" where
  "restart = [Start ''a'' (\<lambda>_. [6]) 4 [''b''] {(''k'', [1])} 1, Deliver 3, At ''a'' (Handle (\<lambda>_. [7]) 5)]"

lemma exchange_run:
  "map_option (\<lambda>c. (map (\<lambda>(t, p). case p of GossipAck s n k \<Rightarrow> Some (t, src_name s, n, k) | _ \<Rightarrow> None) (cl_flight c),
       map_option (\<lambda>w. metadata_at (w_members w) ''a'') (cl_node c ''b'')))
     (cluster_run exchange cluster_init) =
   Some ([None, None, None, Some (''a'', ''b'', ''a'', 4)], Some (Some {(''k'', [3])}))"
  by code_simp

lemma exchange_state:
  obtains c s w where "cluster_run exchange cluster_init = Some c"
    and "(''a'', GossipAck s ''a'' 4) \<in> around c" and "cl_node c ''b'' = Some w"
    and "metadata_at (w_members w) ''a'' = Some {(''k'', [3])}"
proof -
  obtain c where c: "cluster_run exchange cluster_init = Some c"
    "map (\<lambda>(t, p). case p of GossipAck s n k \<Rightarrow> Some (t, src_name s, n, k) | _ \<Rightarrow> None) (cl_flight c) =
       [None, None, None, Some (''a'', ''b'', ''a'', 4)]"
    "map_option (\<lambda>w. metadata_at (w_members w) ''a'') (cl_node c ''b'') = Some (Some {(''k'', [3])})"
    using exchange_run by auto
  have "Some (''a'', ''b'', ''a'', 4) \<in> (\<lambda>(t, p). case p of GossipAck s n k \<Rightarrow> Some (t, src_name s, n, k) | _ \<Rightarrow> None) `
      set (cl_flight c)"
    unfolding set_map [symmetric] c(2) by simp
  then obtain s where "(''a'', GossipAck s ''a'' 4) \<in> set (cl_flight c)"
    by (auto split: packet.splits)
  then have "(''a'', GossipAck s ''a'' 4) \<in> around c" by (rule aroundI)
  with c(1,3) that show ?thesis by auto
qed

text \<open>The acknowledgement of the first run ends the handler of the second.\<close>

lemma restart_run:
  "map_option (\<lambda>c. (map_option w_failed (cl_node c ''a''), length (cl_flight c),
       map_option (\<lambda>w. metadata_at (w_members w) ''a'') (cl_node c ''b'')))
     (cluster_run (exchange @ restart) cluster_init) =
   Some (Some [(Handler, AssertionError)], 4, Some (Some {(''k'', [3])}))"
  by code_simp

subsection \<open>Properties\<close>

text \<open>
  C6: No metadata is invented. However packets are lost, repeated and reordered, and however often
  processes start again: the metadata that any member of the cluster holds for a member, and any
  that is on its way, was set by the process that runs under that name, at its start or later.
\<close>

theorem metadata_provenance:
  assumes "cluster_run evs cluster_init = Some c"
  shows "(\<forall>i w n md. cl_node c i = Some w \<and> metadata_at (w_members w) n = Some md \<longrightarrow>
      (\<exists>ev \<in> set evs. publishes n md ev)) \<and>
    (\<forall>t s n k st md. (t, Gossip s n k st (Some md)) \<in> around c \<longrightarrow> (\<exists>ev \<in> set evs. publishes n md ev))"
proof -
  let ?P = "\<lambda>n md. \<exists>ev \<in> set evs. publishes n md ev"
  have src: "cluster_sourced ?P c"
    using cluster_run_sourced [OF assms cluster_init_ok(1,2), of ?P] by blast
  have "?P n md" if "cl_node c i = Some w" "metadata_at (w_members w) n = Some md" for i w n md
    using cluster_sourcedD(1) [OF src that(1)] that(2)
    by (auto simp: table_sourced_def metadata_at_def split: option.splits)
  moreover have "?P n md" if "(t, Gossip s n k st (Some md)) \<in> around c" for t s n k st md
    using cluster_sourcedD(2) [OF src that] by (auto simp: packet_sourced_def)
  ultimately show ?thesis by blast
qed

theorem metadata_provenance_witness:
  "\<exists>c w. cluster_run exchange cluster_init = Some c \<and> cl_node c ''b'' = Some w \<and>
    metadata_at (w_members w) ''a'' = Some {(''k'', [3])} \<and>
    (\<exists>ev \<in> set exchange. publishes ''a'' {(''k'', [3])} ev)"
proof (rule exchange_state)
  fix c s w
  assume c: "cluster_run exchange cluster_init = Some c" "cl_node c ''b'' = Some w"
    "metadata_at (w_members w) ''a'' = Some {(''k'', [3])}"
  with metadata_provenance [OF c(1)] show ?thesis by blast
qed

text \<open>
  C8: Without restarts no handler ever ends. If no name is started twice, then in every state of the
  cluster every process still handles packets, and no acknowledgement that is on its way can end
  one: its clock is below the next clock of the process it is sent to.
\<close>

theorem handlers_survive:
  assumes "cluster_run evs cluster_init = Some c" and "distinct (started evs)"
  shows "(\<forall>n w. cl_node c n = Some w \<longrightarrow> loop_runs Handler w) \<and>
    (\<forall>t s n k. (t, GossipAck s n k) \<in> around c \<longrightarrow>
       (\<exists>w. cl_node c t = Some w \<and> k < ms_next_clock (w_members w)))"
proof -
  have "cluster_live cluster_init" by (simp add: cluster_live_def) (simp add: cluster_init_def)
  then have live: "cluster_live c"
    using assms by (intro cluster_run_live [OF assms(1) cluster_init_ok(1)]) (simp_all add: cluster_init_def)
  have "bounded c t k" if "(t, GossipAck s n k) \<in> around c" for t s n k
    using live that by (force simp: cluster_live_def packet_bounded_def)
  with live show ?thesis by (auto simp: cluster_live_def bounded_def)
qed

theorem handlers_survive_witness:
  "\<exists>c w. cluster_run exchange cluster_init = Some c \<and> cl_node c ''a'' = Some w \<and>
    4 < ms_next_clock (w_members w) \<and> loop_runs Handler w"
proof (rule exchange_state)
  fix c s w
  assume c: "cluster_run exchange cluster_init = Some c" "(''a'', GossipAck s ''a'' 4) \<in> around c"
  have "distinct (started exchange)" by (simp add: started_def exchange_def)
  with handlers_survive [OF c(1)] c show ?thesis by blast
qed

end
