(* ===== verification/Swim_Names.thy ===== *)
theory Swim_Names
  imports Swim_Cluster
begin

text \<open>
  The names in a cluster: which members a table, a queue or a packet on its way can name.
\<close>

subsection \<open>What a step adds to the table\<close>

lemma handle_known:
  assumes "worker_inv w" and "packet_ok p" and "known (w_members (snd (handle_packet rnd now p w))) n"
  shows "known (w_members w) n \<or> n \<in> packet_names p"
proof -
  have st: "store_inv (w_members w)" using assms(1) by (rule worker_invD)
  then have g: "store_inv (w_members (greeted rnd now src w))" for src by (simp add: store.lookup_invar)
  have l: "store_inv (members_get r now k v (w_members (greeted rnd now src w)))" for r k v src
    using g by (simp add: store.lookup_invar del: greeted_fields(1))
  show ?thesis
    using assms(2,3) st g l
    by (cases p; simp add: handle_runs Let_def relayed_def gossiped_def store.gossip_knows store.ack_knows
        store.lookup_knows del: greeted_fields(1))
      (auto simp: store.lookup_knows)
qed

lemma step_known:
  assumes inv: "worker_inv w" and run: "worker_step ev w = Some w'" and n: "known (w_members w') n"
  shows "known (w_members w) n \<or>
    (\<exists>rnd now p q. ev = Handle rnd now \<and> w_recv_queue w = p # q \<and> n \<in> packet_names p)"
proof (cases ev)
  case (Handle rnd now)
  then obtain p q where q: "w_recv_queue w = p # q"
    and w': "w' = loop_fails Handler (handle_packet rnd now p (w\<lparr>w_recv_queue := q\<rparr>))"
    using run by (auto simp: worker_step_def handler_turn_def split: if_splits list.splits)
  have "packet_ok p" using worker_invD(5) [OF inv] q by simp
  with handle_known [OF worker_inv_queues(2) [OF inv q] this, of rnd now n] n q Handle show ?thesis
    by (simp add: w')
next
  case (Resume j draws now)
  then have "turned now w w'" using run by (intro subtask_turned [OF inv]) (simp add: worker_step_def)
  then show ?thesis
    using n worker_invD(6) [OF inv] by (auto simp: turned_def store.change_knows settable_def status_defs)
next
  case (Expire j now)
  then have "suspect_expire j now w = Some w'" using run by (simp add: worker_step_def)
  from suspect_expire_inv(2) [OF inv this] show ?thesis
    using n worker_invD(6) [OF inv] by (auto simp: store.change_knows settable_def status_defs)
next
  case (Set_metadata md now)
  then show ?thesis
    using run n worker_invD(6) [OF inv] by (auto simp: worker_step_def with_members_run store.change_knows)
qed (use run n in \<open>auto simp: worker_step_def detection_turn_def dissemination_turn_def py_seq_def py_bind_def
    split: list.splits if_splits option.splits sum.splits\<close>)

subsection \<open>The names of the cluster\<close>

definition mentions :: "string \<times> packet \<Rightarrow> string set" where
  "mentions x = insert (fst x) (packet_names (snd x))"

definition cluster_named :: "string set \<Rightarrow> cluster \<Rightarrow> bool" where
  "cluster_named S c \<longleftrightarrow>
     (\<forall>n w. cl_node c n = Some w \<longrightarrow> n \<in> S \<and> (\<forall>k. known (w_members w) k \<longrightarrow> k \<in> S)) \<and>
     (\<forall>x \<in> around c. mentions x \<subseteq> S)"

lemma cluster_namedD:
  assumes "cluster_named S c"
  shows "cl_node c n = Some w \<Longrightarrow> n \<in> S" and "cl_node c n = Some w \<Longrightarrow> known (w_members w) k \<Longrightarrow> k \<in> S"
    and "x \<in> around c \<Longrightarrow> mentions x \<subseteq> S"
  using assms unfolding cluster_named_def by blast+

text \<open>The names that come from outside: those that processes start under, and those of their peers.\<close>

definition introduces :: "cluster_event \<Rightarrow> string set" where
  "introduces ev = (case ev of Start n _ _ peers _ _ \<Rightarrow> insert n (set peers) | _ \<Rightarrow> {})"

lemma init_known:
  assumes "members_init rnd now n peers md = (Inr (), ms)" and "known ms k"
  shows "k \<in> insert n (set peers)"
proof -
  let ?p = "members_peers rnd now n peers"
  have p: "members_inv ?p" using members_peers_state by blast
  have ms: "ms = update_changed n (changed now None 1 1 (Some ONLINE) (Some md) (member_init n True (rnd n) now)) ?p"
    using assms(1) by (simp add: members_init_result)
  show ?thesis
    using assms(2) members_peers_state by (auto simp: known_def ms update_changed_lookup [OF p] split: if_splits)
qed

lemma cluster_step_named:
  assumes ok: "cluster_ok c" and named: "cluster_named S c" and step: "cluster_step ev c = Some c'"
    and S: "introduces ev \<subseteq> S"
  shows "cluster_named S c'"
  using step
proof (cases rule: cluster_step_cases)
  case (start n rnd now peers md count ms)
  have "insert n (set peers) \<subseteq> S" using S by (simp add: introduces_def start(1))
  then have "k \<in> S" if "known ms k" for k using init_known [OF start(2) that] by auto
  moreover have "n \<in> S" using S by (simp add: introduces_def start(1))
  moreover have "mentions x \<subseteq> S" if "x \<in> around c'" for x
    using around_start that unfolding start(3) by (intro cluster_namedD(3) [OF named])
  ultimately show ?thesis
    unfolding cluster_named_def using cluster_namedD(1,2) [OF named] by (auto simp: start(3))
next
  case (work n wev w w')
  note inv = cluster_okD(1) [OF ok work(1)]
  have inv': "worker_inv w'" using cluster_okD(1) [OF cluster_step_ok [OF ok step], of n w'] by (simp add: work(3))
  have known: "k \<in> S" if "known (w_members w') k" for k
    using step_known [OF inv work(2) that]
  proof (elim disjE exE conjE)
    assume "known (w_members w) k"
    then show ?thesis by (rule cluster_namedD(2) [OF named work(1)])
  next
    fix rnd now p q assume "w_recv_queue w = p # q" "k \<in> packet_names p"
    then show ?thesis
      using cluster_namedD(3) [OF named aroundI(3) [OF work(1), of p]] by (auto simp: mentions_def)
  qed
  have "mentions x \<subseteq> S" if "x \<in> around c'" for x
    using around_work [OF work(1) inv inv' work(2-5) that]
  proof
    assume "x \<in> around c"
    then show ?thesis by (rule cluster_namedD(3) [OF named])
  next
    assume "names_known (w_members w') (snd x) \<and> known (w_members w') (fst x) \<and>
      (issued (w_members w) (snd x) \<or> (\<exists>p. (n, p) \<in> around c \<and> answers p x))"
    then show ?thesis using known by (auto simp: mentions_def names_known_def)
  qed
  then show ?thesis
    unfolding cluster_named_def work(3) using cluster_namedD(1,2) [OF named] known work(1) by auto
qed

lemma cluster_run_named:
  assumes "cluster_run evs c = Some c'" and "cluster_ok c" and "cluster_named S c"
    and "\<And>ev. ev \<in> set evs \<Longrightarrow> introduces ev \<subseteq> S"
  shows "cluster_named S c'"
  using assms
proof (induction evs arbitrary: c)
  case (Cons ev evs)
  obtain d where d: "cluster_step ev c = Some d" "cluster_run evs d = Some c'"
    using Cons.prems(1) by (auto split: option.splits)
  have "cluster_ok d" using Cons.prems(2) d(1) by (rule cluster_step_ok)
  moreover have "introduces ev \<subseteq> S" using Cons.prems(4) by simp
  then have "cluster_named S d" by (rule cluster_step_named [OF Cons.prems(2,3) d(1)])
  moreover have "introduces ev \<subseteq> S" if "ev \<in> set evs" for ev using Cons.prems(4) that by simp
  ultimately show ?case using d(2) by (intro Cons.IH [of d])
qed simp

lemma cluster_init_named [simp]: "cluster_named S cluster_init"
  by (simp add: cluster_named_def) (simp add: cluster_init_def)

subsection \<open>Properties\<close>

text \<open>
  C7: No member is invented. However packets are lost, repeated and reordered, and however often
  processes start again: every name that a member of the cluster has in its table, and every name
  in a packet that is on its way or waits in a queue, or that it is sent to, is the name that a
  process was started under or one of the peers that a process was given.
\<close>

theorem names_provenance:
  assumes "cluster_run evs cluster_init = Some c"
  shows "(\<forall>i w n. cl_node c i = Some w \<and> known (w_members w) n \<longrightarrow> (\<exists>ev \<in> set evs. n \<in> introduces ev)) \<and>
    (\<forall>t p n. (t, p) \<in> around c \<and> n \<in> insert t (packet_names p) \<longrightarrow> (\<exists>ev \<in> set evs. n \<in> introduces ev))"
proof -
  let ?S = "\<Union>ev \<in> set evs. introduces ev"
  have named: "cluster_named ?S c" by (rule cluster_run_named [OF assms]) auto
  have "n \<in> ?S" if "(t, p) \<in> around c" "n \<in> insert t (packet_names p)" for t p n
    using cluster_namedD(3) [OF named that(1)] that(2) by (auto simp: mentions_def)
  with cluster_namedD(2) [OF named] show ?thesis by blast
qed

theorem names_provenance_witness:
  "\<exists>c w s. cluster_run exchange cluster_init = Some c \<and> cl_node c ''b'' = Some w \<and>
    known (w_members w) ''a'' \<and> (''a'', GossipAck s ''a'' 4) \<in> around c \<and>
    (\<exists>ev \<in> set exchange. ''a'' \<in> introduces ev)"
proof (rule exchange_state)
  fix c s w
  assume c: "cluster_run exchange cluster_init = Some c" "(''a'', GossipAck s ''a'' 4) \<in> around c"
    "cl_node c ''b'' = Some w" "metadata_at (w_members w) ''a'' = Some {(''k'', [3])}"
  then have "known (w_members w) ''a''" by (auto simp: metadata_at_def known_def split: option.splits)
  with c names_provenance [OF c(1)] show ?thesis by blast
qed

end
