(* ===== verification/Swim_Hash.thy ===== *)
theory Swim_Hash
  imports Swim_Prelude
begin

unbundle bit_operations_syntax

text \<open>
  The hash function that \<open>hashlib\<close> and \<open>hmac\<close> of the standard library supply under the
  name \<open>sha256\<close>, the only one the program asks for: SHA-256 on bytes and the keyed hash HMAC
  built on it. The constants are the fractional parts of the square and cube roots of the first
  primes.
\<close>

subsection \<open>Words and bytes\<close>

definition word_bytes :: "32 word \<Rightarrow> bytes" where
  "word_bytes w = map (\<lambda>i. ucast (drop_bit i w)) [24, 16, 8, 0]"

definition bytes_word :: "bytes \<Rightarrow> 32 word" where
  "bytes_word bs = foldl (\<lambda>w b. push_bit 8 w OR ucast b) 0 bs"

function chunks :: "nat \<Rightarrow> 'a list \<Rightarrow> 'a list list" where
  "chunks n xs = (if xs = [] \<or> n = 0 then [] else take n xs # chunks n (drop n xs))"
  by pat_completeness auto
termination by (relation "measure (length \<circ> snd)") auto

declare chunks.simps [simp del]

lemma length_word_bytes [simp]: "length (word_bytes w) = 4"
  by (simp add: word_bytes_def)

subsection \<open>The compression function\<close>

type_synonym chain =
  "32 word \<times> 32 word \<times> 32 word \<times> 32 word \<times> 32 word \<times> 32 word \<times> 32 word \<times> 32 word"

definition initial_chain :: chain where
  "initial_chain =
     (1779033703, 3144134277, 1013904242, 2773480762,
      1359893119, 2600822924, 528734635, 1541459225)"

definition round_constants :: "32 word list" where
  "round_constants =
    [1116352408, 1899447441, 3049323471, 3921009573, 961987163, 1508970993, 2453635748,
     2870763221, 3624381080, 310598401, 607225278, 1426881987, 1925078388, 2162078206,
     2614888103, 3248222580, 3835390401, 4022224774, 264347078, 604807628, 770255983,
     1249150122, 1555081692, 1996064986, 2554220882, 2821834349, 2952996808, 3210313671,
     3336571891, 3584528711, 113926993, 338241895, 666307205, 773529912, 1294757372,
     1396182291, 1695183700, 1986661051, 2177026350, 2456956037, 2730485921, 2820302411,
     3259730800, 3345764771, 3516065817, 3600352804, 4094571909, 275423344, 430227734,
     506948616, 659060556, 883997877, 958139571, 1322822218, 1537002063, 1747873779,
     1955562222, 2024104815, 2227730452, 2361852424, 2428436474, 2756734187, 3204031479,
     3329325298]"

definition rotr :: "nat \<Rightarrow> 32 word \<Rightarrow> 32 word" where
  "rotr n w = drop_bit n w OR push_bit (32 - n) w"

text \<open>The message schedule grows from the 16 words of the block by \<open>n\<close> more.\<close>

fun schedule :: "nat \<Rightarrow> 32 word list \<Rightarrow> 32 word list" where
  "schedule 0 ws = ws"
| "schedule (Suc n) ws =
     (let k = length ws; x = ws ! (k - 15); y = ws ! (k - 2)
      in schedule n (ws @
        [ws ! (k - 16) + (rotr 7 x XOR rotr 18 x XOR drop_bit 3 x) +
         ws ! (k - 7) + (rotr 17 y XOR rotr 19 y XOR drop_bit 10 y)]))"

definition compress_round :: "chain \<Rightarrow> 32 word \<times> 32 word \<Rightarrow> chain" where
  "compress_round s kw = (case s of (a, b, c, d, e, f, g, h) \<Rightarrow>
     (let t = h + (rotr 6 e XOR rotr 11 e XOR rotr 25 e) + ((e AND f) XOR (NOT e AND g)) +
            fst kw + snd kw;
          u = (rotr 2 a XOR rotr 13 a XOR rotr 22 a) + ((a AND b) XOR (a AND c) XOR (b AND c))
      in (t + u, a, b, c, d + t, e, f, g)))"

definition add_chain :: "chain \<Rightarrow> chain \<Rightarrow> chain" where
  "add_chain s t = (case (s, t) of ((a, b, c, d, e, f, g, h), (a', b', c', d', e', f', g', h')) \<Rightarrow>
     (a + a', b + b', c + c', d + d', e + e', f + f', g + g', h + h'))"

definition compress :: "chain \<Rightarrow> 32 word list \<Rightarrow> chain" where
  "compress s block = add_chain s (foldl compress_round s (zip round_constants (schedule 48 block)))"

subsection \<open>The hash and the keyed hash\<close>

text \<open>The padding is a bit 1, then bits 0, then the length in bits as 64 bits.\<close>

definition sha_pad :: "bytes \<Rightarrow> bytes" where
  "sha_pad bs =
     (let n = word_of_nat (8 * length bs) :: 64 word
      in bs @ 128 # replicate ((119 - length bs mod 64) mod 64) 0 @
         word_bytes (ucast (drop_bit 32 n)) @ word_bytes (ucast n))"

definition chain_bytes :: "chain \<Rightarrow> bytes" where
  "chain_bytes s = (case s of (a, b, c, d, e, f, g, h) \<Rightarrow>
     concat (map word_bytes [a, b, c, d, e, f, g, h]))"

definition sha256 :: "bytes \<Rightarrow> bytes" where
  "sha256 bs = chain_bytes (foldl compress initial_chain
     (chunks 16 (map bytes_word (chunks 4 (sha_pad bs)))))"

definition hmac_key :: "bytes \<Rightarrow> bytes" where
  "hmac_key key =
     (let k = (if 64 < length key then sha256 key else key) in k @ replicate (64 - length k) 0)"

definition hmac_sha256 :: "bytes \<Rightarrow> bytes \<Rightarrow> bytes" where
  "hmac_sha256 key msg =
     (let k = hmac_key key
      in sha256 (map (\<lambda>b. b XOR 92) k @ sha256 (map (\<lambda>b. b XOR 54) k @ msg)))"

lemma length_sha256 [simp]: "length (sha256 bs) = 32"
  by (simp add: sha256_def chain_bytes_def split: prod.split)

lemma length_hmac_key [simp]: "length (hmac_key key) = 64"
  by (simp add: hmac_key_def Let_def)

lemma length_hmac [simp]: "length (hmac_sha256 key msg) = 32"
  by (simp add: hmac_sha256_def Let_def)

end
