(* ===== verification/Swim_Text.thy ===== *)
theory Swim_Text
  imports Swim_Prelude "HOL-Library.Char_ord" "HOL-Library.List_Lexorder"
begin

text \<open>
  What the program uses of Python's strings and numerals: \<open>str.rpartition\<close>, \<open>int\<close> of a
  string, \<open>str\<close> of an integer, \<open>str.split\<close>, \<open>str.rstrip\<close>, \<open>str.encode\<close> and
  the hexadecimal form of bytes. Characters are those of Latin-1; the limit of the interpreter on
  the length of a numeral is not modelled.
\<close>

subsection \<open>rpartition\<close>

definition rpartition :: "char \<Rightarrow> string \<Rightarrow> string \<times> string \<times> string" where
  "rpartition sep s =
     (if sep \<in> set s
      then (rev (tl (dropWhile (\<lambda>c. c \<noteq> sep) (rev s))), [sep], rev (takeWhile (\<lambda>c. c \<noteq> sep) (rev s)))
      else ([], [], s))"

lemma rpartition_none: "sep \<notin> set s \<Longrightarrow> rpartition sep s = ([], [], s)"
  by (simp add: rpartition_def)

lemma rpartition_last: "sep \<notin> set q \<Longrightarrow> rpartition sep (p @ sep # q) = (p, [sep], q)"
proof -
  assume "sep \<notin> set q"
  then have "takeWhile (\<lambda>c. c \<noteq> sep) (rev q @ sep # rev p) = rev q"
    "dropWhile (\<lambda>c. c \<noteq> sep) (rev q @ sep # rev p) = sep # rev p"
    by (subst takeWhile_append2 dropWhile_append2; auto)+
  then show ?thesis by (simp add: rpartition_def)
qed

lemma rpartition_cases:
  obtains (none) "sep \<notin> set s" | (last) p q where "s = p @ sep # q" "sep \<notin> set q"
  by (meson split_list_last)

subsection \<open>Numerals\<close>

definition is_digit :: "char \<Rightarrow> bool" where
  "is_digit c \<longleftrightarrow> CHR ''0'' \<le> c \<and> c \<le> CHR ''9''"

definition digit_value :: "char \<Rightarrow> int" where
  "digit_value c = of_char c - 48"

definition is_space :: "char \<Rightarrow> bool" where
  "is_space c \<longleftrightarrow> (let n = of_char c :: nat in 9 \<le> n \<and> n \<le> 13 \<or> 28 \<le> n \<and> n \<le> 32 \<or> n = 133 \<or> n = 160)"

definition strip :: "(char \<Rightarrow> bool) \<Rightarrow> string \<Rightarrow> string" where
  "strip P s = rev (dropWhile P (rev (dropWhile P s)))"

definition rstrip :: "(char \<Rightarrow> bool) \<Rightarrow> string \<Rightarrow> string" where
  "rstrip P s = rev (dropWhile P (rev s))"

text \<open>
  The digits of a numeral; an underscore may stand between two of them. \<open>prev\<close> says whether
  the character before is a digit.
\<close>

fun digits_value :: "bool \<Rightarrow> int \<Rightarrow> string \<Rightarrow> int option" where
  "digits_value prev acc [] = (if prev then Some acc else None)"
| "digits_value prev acc (c # cs) =
     (if is_digit c then digits_value True (10 * acc + digit_value c) cs
      else if c = CHR ''_'' \<and> prev then digits_value False acc cs
      else None)"

definition py_int :: "string \<Rightarrow> py_error + int" where
  "py_int s = (case strip is_space s of
     [] \<Rightarrow> Inl ValueError
   | c # cs \<Rightarrow>
       (case (if c = CHR ''-'' then map_option uminus (digits_value False 0 cs)
              else if c = CHR ''+'' then digits_value False 0 cs
              else digits_value False 0 (c # cs)) of
          None \<Rightarrow> Inl ValueError
        | Some i \<Rightarrow> Inr i))"

definition digit_char :: "nat \<Rightarrow> char" where
  "digit_char n = ''0123456789'' ! n"

fun show_nat :: "nat \<Rightarrow> string" where
  "show_nat n = (if n < 10 then [digit_char n] else show_nat (n div 10) @ [digit_char (n mod 10)])"

declare show_nat.simps [simp del]

definition show_int :: "int \<Rightarrow> string" where
  "show_int i = (if i < 0 then CHR ''-'' # show_nat (nat (- i)) else show_nat (nat i))"

text \<open>A decimal digit is none of the characters that the parsers treat specially.\<close>

lemma digit_char_props:
  assumes "n < 10"
  shows "is_digit (digit_char n)" and "digit_value (digit_char n) = int n"
    and "\<not> is_space (digit_char n)"
    and "digit_char n \<noteq> CHR '':''" and "digit_char n \<noteq> CHR ''-''" and "digit_char n \<noteq> CHR ''+''"
proof -
  have "n \<in> {0, 1, 2, 3, 4, 5, 6, 7, 8, 9}" using assms by auto
  then show "is_digit (digit_char n)" "digit_value (digit_char n) = int n" "\<not> is_space (digit_char n)"
    "digit_char n \<noteq> CHR '':''" "digit_char n \<noteq> CHR ''-''" "digit_char n \<noteq> CHR ''+''"
    by (auto simp: digit_char_def is_digit_def digit_value_def is_space_def)
qed

lemma show_nat_digits: "c \<in> set (show_nat n) \<Longrightarrow> \<exists>d < 10. c = digit_char d"
proof (induction n rule: show_nat.induct)
  case (1 n)
  have "\<exists>d < 10. digit_char (n mod 10) = digit_char d" by (rule exI [of _ "n mod 10"]) simp
  with 1(2) show ?case
    by (subst (asm) show_nat.simps) (use 1(1) in \<open>auto split: if_splits\<close>)
qed

lemma show_nat_not_Nil: "show_nat n \<noteq> []"
  by (subst show_nat.simps) simp

lemma digits_value_show:
  "digits_value b acc (show_nat n @ s) = digits_value True (acc * 10 ^ length (show_nat n) + int n) s"
proof (induction n arbitrary: b acc s rule: show_nat.induct)
  case (1 n)
  show ?case
  proof (cases "n < 10")
    case True
    then have "show_nat n = [digit_char n]" by (subst show_nat.simps) simp
    with True show ?thesis by (simp add: digit_char_props mult.commute)
  next
    case False
    then have e: "show_nat n = show_nat (n div 10) @ [digit_char (n mod 10)]"
      by (subst show_nat.simps) simp
    have "int n = 10 * int (n div 10) + int (n mod 10)" by presburger
    with False e 1 [OF False] show ?thesis by (simp add: digit_char_props algebra_simps)
  qed
qed

lemma strip_id:
  assumes "s \<noteq> []" and "\<not> P (hd s)" and "\<not> P (last s)"
  shows "strip P s = s"
proof -
  have "dropWhile P s = s" "dropWhile P (rev s) = rev s"
    using assms by (simp_all add: dropWhile_eq_self_iff hd_rev)
  then show ?thesis by (simp add: strip_def)
qed

lemma show_int_no_space: "strip is_space (show_int i) = show_int i"
proof (rule strip_id)
  have e: "\<not> is_space c" if "c \<in> set (show_int i)" for c
    using that show_nat_digits [of c] digit_char_props(3)
    by (auto simp: show_int_def is_space_def split: if_splits)
  show "show_int i \<noteq> []" by (simp add: show_int_def show_nat_not_Nil)
  then show "\<not> is_space (hd (show_int i))" "\<not> is_space (last (show_int i))"
    by (simp_all add: e)
qed

lemma py_int_show [simp]: "py_int (show_int i) = Inr i"
proof (cases "i < 0")
  case True
  then have s: "show_int i = CHR ''-'' # show_nat (nat (- i))" by (simp add: show_int_def)
  have "strip is_space (CHR ''-'' # show_nat (nat (- i))) = CHR ''-'' # show_nat (nat (- i))"
    using show_int_no_space [of i] s by simp
  with True digits_value_show [of False 0 "nat (- i)" "[]"] s show ?thesis by (simp add: py_int_def)
next
  case False
  then have s: "show_int i = show_nat (nat i)" by (simp add: show_int_def)
  obtain c cs where c: "show_nat (nat i) = c # cs" using show_nat_not_Nil [of "nat i"] by (cases "show_nat (nat i)") auto
  have ne: "c \<noteq> CHR ''-''" "c \<noteq> CHR ''+''"
    using show_nat_digits [of c "nat i"] c digit_char_props(5,6) by auto
  have "strip is_space (c # cs) = c # cs" using show_int_no_space [of i] s c by simp
  with False ne digits_value_show [of False 0 "nat i" "[]"] s c show ?thesis by (simp add: py_int_def)
qed

lemma show_int_no_colon [simp]: "CHR '':'' \<notin> set (show_int i)"
proof -
  have "CHR '':'' \<notin> set (show_nat n)" for n
    using show_nat_digits [of "CHR '':''" n] digit_char_props(4) by metis
  then show ?thesis by (simp add: show_int_def)
qed

lemma show_int_inject [simp]: "show_int i = show_int j \<longleftrightarrow> i = j"
  by (metis py_int_show sum.inject(2))

subsection \<open>split\<close>

fun split_on :: "char \<Rightarrow> string \<Rightarrow> string list" where
  "split_on sep [] = [[]]"
| "split_on sep (c # cs) =
     (if c = sep then [] # split_on sep cs
      else (case split_on sep cs of [] \<Rightarrow> [[c]] | w # ws \<Rightarrow> (c # w) # ws))"

fun join_with :: "char \<Rightarrow> string list \<Rightarrow> string" where
  "join_with sep [] = []"
| "join_with sep [w] = w"
| "join_with sep (w # v # ws) = w @ sep # join_with sep (v # ws)"

lemma split_on_not_Nil [simp]: "split_on sep s \<noteq> []"
  by (induction s) (auto split: list.split)

lemma split_on_word: "sep \<notin> set w \<Longrightarrow> split_on sep w = [w]"
  by (induction w) auto

lemma split_on_append: "sep \<notin> set w \<Longrightarrow> split_on sep (w @ sep # s) = w # split_on sep s"
  by (induction w) auto

lemma split_join:
  "ws \<noteq> [] \<Longrightarrow> \<forall>w \<in> set ws. sep \<notin> set w \<Longrightarrow> split_on sep (join_with sep ws) = ws"
  by (induction sep ws rule: join_with.induct) (auto simp: split_on_word split_on_append)

lemma join_split: "join_with sep (split_on sep s) = s"
proof (induction s)
  case (Cons c cs)
  then show ?case by (cases "split_on sep cs"; cases "tl (split_on sep cs)") auto
qed simp

subsection \<open>encode and hex\<close>

text \<open>UTF-8 of a character below 256 takes one or two bytes.\<close>

definition utf8_char :: "char \<Rightarrow> bytes" where
  "utf8_char c = (let n = of_char c :: nat in
     if n < 128 then [word_of_nat n] else [word_of_nat (192 + n div 64), word_of_nat (128 + n mod 64)])"

definition utf8 :: "string \<Rightarrow> bytes" where
  "utf8 s = concat (map utf8_char s)"

definition hex_digit :: "nat \<Rightarrow> char" where
  "hex_digit n = ''0123456789abcdef'' ! n"

fun show_hex :: "nat \<Rightarrow> string" where
  "show_hex n = (if n < 16 then [hex_digit n] else show_hex (n div 16) @ [hex_digit (n mod 16)])"

declare show_hex.simps [simp del]

end
