(* ===== verification/Swim_Sign.thy ===== *)
theory Swim_Sign
  imports Swim_Hash Swim_Text
begin

text \<open>
  The class \<open>Signatures\<close> of \<open>swimprotocol/sign.py\<close>. Nothing in the program passes
  \<open>hash_name\<close>, so the hash is its default \<open>sha256\<close>. The random salt and the node number
  of the machine are arguments.
\<close>

subsection \<open>The state\<close>

datatype secret = No_secret | Str_secret string | Bytes_secret bytes

record signature =
  sig_salt :: bytes
  sig_digest :: bytes

record signatures =
  sg_secret :: bytes
  sg_salt_len :: int
  sg_digest_size :: nat
  sg_version :: bytes

text \<open>\<open>__version__\<close> is \<open>0.6.3\<close>.\<close>

definition package_version :: string where
  "package_version = ''0.6.3''"

definition signatures_init :: "nat \<Rightarrow> secret \<Rightarrow> int \<Rightarrow> bool \<Rightarrow> signatures" where
  "signatures_init node secret salt_len check_version =
     \<lparr>sg_secret = (case secret of
        No_secret \<Rightarrow> utf8 (show_hex node)
      | Str_secret s \<Rightarrow> utf8 s
      | Bytes_secret b \<Rightarrow> b),
      sg_salt_len = salt_len, sg_digest_size = 32,
      sg_version = (if check_version then utf8 package_version else [])\<rparr>"

subsection \<open>Operations\<close>

definition salted_digest :: "signatures \<Rightarrow> bytes \<Rightarrow> bytes \<Rightarrow> bytes" where
  "salted_digest s salt data = hmac_sha256 (sg_secret s) (sg_version s @ salt @ data)"

text \<open>
  \<open>random\<close> is what \<open>secrets.token_bytes(16)\<close> returns; \<open>salt_len\<close> is not read.
\<close>

definition sign :: "signatures \<Rightarrow> bytes \<Rightarrow> bytes \<Rightarrow> signature" where
  "sign s random data =
     (let salt = take 16 random in \<lparr>sig_salt = salt, sig_digest = salted_digest s salt data\<rparr>)"

definition verify :: "signatures \<Rightarrow> bytes \<Rightarrow> bytes \<times> bytes \<Rightarrow> bool" where
  "verify s data sig = (case sig of (salt, digest) \<Rightarrow>
     digest = salted_digest s salt data)"

subsection \<open>The contract of a signer\<close>

text \<open>
  What packing relies on: a signature verifies, its digest has a fixed size, and verification
  means that the digest was computed with the secret over the salt and the data.
\<close>

locale signer =
  fixes signs :: "bytes \<Rightarrow> bytes \<Rightarrow> signature"
    and verifies :: "bytes \<Rightarrow> bytes \<times> bytes \<Rightarrow> bool"
    and size :: nat
  assumes sign_verifies: "verifies data (sig_salt (signs random data), sig_digest (signs random data))"
    and digest_length: "length (sig_digest (signs random data)) = size"
    and verified_unique: "verifies data (s, d) \<Longrightarrow> verifies data (s, d') \<Longrightarrow> d = d'"
begin

lemma verified_length: "verifies data (sig_salt (signs random data), d) \<Longrightarrow> length d = size"
  using verified_unique [OF sign_verifies] digest_length by metis

lemma verified_digest:
  "verifies data (sig_salt (signs random data), d) \<longleftrightarrow> d = sig_digest (signs random data)"
  using verified_unique [OF sign_verifies] sign_verifies by metis

end

interpretation hmac_signer:
  signer "sign (signatures_init node sec n cv)" "verify (signatures_init node sec n cv)"
    "sg_digest_size (signatures_init node sec n cv)" for node sec n cv
  by unfold_locales (simp_all add: sign_def verify_def salted_digest_def signatures_init_def Let_def)

text \<open>
  What is signed is the text of salt and data joined: a digest stays valid for every other way to
  divide that text.
\<close>

lemma verify_joined:
  "salt' @ data' = salt @ data \<Longrightarrow> verify s data' (salt', d) \<longleftrightarrow> verify s data (salt, d)"
  by (simp add: verify_def salted_digest_def)

lemma sign_salt [simp]: "length random = 16 \<Longrightarrow> sig_salt (sign s random data) = random"
  by (simp add: sign_def Let_def)

end
