(* ===== verification/Swim_Pack.thy ===== *)
theory Swim_Pack
  imports Swim_Sign Swim_Packet
begin

text \<open>
  The class \<open>UdpPack\<close> of \<open>swimprotocol/udp/pack.py\<close>: the bytes of a packet on the wire are a
  prefix of 6 bytes, the salt, the digest and the pickled packet. What \<open>pickle\<close> does is an
  argument: \<open>dumps\<close>, and \<open>loads\<close> with \<open>None\<close> for an object that is no packet.
\<close>

record pickler =
  dumps :: "int \<Rightarrow> packet \<Rightarrow> bytes"
  loads :: "bytes \<Rightarrow> py_error + packet option"

record udp_pack =
  pk_signatures :: signatures
  pk_pickle_protocol :: int
  pk_prefix_xor :: bytes

subsection \<open>The prefix\<close>

text \<open>\<open>struct.Struct('!BBI')\<close>: two bytes and a 32-bit word, big-endian, without padding.\<close>

definition prefix_size :: nat where
  "prefix_size = 6"

definition struct_pack :: "nat \<Rightarrow> nat \<Rightarrow> nat \<Rightarrow> py_error + bytes" where
  "struct_pack a b c =
     (if a < 256 \<and> b < 256 \<and> c < 4294967296
      then Inr ([word_of_nat a, word_of_nat b] @ word_bytes (word_of_nat c))
      else Inl StructError)"

definition struct_unpack :: "bytes \<Rightarrow> py_error + nat \<times> nat \<times> nat" where
  "struct_unpack bs = (case bs of
     [a, b, c1, c2, c3, c4] \<Rightarrow> Inr (unat a, unat b, unat (bytes_word [c1, c2, c3, c4]))
   | _ \<Rightarrow> Inl StructError)"

text \<open>The default prefix is \<open>SWIM?!\<close>.\<close>

definition default_xor :: bytes where
  "default_xor = utf8 ''SWIM?!''"

definition udp_pack_init :: "signatures \<Rightarrow> int \<Rightarrow> bytes \<Rightarrow> py_error + udp_pack" where
  "udp_pack_init signatures pickle_protocol prefix_xor =
     (if length prefix_xor \<noteq> prefix_size then Inl ValueError
      else Inr \<lparr>pk_signatures = signatures, pk_pickle_protocol = pickle_protocol,
                pk_prefix_xor = prefix_xor\<rparr>)"

text \<open>\<open>zip\<close> with \<open>strict=True\<close> raises ValueError for different lengths.\<close>

definition xor_prefix :: "udp_pack \<Rightarrow> bytes \<Rightarrow> py_error + bytes" where
  "xor_prefix u prefix =
     (if length prefix = length (pk_prefix_xor u)
      then Inr (map2 (\<lambda>left right. left XOR right) prefix (pk_prefix_xor u))
      else Inl ValueError)"

subsection \<open>pack and unpack\<close>

text \<open>The slices of the buffer are filled with bytes of their own length, one after the other.\<close>

definition pack :: "pickler \<Rightarrow> udp_pack \<Rightarrow> bytes \<Rightarrow> packet \<Rightarrow> py_error + bytes" where
  "pack pk u random packet =
     (let pickled = dumps pk (pk_pickle_protocol u) packet;
          sig = sign (pk_signatures u) random pickled
      in result_bind (struct_pack (length (sig_salt sig)) (length (sig_digest sig)) (length pickled))
           (\<lambda>prefix. result_bind (xor_prefix u prefix)
             (\<lambda>prefix. Inr (prefix @ sig_salt sig @ sig_digest sig @ pickled))))"

definition load_packet :: "pickler \<Rightarrow> bytes \<Rightarrow> py_error + packet option" where
  "load_packet pk pickled = result_bind (loads pk pickled)
     (\<lambda>packet. if packet = None then Inl AssertionError else Inr packet)"

definition unpack :: "pickler \<Rightarrow> udp_pack \<Rightarrow> bytes \<Rightarrow> py_error + packet option" where
  "unpack pk u data =
     result_bind (xor_prefix u (py_slice 0 prefix_size data)) (\<lambda>prefix.
     (case struct_unpack prefix of
        Inl _ \<Rightarrow> Inr None
      | Inr (salt_len, digest_len, data_len) \<Rightarrow>
          (let digest_start = prefix_size + salt_len;
               data_start = digest_start + digest_len;
               data_end = data_start + data_len;
               salt = py_slice prefix_size digest_start data;
               digest = py_slice digest_start data_start data;
               pickled = py_slice data_start data_end data
           in if length digest \<noteq> sg_digest_size (pk_signatures u) \<or> length pickled \<noteq> data_len
              then Inr None
              else if verify (pk_signatures u) pickled (salt, digest) then load_packet pk pickled
              else Inr None)))"

subsection \<open>Lemmas\<close>

lemma bytes_word_bytes [simp]: "bytes_word (word_bytes w) = w"
proof (rule bit_word_eqI)
  fix n assume n: "n < LENGTH(32)"
  show "bit (bytes_word (word_bytes w)) n = bit w n"
    by (cases "n < 8"; cases "n < 16"; cases "n < 24"; use n in
      \<open>auto simp: bytes_word_def word_bytes_def bit_or_iff bit_push_bit_iff bit_ucast_iff bit_drop_bit_eq
         less_diff_conv2\<close>)
qed

lemma map2_xor_twice: "length p = length k \<Longrightarrow> map2 (XOR) (map2 (XOR) p k) k = (p :: bytes)"
  by (induction p k rule: list_induct2) (simp_all add: xor.assoc)

lemma xor_prefix_involution:
  assumes "xor_prefix u p = Inr q"
  shows "xor_prefix u q = Inr p" and "length q = length p"
proof -
  have l: "length p = length (pk_prefix_xor u)"
    and q: "q = map2 (\<lambda>left right. left XOR right) p (pk_prefix_xor u)"
    using assms by (auto simp: xor_prefix_def split: if_splits)
  have "map2 (\<lambda>left right. left XOR right) q (pk_prefix_xor u) = p"
    unfolding q using l by (simp add: map2_xor_twice)
  with l q show "xor_prefix u q = Inr p" "length q = length p" by (simp_all add: xor_prefix_def)
qed

lemma struct_roundtrip:
  assumes "struct_pack a b c = Inr p"
  shows "struct_unpack p = Inr (a, b, c)" and "length p = 6"
  using assms
  by (auto simp: struct_pack_def struct_unpack_def word_bytes_def unat_of_nat bytes_word_bytes [unfolded word_bytes_def, simplified]
      split: if_splits)

lemma xor_prefix_length: "length p = length (pk_prefix_xor u) \<Longrightarrow> \<exists>q. xor_prefix u p = Inr q"
  by (simp add: xor_prefix_def)

text \<open>The prefix that announces the given lengths; it does not depend on the secret.\<close>

lemma prefix_exists:
  assumes "length (pk_prefix_xor u) = 6" and "a < 256" and "b < 256" and "c < 4294967296"
  obtains p q where "struct_pack a b c = Inr p" and "xor_prefix u p = Inr q" and "length q = 6"
proof -
  obtain p where p: "struct_pack a b c = Inr p" using assms(2-4) by (simp add: struct_pack_def)
  obtain q where q: "xor_prefix u p = Inr q"
    using xor_prefix_length [of p u] struct_roundtrip(2) [OF p] assms(1) by auto
  with p that show thesis using xor_prefix_involution(2) [OF q] struct_roundtrip(2) [OF p] by simp
qed

lemma unpack_frame:
  assumes "struct_pack (length salt) (length dig) (length pickled) = Inr p"
    and "xor_prefix u p = Inr q"
  shows "unpack pk u (q @ salt @ dig @ pickled @ extra) =
    (if length dig = sg_digest_size (pk_signatures u) \<and> verify (pk_signatures u) pickled (salt, dig)
     then load_packet pk pickled else Inr None)"
proof -
  have q: "length q = 6" "xor_prefix u q = Inr p" "struct_unpack p = Inr (length salt, length dig, length pickled)"
    using xor_prefix_involution [OF assms(2)] struct_roundtrip [OF assms(1)] by simp_all
  let ?d = "q @ salt @ dig @ pickled @ extra"
  have slices: "py_slice 0 prefix_size ?d = q" "py_slice prefix_size (prefix_size + length salt) ?d = salt"
    "py_slice (prefix_size + length salt) (prefix_size + length salt + length dig) ?d = dig"
    "py_slice (prefix_size + length salt + length dig)
       (prefix_size + length salt + length dig + length pickled) ?d = pickled"
    using q(1) by (simp_all add: py_slice_def prefix_size_def)
  show ?thesis
    by (simp only: unpack_def slices q(2,3) result_bind_simps sum.case prod.case Let_def) simp
qed

lemma pack_frame:
  fixes pk packet
  assumes "pk_signatures u = signatures_init node sec n cv" and "length (pk_prefix_xor u) = 6"
    and "length random = 16"
  defines "pickled \<equiv> dumps pk (pk_pickle_protocol u) packet"
  shows "pack pk u random packet =
    (if length pickled < 4294967296
     then Inr (projr (xor_prefix u (projr (struct_pack 16 32 (length pickled)))) @ random @
            sig_digest (sign (pk_signatures u) random pickled) @ pickled)
     else Inl StructError)"
proof -
  let ?s = "sign (pk_signatures u) random pickled"
  have l: "length (sig_digest ?s) = 32" "sig_salt ?s = random"
    using hmac_signer.digest_length [of node sec n cv random pickled] assms(1,3)
    by (simp_all add: signatures_init_def)
  show ?thesis
  proof (cases "length pickled < 4294967296")
    case True
    then obtain p q where "struct_pack 16 32 (length pickled) = Inr p" "xor_prefix u p = Inr q" "length q = 6"
      using prefix_exists [OF assms(2), of 16 32 "length pickled"] by auto
    with True l assms(3) show ?thesis by (simp add: pack_def Let_def flip: pickled_def)
  next
    case False
    with l assms(3) show ?thesis by (simp add: pack_def Let_def struct_pack_def flip: pickled_def)
  qed
qed

text \<open>
  What it takes to pack a packet: a signer made by its constructor, a prefix mask of 6 bytes, a
  salt of 16, and a pickle that is not too long and loads back.
\<close>

definition signer_made :: "udp_pack \<Rightarrow> bool" where
  "signer_made u \<longleftrightarrow> (\<exists>node sec n cv. pk_signatures u = signatures_init node sec n cv)"

definition packable :: "pickler \<Rightarrow> udp_pack \<Rightarrow> bytes \<Rightarrow> packet \<Rightarrow> bool" where
  "packable pk u random packet \<longleftrightarrow>
     signer_made u \<and> length (pk_prefix_xor u) = 6 \<and> length random = 16 \<and>
     length (dumps pk (pk_pickle_protocol u) packet) < 4294967296 \<and>
     loads pk (dumps pk (pk_pickle_protocol u) packet) = Inr (Some packet)"

lemma packable_unpacks:
  assumes "packable pk u random packet"
  obtains d where "pack pk u random packet = Inr d"
    and "length d = 54 + length (dumps pk (pk_pickle_protocol u) packet)"
    and "\<And>extra. unpack pk u (d @ extra) = Inr (Some packet)"
proof -
  let ?pickled = "dumps pk (pk_pickle_protocol u) packet"
  let ?dig = "sig_digest (sign (pk_signatures u) random ?pickled)"
  obtain node sec n cv where s: "pk_signatures u = signatures_init node sec n cv"
    and a: "length (pk_prefix_xor u) = 6" "length random = 16" "length ?pickled < 4294967296"
      "loads pk ?pickled = Inr (Some packet)"
    using assms by (auto simp: packable_def signer_made_def)
  have l: "length ?dig = 32" "sg_digest_size (pk_signatures u) = 32"
    using hmac_signer.digest_length [of node sec n cv random ?pickled] s by (simp_all add: signatures_init_def)
  have v: "verify (pk_signatures u) ?pickled (random, ?dig)"
    using hmac_signer.sign_verifies [of node sec n cv ?pickled random] s a(2) by simp
  obtain p q where pq: "struct_pack 16 32 (length ?pickled) = Inr p" "xor_prefix u p = Inr q" "length q = 6"
    using prefix_exists [OF a(1), of 16 32] a(3) by auto
  have pk: "pack pk u random packet = Inr (q @ random @ ?dig @ ?pickled)"
    using pack_frame [OF s a(1,2)] a(3) pq by simp
  have "unpack pk u ((q @ random @ ?dig @ ?pickled) @ extra) = Inr (Some packet)" for extra
    using unpack_frame [of random ?dig ?pickled p u q pk extra] pq l v a(2,4) by (simp add: load_packet_def)
  with pk pq(3) l a(2) that show thesis by simp
qed

subsection \<open>Properties\<close>

text \<open>A pickler of pings from sources without validity, for the examples.\<close>

definition demo_pickler :: pickler where
  "demo_pickler =
     \<lparr>dumps = (\<lambda>_ packet. 80 # map (\<lambda>c. word_of_nat (of_char c)) (src_name (packet_source packet))),
      loads = (\<lambda>bs. case bs of
        b # name \<Rightarrow>
          if b = 80 then Inr (Some (Ping \<lparr>src_name = map (\<lambda>w. char_of (unat w)) name, src_validity = []\<rparr>))
          else Inl UnpicklingError
      | [] \<Rightarrow> Inl UnpicklingError)\<rparr>"

definition demo_pack :: udp_pack where
  "demo_pack = \<lparr>pk_signatures = signatures_init 0 (Str_secret ''my secret'') 16 True,
     pk_pickle_protocol = 5, pk_prefix_xor = default_xor\<rparr>"

lemma demo_pickler_simps:
  "dumps demo_pickler n (Ping \<lparr>src_name = ''a'', src_validity = []\<rparr>) = [80, 97]"
  "loads demo_pickler [80, 97] = Inr (Some (Ping \<lparr>src_name = ''a'', src_validity = []\<rparr>))"
  "loads demo_pickler [80, 80, 97] = Inr (Some (Ping \<lparr>src_name = ''Pa'', src_validity = []\<rparr>))"
  by (simp_all add: demo_pickler_def char_of_def bit_Suc_0_iff)

lemma demo_pack_simps:
  "pk_signatures demo_pack = signatures_init 0 (Str_secret ''my secret'') 16 True"
  "length (pk_prefix_xor demo_pack) = 6"
  by (simp_all add: demo_pack_def default_xor_def utf8_def utf8_char_def)

text \<open>
  C28: What is packed is unpacked: a packet whose pickle is shorter than \<open>2^32\<close> bytes is packed
  into 54 bytes more than that, and unpacking them, whatever bytes follow, gives the packet back.
  A longer pickle raises struct.error.
\<close>

theorem pack_unpack:
  assumes "pk_signatures u = signatures_init node sec n cv" and "length (pk_prefix_xor u) = 6"
    and "length random = 16" and "loads pk (dumps pk (pk_pickle_protocol u) packet) = Inr (Some packet)"
  shows "if length (dumps pk (pk_pickle_protocol u) packet) < 4294967296
    then \<exists>d. pack pk u random packet = Inr d \<and>
      length d = 54 + length (dumps pk (pk_pickle_protocol u) packet) \<and>
      (\<forall>extra. unpack pk u (d @ extra) = Inr (Some packet))
    else pack pk u random packet = Inl StructError"
proof (cases "length (dumps pk (pk_pickle_protocol u) packet) < 4294967296")
  case True
  then have "packable pk u random packet" using assms by (auto simp: packable_def signer_made_def)
  then show ?thesis using True by (auto elim: packable_unpacks)
next
  case False
  then show ?thesis using pack_frame [OF assms(1-3)] by simp
qed

theorem pack_unpack_witness:
  "\<exists>d. pack demo_pickler demo_pack (replicate 16 7) (Ping \<lparr>src_name = ''a'', src_validity = []\<rparr>) = Inr d \<and>
     length d = 56 \<and> (\<forall>extra. unpack demo_pickler demo_pack (d @ extra) =
       Inr (Some (Ping \<lparr>src_name = ''a'', src_validity = []\<rparr>)))"
  using pack_unpack [of demo_pack 0 "Str_secret ''my secret''" 16 True "replicate 16 7" demo_pickler
      "Ping \<lparr>src_name = ''a'', src_validity = []\<rparr>"]
  by (simp add: demo_pack_simps demo_pickler_simps)

text \<open>
  C27: What unpacking arbitrary bytes does. Fewer than 6 bytes raise ValueError, although malformed
  or incomplete data is documented to give \<open>None\<close>. Otherwise either \<open>None\<close> is returned, or
  the bytes hold a salt, a digest and a body of which the digest verifies under the secret, and
  the result is what loading the body gives: nothing unsigned is ever loaded.
\<close>

theorem unpack_result:
  assumes "length (pk_prefix_xor u) = 6"
  shows "if length d < 6 then unpack pk u d = Inl ValueError
    else unpack pk u d = Inr None \<or>
      (\<exists>pre salt dig body rest. d = pre @ salt @ dig @ body @ rest \<and> length pre = 6 \<and>
         length dig = sg_digest_size (pk_signatures u) \<and>
         dig = salted_digest (pk_signatures u) salt body \<and> unpack pk u d = load_packet pk body)"
proof (cases "length d < 6")
  case True
  then show ?thesis using assms by (simp add: unpack_def prefix_size_def xor_prefix_def)
next
  case False
  then have "length (py_slice 0 6 d) = 6" by simp
  then obtain p where p: "xor_prefix u (py_slice 0 6 d) = Inr p" "length p = 6"
    using xor_prefix_length [of "py_slice 0 6 d" u] xor_prefix_involution(2) assms by metis
  obtain a b c where abc: "struct_unpack p = Inr (a, b, c)"
    using p(2) by (auto simp: struct_unpack_def numeral_eq_Suc length_Suc_conv)
  define salt dig body where "salt = py_slice 6 (6 + a) d" and "dig = py_slice (6 + a) (6 + a + b) d"
    and "body = py_slice (6 + a + b) (6 + a + b + c) d"
  have u: "unpack pk u d =
      (if length dig \<noteq> sg_digest_size (pk_signatures u) \<or> length body \<noteq> c then Inr None
       else if verify (pk_signatures u) body (salt, dig) then load_packet pk body else Inr None)"
    using p(1) abc by (simp add: unpack_def prefix_size_def Let_def salt_def dig_def body_def)
  have "d = take 6 d @ salt @ dig @ body @ drop (6 + a + b + c) d"
    by (simp add: salt_def dig_def body_def py_slice_drop)
  moreover have "length (take 6 d) = 6" using False by simp
  moreover have "unpack pk u d = Inr None \<or>
      length dig = sg_digest_size (pk_signatures u) \<and> dig = salted_digest (pk_signatures u) salt body \<and>
      unpack pk u d = load_packet pk body"
    using u by (simp add: verify_def)
  ultimately show ?thesis using False by (simp only: if_False) blast
qed

theorem unpack_result_witness:
  "unpack demo_pickler demo_pack [1, 2, 3] = Inl ValueError"
  using unpack_result [of demo_pack "[1, 2, 3]" demo_pickler] by (simp add: demo_pack_simps)

text \<open>
  C29: The boundary between salt and body is not protected. From one captured datagram, without
  the secret, anybody can make another that unpacks by loading any tail of its salt and body: the
  lengths stand in the prefix, which is not signed, and the digest covers salt and body joined.
\<close>

theorem reframed_datagram_accepted:
  assumes "pk_signatures u = signatures_init node sec n cv" and "length (pk_prefix_xor u) = 6"
    and "length random = 16" and "pack pk u random packet = Inr d"
    and "salt' @ body = py_slice 6 22 d @ drop 54 d" and "length salt' < 256"
    and "length body < 4294967296"
  shows "\<exists>pre. length pre = 6 \<and> unpack pk u (pre @ salt' @ py_slice 22 54 d @ body) = load_packet pk body"
proof -
  let ?pickled = "dumps pk (pk_pickle_protocol u) packet"
  let ?dig = "sig_digest (sign (pk_signatures u) random ?pickled)"
  have l: "length ?dig = 32" "sg_digest_size (pk_signatures u) = 32"
    using hmac_signer.digest_length [of node sec n cv random ?pickled] assms(1)
    by (simp_all add: signatures_init_def)
  have lp: "length ?pickled < 4294967296"
    using assms(4) pack_frame [OF assms(1-3)] by (auto split: if_splits)
  obtain p0 q0 where q0: "struct_pack 16 32 (length ?pickled) = Inr p0" "xor_prefix u p0 = Inr q0" "length q0 = 6"
    using prefix_exists [OF assms(2), of 16 32] lp by auto
  then have d: "d = q0 @ random @ ?dig @ ?pickled"
    using pack_frame [OF assms(1-3)] assms(4) lp by simp
  have parts: "py_slice 6 22 d = random" "py_slice 22 54 d = ?dig" "drop 54 d = ?pickled"
    using q0(3) assms(3) l(1) by (simp_all add: d py_slice_def)
  have "verify (pk_signatures u) body (salt', ?dig)"
    using hmac_signer.sign_verifies [of node sec n cv ?pickled random] assms(1,3,5) parts
      verify_joined [of salt' body random ?pickled "pk_signatures u" ?dig] by simp
  moreover obtain p q where "struct_pack (length salt') 32 (length body) = Inr p"
    "xor_prefix u p = Inr q" "length q = 6"
    using prefix_exists [OF assms(2), of "length salt'" 32 "length body"] assms(6,7) by auto
  ultimately show ?thesis
    using unpack_frame [of salt' ?dig body p u q pk "[]"] l parts by (intro exI [of _ q]) simp
qed

theorem reframed_datagram_accepted_witness:
  "\<exists>d pre. pack demo_pickler demo_pack (replicate 16 80) (Ping \<lparr>src_name = ''a'', src_validity = []\<rparr>) = Inr d \<and>
     unpack demo_pickler demo_pack (pre @ replicate 15 80 @ py_slice 22 54 d @ [80, 80, 97]) =
       Inr (Some (Ping \<lparr>src_name = ''Pa'', src_validity = []\<rparr>))"
proof -
  let ?p = "Ping \<lparr>src_name = ''a'', src_validity = []\<rparr>"
  let ?r = "replicate 16 80 :: bytes"
  have r: "length ?r = 16" by simp
  note x = demo_pack_simps(2) and s = demo_pack_simps(1)
  have b: "dumps demo_pickler (pk_pickle_protocol demo_pack) ?p = [80, 97]"
    by (simp add: demo_pickler_simps)
  obtain p q where pq: "struct_pack 16 32 2 = Inr p" "xor_prefix demo_pack p = Inr q" "length q = 6"
    using prefix_exists [OF x, of 16 32 2] by auto
  let ?dig = "sig_digest (sign (pk_signatures demo_pack) ?r [80, 97])"
  have d: "pack demo_pickler demo_pack ?r ?p = Inr (q @ ?r @ ?dig @ [80, 97])"
    using pack_frame [OF s x r, of demo_pickler ?p] pq b by (simp add: numeral_2_eq_2)
  have l: "length ?dig = 32"
    using hmac_signer.digest_length [of 0 "Str_secret ''my secret''" 16 True ?r "[80, 97]"] s
    by (simp add: signatures_init_def)
  have e: "replicate 15 80 @ [80, 80, 97] = py_slice 6 22 (q @ ?r @ ?dig @ [80, 97]) @ drop 54 (q @ ?r @ ?dig @ [80, 97])"
    using pq(3) l by (simp add: py_slice_def numeral_eq_Suc)
  show ?thesis
    using reframed_datagram_accepted [OF s x r d e] d by (auto simp: load_packet_def demo_pickler_simps)
qed

end
