(* ===== verification/Swim_Config.thy ===== *)
theory Swim_Config
  imports Complex_Main Swim_Sign
begin

text \<open>
  The class \<open>BaseConfig\<close> of \<open>swimprotocol/config.py\<close>: the options it adds to the command
  line, the keyword arguments made of the options and the environment, and the constructor.
\<close>

subsection \<open>Python values\<close>

text \<open>
  The values of keyword arguments and of options. A parameter whose annotation the program respects
  has the HOL type of it. The conversions are no checks of the program, which has none: they end the
  model with \<open>Ill_typed\<close> where a value does not fit the annotation, and \<open>from_args_types\<close> shows that
  this never happens to the values that the program makes of its options and its environment.
\<close>

datatype py_value =
    PNone
  | PBool bool
  | PInt int
  | PFloat rat
  | PStr string
  | PBytes bytes
  | PList "string list"
  | PDict metadata

fun truthy :: "py_value \<Rightarrow> bool" where
  "truthy PNone = False"
| "truthy (PBool b) = b"
| "truthy (PInt i) = (i \<noteq> 0)"
| "truthy (PFloat r) = (r \<noteq> 0)"
| "truthy (PStr s) = (s \<noteq> [])"
| "truthy (PBytes b) = (b \<noteq> [])"
| "truthy (PList l) = (l \<noteq> [])"
| "truthy (PDict m) = (m \<noteq> {})"

fun as_str :: "py_value \<Rightarrow> py_error + string option" where
  "as_str PNone = Inr None"
| "as_str (PStr s) = Inr (Some s)"
| "as_str _ = Inl Ill_typed"

fun as_int :: "py_value \<Rightarrow> py_error + int option" where
  "as_int PNone = Inr None"
| "as_int (PInt i) = Inr (Some i)"
| "as_int _ = Inl Ill_typed"

fun as_list :: "py_value \<Rightarrow> py_error + string list" where
  "as_list (PList l) = Inr l"
| "as_list _ = Inl Ill_typed"

fun as_dict :: "py_value \<Rightarrow> py_error + metadata" where
  "as_dict (PDict m) = Inr m"
| "as_dict _ = Inl Ill_typed"

fun as_secret :: "py_value \<Rightarrow> py_error + secret" where
  "as_secret PNone = Inr No_secret"
| "as_secret (PStr s) = Inr (Str_secret s)"
| "as_secret (PBytes b) = Inr (Bytes_secret b)"
| "as_secret _ = Inl Ill_typed"

type_synonym kwargs = "(string \<times> py_value) list"

text \<open>\<open>d |= e\<close>, and the value of a keyword parameter with a default.\<close>

definition dict_merge :: "kwargs \<Rightarrow> kwargs \<Rightarrow> kwargs" where
  "dict_merge d e = fold (\<lambda>(k, v). AList.update k v) e d"

definition kw :: "kwargs \<Rightarrow> string \<Rightarrow> py_value \<Rightarrow> py_value" where
  "kw kwargs name dflt = (case map_of kwargs name of None \<Rightarrow> dflt | Some v \<Rightarrow> v)"

subsection \<open>The constructor\<close>

record base_config =
  cf_signatures :: signatures
  cf_local_name :: string
  cf_peers :: "string list"
  cf_local_metadata :: metadata
  cf_ping_interval :: py_value
  cf_ping_timeout :: py_value
  cf_ping_req_count :: py_value
  cf_ping_req_timeout :: py_value
  cf_suspect_timeout :: py_value
  cf_sync_interval :: py_value

definition base_required :: "string list" where
  "base_required = [''secret'', ''local_name'', ''peers'']"

definition base_keywords :: "string list" where
  "base_keywords = base_required @ [''local_metadata'', ''ping_interval'', ''ping_timeout'',
     ''ping_req_count'', ''ping_req_timeout'', ''suspect_timeout'', ''sync_interval'']"

text \<open>\<open>_validate\<close>; \<open>None\<close> is not a name either.\<close>

definition config_validate :: "string option \<Rightarrow> py_error + string" where
  "config_validate local_name =
     (case local_name of None \<Rightarrow> Inl ConfigError | Some n \<Rightarrow> if n = [] then Inl ConfigError else Inr n)"

definition base_config_init :: "nat \<Rightarrow> kwargs \<Rightarrow> py_error + base_config" where
  "base_config_init node kwargs =
     (if \<not> set base_required \<subseteq> keys_of kwargs \<or> \<not> keys_of kwargs \<subseteq> set base_keywords
      then Inl TypeError
      else result_bind (as_secret (kw kwargs ''secret'' PNone)) (\<lambda>secret.
        result_bind (as_str (kw kwargs ''local_name'' PNone)) (\<lambda>local_name.
        result_bind (as_list (kw kwargs ''peers'' PNone)) (\<lambda>peers.
        result_bind (as_dict (kw kwargs ''local_metadata'' (PDict {}))) (\<lambda>local_metadata.
        result_bind (config_validate local_name) (\<lambda>local_name.
        Inr \<lparr>cf_signatures = signatures_init node secret 16 True,
          cf_local_name = local_name, cf_peers = peers, cf_local_metadata = local_metadata,
          cf_ping_interval = kw kwargs ''ping_interval'' (PFloat 1),
          cf_ping_timeout = kw kwargs ''ping_timeout'' (PFloat (3 / 10)),
          cf_ping_req_count = kw kwargs ''ping_req_count'' (PInt 1),
          cf_ping_req_timeout = kw kwargs ''ping_req_timeout'' (PFloat (9 / 10)),
          cf_suspect_timeout = kw kwargs ''suspect_timeout'' (PFloat 5),
          cf_sync_interval = kw kwargs ''sync_interval'' (PFloat (1 / 2))\<rparr>))))))"

subsection \<open>Options\<close>

datatype action = Store | Append | Store_true

record argument =
  arg_flag :: string
  arg_dest :: string
  arg_action :: action
  arg_int :: bool
  arg_default :: py_value

definition base_arguments :: "string \<Rightarrow> argument list" where
  "base_arguments prefix =
     [\<lparr>arg_flag = prefix @ ''secret'', arg_dest = ''swim_secret'', arg_action = Store,
       arg_int = False, arg_default = PNone\<rparr>,
      \<lparr>arg_flag = prefix @ ''name'', arg_dest = ''swim_name'', arg_action = Store,
       arg_int = False, arg_default = PNone\<rparr>,
      \<lparr>arg_flag = prefix @ ''peer'', arg_dest = ''swim_peers'', arg_action = Append,
       arg_int = False, arg_default = PList []\<rparr>]"

text \<open>
  The namespace that \<open>argparse\<close> makes of the options on the command line, given as flags with
  their values in order (the value of a \<open>store_true\<close> flag is not looked at). An unknown flag
  or a value that is no integer where one is expected exits with a usage message.
\<close>

definition store_option :: "argument \<Rightarrow> string \<Rightarrow> kwargs \<Rightarrow> py_error + kwargs" where
  "store_option a v ns = (case arg_action a of
     Store_true \<Rightarrow> Inr (AList.update (arg_dest a) (PBool True) ns)
   | Append \<Rightarrow>
       (case map_of ns (arg_dest a) of
          Some (PList l) \<Rightarrow> Inr (AList.update (arg_dest a) (PList (l @ [v])) ns)
        | _ \<Rightarrow> Inr (AList.update (arg_dest a) (PList [v]) ns))
   | Store \<Rightarrow>
       (if arg_int a
        then (case py_int v of
                Inl _ \<Rightarrow> Inl SystemExit
              | Inr i \<Rightarrow> Inr (AList.update (arg_dest a) (PInt i) ns))
        else Inr (AList.update (arg_dest a) (PStr v) ns)))"

fun store_options :: "argument list \<Rightarrow> (string \<times> string) list \<Rightarrow> kwargs \<Rightarrow> py_error + kwargs" where
  "store_options spec [] ns = Inr ns"
| "store_options spec ((flag, v) # given) ns =
     (case List.find (\<lambda>a. arg_flag a = flag) spec of
        None \<Rightarrow> Inl SystemExit
      | Some a \<Rightarrow> result_bind (store_option a v ns) (store_options spec given))"

definition parse_options :: "argument list \<Rightarrow> (string \<times> string) list \<Rightarrow> py_error + kwargs" where
  "parse_options spec given = store_options spec given (map (\<lambda>a. (arg_dest a, arg_default a)) spec)"

subsection \<open>The environment\<close>

text \<open>
  The variables, and what \<open>open(Path(p).expanduser()).read()\<close> does for each path; the host name
  resolution and the socket calls are here for the subclass.
\<close>

record environment =
  getenv :: "string \<Rightarrow> string option"
  read_text :: "string \<Rightarrow> py_error + string"
  gethostbyname :: "string \<Rightarrow> py_error + string list"
  connect_sockname :: "string \<Rightarrow> int \<Rightarrow> py_error + string"

definition is_newline :: "char \<Rightarrow> bool" where
  "is_newline c \<longleftrightarrow> of_char c = (13 :: nat) \<or> of_char c = (10 :: nat)"

definition get_env :: "environment \<Rightarrow> string \<Rightarrow> string \<Rightarrow> py_error + string option" where
  "get_env E env_prefix env =
     (case getenv E (env_prefix @ ''_'' @ env @ ''_FILE'') of
        Some env_file_val \<Rightarrow>
          (case read_text E env_file_val of
             Inr t \<Rightarrow> Inr (Some (rstrip is_newline t))
           | Inl e \<Rightarrow>
               if is_os_error e then Inr (getenv E (env_prefix @ ''_'' @ env)) else Inl e)
      | None \<Rightarrow> Inr (getenv E (env_prefix @ ''_'' @ env)))"

definition get_env_list :: "environment \<Rightarrow> string \<Rightarrow> string \<Rightarrow> py_error + string list" where
  "get_env_list E env_prefix env = result_bind (get_env E env_prefix env) (\<lambda>v.
     case v of
       None \<Rightarrow> Inr []
     | Some s \<Rightarrow> if s = [] then Inr [] else Inr (split_on CHR '','' s))"

definition opt_value :: "string option \<Rightarrow> py_value" where
  "opt_value v = (case v of None \<Rightarrow> PNone | Some s \<Rightarrow> PStr s)"

text \<open>\<open>x or y\<close>, where \<open>y\<close> is evaluated only if \<open>x\<close> is false.\<close>

definition py_or :: "py_value \<Rightarrow> py_error + py_value \<Rightarrow> py_error + py_value" where
  "py_or x y = (if truthy x then Inr x else y)"

definition parse_args :: "environment \<Rightarrow> kwargs \<Rightarrow> string \<Rightarrow> py_error + kwargs" where
  "parse_args E args env_prefix =
     result_bind (py_or (kw args ''swim_secret'' PNone)
       (map_sum id opt_value (get_env E env_prefix ''SECRET''))) (\<lambda>secret.
     result_bind (py_or (kw args ''swim_name'' PNone)
       (map_sum id opt_value (get_env E env_prefix ''NAME''))) (\<lambda>local_name.
     result_bind (py_or (kw args ''swim_peers'' PNone)
       (map_sum id PList (get_env_list E env_prefix ''PEERS''))) (\<lambda>peers.
     Inr [(''secret'', secret), (''local_name'', local_name), (''peers'', peers)])))"

text \<open>\<open>from_args\<close>, with the constructor and \<open>parse_args\<close> of the class it is called on.\<close>

definition from_args ::
    "(kwargs \<Rightarrow> py_error + kwargs) \<Rightarrow> (kwargs \<Rightarrow> py_error + 'c) \<Rightarrow> kwargs \<Rightarrow> kwargs \<Rightarrow> py_error + 'c" where
  "from_args cls_parse_args cls args overrides =
     result_bind (cls_parse_args args) (\<lambda>kwargs. cls (dict_merge kwargs overrides))"

definition base_from_args :: "nat \<Rightarrow> environment \<Rightarrow> kwargs \<Rightarrow> kwargs \<Rightarrow> py_error + base_config" where
  "base_from_args node E = from_args (\<lambda>args. parse_args E args ''SWIM'') (base_config_init node)"

end
