(* ===== verification/Swim_Address.thy ===== *)
theory Swim_Address
  imports Swim_Text
begin

text \<open>
  The dataclass \<open>Address\<close> and the class \<open>AddressParser\<close> of \<open>swimprotocol/address.py\<close>.
\<close>

subsection \<open>Address\<close>

datatype address = Address (addr_host: string) (addr_port: int)

definition address_get :: "string \<times> int \<Rightarrow> address" where
  "address_get addr = Address (fst addr) (snd addr)"

definition address_str :: "address \<Rightarrow> string" where
  "address_str a = join_with CHR '':'' [addr_host a, show_int (addr_port a)]"

text \<open>\<open>order=True\<close> compares the addresses as the tuples of their fields.\<close>

instantiation address :: linorder
begin

definition less_eq_address :: "address \<Rightarrow> address \<Rightarrow> bool" where
  "less_eq_address a b \<longleftrightarrow> addr_host a < addr_host b \<or> addr_host a = addr_host b \<and> addr_port a \<le> addr_port b"

definition less_address :: "address \<Rightarrow> address \<Rightarrow> bool" where
  "less_address a b \<longleftrightarrow> addr_host a < addr_host b \<or> addr_host a = addr_host b \<and> addr_port a < addr_port b"

instance
  by standard (auto simp: less_eq_address_def less_address_def address.expand)

end

subsection \<open>AddressParser\<close>

text \<open>The address type is always \<open>Address\<close> in the program.\<close>

record address_parser =
  ap_default_host :: "string option"
  ap_default_port :: "int option"

definition address_parse :: "address_parser \<Rightarrow> string \<Rightarrow> py_error + address" where
  "address_parse p address = (case rpartition CHR '':'' address of (h, sep, t) \<Rightarrow>
     if sep \<noteq> '':'' then
       (case ap_default_port p of
          Some n \<Rightarrow> Inr (Address h n)
        | None \<Rightarrow> Inl ValueError)
     else if h \<noteq> [] then map_sum id (Address h) (py_int t)
     else
       (case ap_default_host p of
          Some d \<Rightarrow> map_sum id (Address d) (py_int t)
        | None \<Rightarrow> Inl ValueError))"

lemma address_str_inject: "address_str a = address_str b \<longleftrightarrow> a = b"
proof
  assume "address_str a = address_str b"
  then have "rpartition CHR '':'' (addr_host a @ CHR '':'' # show_int (addr_port a)) =
    rpartition CHR '':'' (addr_host b @ CHR '':'' # show_int (addr_port b))"
    by (simp add: address_str_def)
  then show "a = b" by (simp add: rpartition_last address.expand)
qed simp

lemma address_parse_str: "addr_host a \<noteq> [] \<Longrightarrow> address_parse p (address_str a) = Inr a"
  by (simp add: address_parse_def address_str_def rpartition_last)

lemma address_parse_text:
  "address_parse p (address_str a) =
     (if addr_host a \<noteq> [] then Inr a
      else case ap_default_host p of
             Some h \<Rightarrow> Inr (Address h (addr_port a))
           | None \<Rightarrow> Inl ValueError)"
  by (simp add: address_parse_def address_str_def rpartition_last split: option.split)

lemma address_parse_error: "address_parse p s = Inl e \<Longrightarrow> e = ValueError"
  by (auto simp: address_parse_def py_int_def split: prod.splits if_splits option.splits list.splits)

text \<open>
  C34: What a parse gives. A string with no colon is never taken as a host: it gives the empty host
  with the default port, or ValueError if there is none, although the default port is documented
  for addresses such as \<open>example.tld\<close>. With a colon the part after the last one has to be an
  integer and the part before it the host, or empty when there is a default host; whatever else there
  is raises ValueError, and nothing raises anything else. The text of an address with a host parses
  back to the address, whatever its host (colons included, as in an IPv6 address) and its port;
  without a host the default host is filled in, or ValueError raised.
\<close>

theorem address_parse_result:
  "(CHR '':'' \<notin> set s \<longrightarrow> address_parse p s =
      (case ap_default_port p of Some n \<Rightarrow> Inr (Address [] n) | None \<Rightarrow> Inl ValueError)) \<and>
   (CHR '':'' \<in> set s \<longrightarrow> (\<exists>h t. s = h @ CHR '':'' # t \<and> CHR '':'' \<notin> set t \<and>
      (\<forall>a. address_parse p s = Inr a \<longleftrightarrow>
         py_int t = Inr (addr_port a) \<and>
         (if h \<noteq> [] then addr_host a = h else ap_default_host p = Some (addr_host a))))) \<and>
   (address_parse p s = Inl ValueError \<or> (\<exists>a. address_parse p s = Inr a)) \<and>
   address_parse p (address_str a) =
     (if addr_host a \<noteq> [] then Inr a
      else case ap_default_host p of
             Some h \<Rightarrow> Inr (Address h (addr_port a))
           | None \<Rightarrow> Inl ValueError)"
proof (intro conjI [OF _ conjI [OF _ conjI [OF _ address_parse_text]]], goal_cases)
  case 1
  then show ?case by (simp add: address_parse_def rpartition_none split: option.split)
next
  case 2
  show ?case
  proof (rule rpartition_cases [of "CHR '':''" s])
    assume "CHR '':'' \<notin> set s"
    then show ?thesis by simp
  next
    fix h t assume s: "s = h @ CHR '':'' # t" "CHR '':'' \<notin> set t"
    have "address_parse p s = Inr a \<longleftrightarrow> py_int t = Inr (addr_port a) \<and>
        (if h \<noteq> [] then addr_host a = h else ap_default_host p = Some (addr_host a))" for a
      by (cases a; cases "py_int t")
        (auto simp: s address_parse_def rpartition_last split: option.split)
    with s show ?thesis by auto
  qed
next
  case 3
  show ?case using address_parse_error [of p s] by (cases "address_parse p s") auto
qed

theorem address_parse_result_witness:
  "address_parse \<lparr>ap_default_host = None, ap_default_port = Some 80\<rparr> ''example.tld'' = Inr (Address [] 80) \<and>
   address_parse \<lparr>ap_default_host = None, ap_default_port = Some 80\<rparr> ''a:x'' = Inl ValueError"
proof -
  let ?p = "\<lparr>ap_default_host = None, ap_default_port = Some 80\<rparr>"
  have "py_int ''x'' \<noteq> Inr n" for n by (simp add: py_int_def strip_def is_space_def is_digit_def)
  then have "address_parse ?p ''a:x'' \<noteq> Inr a" for a
    using address_parse_result [of "''a:x''" ?p]
    by (auto simp: Cons_eq_append_conv)
  then show ?thesis
    using address_parse_result [of "''example.tld''" ?p] address_parse_result [of "''a:x''" ?p] by auto
qed

end
