(* ===== verification/Swim_Udp_Config.thy ===== *)
theory Swim_Udp_Config
  imports Swim_Config Swim_Address
begin

text \<open>
  The class \<open>UdpConfig\<close> of \<open>swimprotocol/udp/config.py\<close>, a record that extends the one of
  its base class, with the discovery of the cluster by DNS.
\<close>

record udp_config = base_config +
  uc_bind_host :: "string option"
  uc_bind_port :: py_value
  uc_address_parser :: address_parser
  uc_mtu_size :: int

subsection \<open>Discovery\<close>

definition resolve_name :: "environment \<Rightarrow> string \<Rightarrow> py_error + string list" where
  "resolve_name E hostname = (case gethostbyname E hostname of
     Inl e \<Rightarrow> if is_os_error e then Inl TransientConfigError else Inl e
   | Inr ipaddrlist \<Rightarrow>
       if ipaddrlist = [] then Inl TransientConfigError else Inr (remdups ipaddrlist))"

definition find_local_ip :: "environment \<Rightarrow> string \<Rightarrow> int \<Rightarrow> py_error + string option" where
  "find_local_ip E hostname port = (case connect_sockname E hostname port of
     Inl e \<Rightarrow> if is_os_error e then Inr None else Inl e
   | Inr ip \<Rightarrow> Inr (Some ip))"

text \<open>
  The order of the list made of the union of the two sets is not fixed by Python; here the
  resolved peers come first.
\<close>

definition discover :: "environment \<Rightarrow> address_parser \<Rightarrow> kwargs \<Rightarrow> py_error + kwargs" where
  "discover E address_parser kwargs =
     result_bind (as_str (kw kwargs ''local_name'' PNone)) (\<lambda>local_name.
     result_bind (as_list (kw kwargs ''peers'' (PList []))) (\<lambda>given_peers.
     (case local_name of
        None \<Rightarrow> Inl ConfigError
      | Some local_name \<Rightarrow>
          result_bind (address_parse address_parser local_name) (\<lambda>local_addr.
          result_bind (resolve_name E (addr_host local_addr)) (\<lambda>resolved.
          result_bind (find_local_ip E (addr_host local_addr) (addr_port local_addr)) (\<lambda>local_ip.
          (case local_ip of
             None \<Rightarrow> Inl TransientConfigError
           | Some local_ip \<Rightarrow>
               if local_ip \<notin> set resolved then Inl TransientConfigError
               else if removeAll local_ip resolved = [] then Inl TransientConfigError
               else
                 (let resolved_peers = map (\<lambda>peer_ip. address_str (Address peer_ip (addr_port local_addr)))
                        (removeAll local_ip resolved)
                  in Inr (AList.update ''peers'' (PList (remdups (resolved_peers @ given_peers)))
                       (AList.update ''local_name'' (PStr (address_str (Address local_ip (addr_port local_addr))))
                         (AList.delete ''peers'' (AList.delete ''local_name'' kwargs))))))))))))"

subsection \<open>The constructor\<close>

definition udp_keywords :: "string list" where
  "udp_keywords =
     [''bind_host'', ''bind_port'', ''default_host'', ''default_port'', ''discovery'', ''mtu_size'']"

definition udp_config_init :: "nat \<Rightarrow> environment \<Rightarrow> kwargs \<Rightarrow> py_error + udp_config" where
  "udp_config_init node E kwargs =
     result_bind (as_str (kw kwargs ''bind_host'' PNone)) (\<lambda>bind_host.
     result_bind (as_str (kw kwargs ''default_host'' PNone)) (\<lambda>default_host.
     result_bind (as_int (kw kwargs ''default_port'' PNone)) (\<lambda>default_port.
     result_bind (as_int (kw kwargs ''mtu_size'' (PInt 1500))) (\<lambda>mtu_size.
     (let address_parser = \<lparr>ap_default_host = default_host, ap_default_port = default_port\<rparr>;
          rest = filter (\<lambda>(k, v). k \<notin> set udp_keywords) kwargs
      in result_bind
           (if truthy (kw kwargs ''discovery'' (PBool False)) then discover E address_parser rest else Inr rest)
           (\<lambda>rest. result_bind (base_config_init node rest) (\<lambda>base.
           (case mtu_size of
              None \<Rightarrow> Inl Ill_typed
            | Some mtu_size \<Rightarrow>
                Inr (base_config.extend base
                  (udp_config.fields bind_host (kw kwargs ''bind_port'' PNone) address_parser mtu_size))))))))))"

subsection \<open>Options\<close>

definition udp_arguments :: "string \<Rightarrow> argument list" where
  "udp_arguments prefix = base_arguments prefix @
     [\<lparr>arg_flag = prefix @ ''udp-bind'', arg_dest = ''swim_udp_bind'', arg_action = Store,
       arg_int = False, arg_default = PNone\<rparr>,
      \<lparr>arg_flag = prefix @ ''udp-bind-port'', arg_dest = ''swim_udp_bind_port'', arg_action = Store,
       arg_int = False, arg_default = PNone\<rparr>,
      \<lparr>arg_flag = prefix @ ''udp-host'', arg_dest = ''swim_udp_host'', arg_action = Store,
       arg_int = False, arg_default = PNone\<rparr>,
      \<lparr>arg_flag = prefix @ ''udp-port'', arg_dest = ''swim_udp_port'', arg_action = Store,
       arg_int = True, arg_default = PNone\<rparr>,
      \<lparr>arg_flag = prefix @ ''udp-discovery'', arg_dest = ''swim_udp_discovery'', arg_action = Store_true,
       arg_int = False, arg_default = PBool False\<rparr>]"

definition udp_parse_args :: "environment \<Rightarrow> kwargs \<Rightarrow> string \<Rightarrow> py_error + kwargs" where
  "udp_parse_args E args env_prefix =
     result_bind (parse_args E args env_prefix) (\<lambda>kwargs.
     Inr (dict_merge kwargs
       [(''bind_host'', kw args ''swim_udp_bind'' PNone),
        (''bind_port'', kw args ''swim_udp_bind_port'' PNone),
        (''default_host'', kw args ''swim_udp_host'' PNone),
        (''default_port'', kw args ''swim_udp_port'' PNone),
        (''discovery'', kw args ''swim_udp_discovery'' PNone)]))"

definition udp_from_args :: "nat \<Rightarrow> environment \<Rightarrow> kwargs \<Rightarrow> kwargs \<Rightarrow> py_error + udp_config" where
  "udp_from_args node E = from_args (\<lambda>args. udp_parse_args E args ''SWIM'') (udp_config_init node E)"

subsection \<open>The options have the types that the constructors take\<close>

definition fits :: "argument \<Rightarrow> py_value \<Rightarrow> bool" where
  "fits a v = (case arg_action a of
     Store_true \<Rightarrow> (\<exists>b. v = PBool b)
   | Append \<Rightarrow> (\<exists>l. v = PList l)
   | Store \<Rightarrow> v = PNone \<or> (if arg_int a then \<exists>i. v = PInt i else \<exists>s. v = PStr s))"

definition namespace_ok :: "argument list \<Rightarrow> kwargs \<Rightarrow> bool" where
  "namespace_ok spec ns \<longleftrightarrow> (\<forall>a \<in> set spec. fits a (kw ns (arg_dest a) PNone))"

lemma kw_update [simp]: "kw (AList.update k v d) n x = (if n = k then v else kw d n x)"
  by (simp add: kw_def update_conv')

lemma kw_Nil [simp]: "kw [] n x = x"
  by (simp add: kw_def)

lemma kw_Cons [simp]: "kw ((k, v) # d) n x = (if n = k then v else kw d n x)"
  by (simp add: kw_def)

lemma store_option_fits:
  assumes "store_option a v ns = Inr ns'" and "fits a (kw ns (arg_dest a) PNone)"
  shows "\<exists>x. ns' = AList.update (arg_dest a) x ns \<and> fits a x"
  using assms
  by (auto simp: store_option_def fits_def kw_def split: action.splits if_splits option.splits
      py_value.splits sum.splits)

lemma store_options_ok:
  "store_options spec given ns = Inr ns' \<Longrightarrow> namespace_ok spec ns \<Longrightarrow>
     distinct (map arg_dest spec) \<Longrightarrow> namespace_ok spec ns'"
proof (induction spec given ns rule: store_options.induct)
  case (1 spec ns)
  then show ?case by simp
next
  case (2 spec flag v given ns)
  from "2.prems"(1) obtain a ns1 where a: "List.find (\<lambda>a. arg_flag a = flag) spec = Some a"
    "store_option a v ns = Inr ns1" "store_options spec given ns1 = Inr ns'"
    by (auto simp: result_bind_Inr_iff split: option.splits)
  from a(1) have sp: "a \<in> set spec" by (auto simp: find_Some_iff)
  then obtain x where x: "ns1 = AList.update (arg_dest a) x ns" "fits a x"
    using store_option_fits [OF a(2)] "2.prems"(2) by (auto simp: namespace_ok_def)
  have "b = a" if "b \<in> set spec" "arg_dest b = arg_dest a" for b
    using that sp "2.prems"(3) by (metis distinct_map inj_onD)
  with x "2.prems"(2) have "namespace_ok spec ns1"
    by (auto simp: namespace_ok_def)
  with a "2.IH" "2.prems"(3) show ?case by blast
qed

lemma parse_options_ok:
  assumes "parse_options (udp_arguments prefix) given = Inr args"
  shows "namespace_ok (udp_arguments prefix) args"
proof (rule store_options_ok)
  show "store_options (udp_arguments prefix) given
      (map (\<lambda>a. (arg_dest a, arg_default a)) (udp_arguments prefix)) = Inr args"
    using assms by (simp add: parse_options_def)
qed (auto simp: udp_arguments_def base_arguments_def namespace_ok_def fits_def intro: exI [of _ False])

lemma namespace_fields:
  assumes "namespace_ok (udp_arguments prefix) args"
  shows "kw args ''swim_secret'' PNone = PNone \<or> (\<exists>s. kw args ''swim_secret'' PNone = PStr s)"
    and "kw args ''swim_name'' PNone = PNone \<or> (\<exists>s. kw args ''swim_name'' PNone = PStr s)"
    and "\<exists>l. kw args ''swim_peers'' PNone = PList l"
    and "kw args ''swim_udp_bind'' PNone = PNone \<or> (\<exists>s. kw args ''swim_udp_bind'' PNone = PStr s)"
    and "kw args ''swim_udp_bind_port'' PNone = PNone \<or> (\<exists>s. kw args ''swim_udp_bind_port'' PNone = PStr s)"
    and "kw args ''swim_udp_host'' PNone = PNone \<or> (\<exists>s. kw args ''swim_udp_host'' PNone = PStr s)"
    and "kw args ''swim_udp_port'' PNone = PNone \<or> (\<exists>i. kw args ''swim_udp_port'' PNone = PInt i)"
    and "\<exists>b. kw args ''swim_udp_discovery'' PNone = PBool b"
  using assms by (auto simp: namespace_ok_def udp_arguments_def base_arguments_def fits_def)

text \<open>
  What the environment can raise that the program does not catch: anything but OSError, such as
  UnicodeError for a file that is not text or a name that is no host name, or OverflowError for a port
  above 65535.
\<close>

definition env_raises :: "environment \<Rightarrow> py_error \<Rightarrow> bool" where
  "env_raises E e \<longleftrightarrow> \<not> is_os_error e \<and>
     ((\<exists>p. read_text E p = Inl e) \<or> (\<exists>h. gethostbyname E h = Inl e) \<or> (\<exists>h n. connect_sockname E h n = Inl e))"

lemma get_env_raises: "get_env E env_prefix env = Inl e \<Longrightarrow> env_raises E e"
  by (auto simp: get_env_def env_raises_def split: option.splits sum.splits if_splits)

lemma get_env_list_raises: "get_env_list E env_prefix env = Inl e \<Longrightarrow> env_raises E e"
  by (cases "get_env E env_prefix env")
    (auto simp: get_env_list_def dest: get_env_raises split: option.splits if_splits)

definition opt_str :: "py_value \<Rightarrow> bool" where
  "opt_str v \<longleftrightarrow> v = PNone \<or> (\<exists>s. v = PStr s)"

lemma py_or_env:
  assumes "opt_str x"
  shows "case py_or x (map_sum id opt_value (get_env E env_prefix env)) of Inl e \<Rightarrow> env_raises E e | Inr v \<Rightarrow> opt_str v"
  using assms get_env_raises [of E env_prefix env]
  by (cases "get_env E env_prefix env")
    (auto simp: py_or_def opt_value_def opt_str_def split: option.split)

lemma py_or_env_list:
  assumes "\<exists>l. x = PList l"
  shows "case py_or x (map_sum id PList (get_env_list E env_prefix env)) of
      Inl e \<Rightarrow> env_raises E e | Inr v \<Rightarrow> \<exists>l. v = PList l"
  using assms get_env_list_raises [of E env_prefix env]
  by (cases "get_env_list E env_prefix env") (auto simp: py_or_def)

text \<open>The keywords that the base class makes, also after discovery.\<close>

definition typed_base :: "kwargs \<Rightarrow> bool" where
  "typed_base d \<longleftrightarrow> (\<exists>sec name peers. d = [(''secret'', sec), (''local_name'', name), (''peers'', PList peers)] \<and>
     opt_str sec \<and> opt_str name)"

lemma parse_args_typed:
  assumes "namespace_ok (udp_arguments prefix) args"
  shows "case parse_args E args env_prefix of Inl e \<Rightarrow> env_raises E e | Inr d \<Rightarrow> typed_base d"
proof -
  note n = namespace_fields [OF assms, folded opt_str_def]
  show ?thesis
    using py_or_env [OF n(1), of E env_prefix "''SECRET''"] py_or_env [OF n(2), of E env_prefix "''NAME''"]
      py_or_env_list [OF n(3), of E env_prefix "''PEERS''"]
    by (auto simp: parse_args_def typed_base_def result_bind_def split: sum.splits)
qed

lemma discover_keeps_typed:
  assumes "typed_base d"
  shows "case discover E p d of
      Inl e \<Rightarrow> e \<in> {ConfigError, TransientConfigError, ValueError} \<or> env_raises E e
    | Inr d' \<Rightarrow> typed_base d'"
proof -
  obtain sec name peers where d: "d = [(''secret'', sec), (''local_name'', name), (''peers'', PList peers)]"
    and t: "opt_str sec" "opt_str name"
    using assms by (auto simp: typed_base_def)
  have net: "e = TransientConfigError \<or> env_raises E e" if "resolve_name E h = Inl e" for h e
    using that by (auto simp: resolve_name_def env_raises_def split: sum.splits if_splits)
  have loc: "env_raises E e" if "find_local_ip E h n = Inl e" for h n e
    using that by (auto simp: find_local_ip_def env_raises_def split: sum.splits if_splits)
  have name: "opt_str (PStr s)" for s by (simp add: opt_str_def)
  from t(2) consider "name = PNone" | s where "name = PStr s" by (auto simp: opt_str_def)
  then show ?thesis
    by cases (auto simp: d discover_def result_bind_def Let_def typed_base_def t(1) name
        dest: address_parse_error net loc split: sum.split option.split)
qed

lemma base_config_init_typed:
  assumes "typed_base d"
  shows "case base_config_init node d of
      Inl e \<Rightarrow> e = ConfigError \<and> (kw d ''local_name'' PNone = PNone \<or> kw d ''local_name'' PNone = PStr [])
    | Inr c \<Rightarrow> kw d ''local_name'' PNone = PStr (cf_local_name c) \<and> cf_local_name c \<noteq> [] \<and>
        cf_ping_req_count c = PInt 1 \<and> cf_local_metadata c = {}"
proof -
  obtain sec name peers where d: "d = [(''secret'', sec), (''local_name'', name), (''peers'', PList peers)]"
    and t: "opt_str sec" "opt_str name"
    using assms by (auto simp: typed_base_def)
  have "set base_required \<subseteq> keys_of d" "keys_of d \<subseteq> set base_keywords"
    by (simp_all add: d base_required_def base_keywords_def)
  moreover have "kw d ''secret'' PNone = sec" "kw d ''local_name'' PNone = name"
    "kw d ''peers'' PNone = PList peers" "kw d ''local_metadata'' (PDict {}) = PDict {}"
    "kw d ''ping_req_count'' (PInt 1) = PInt 1"
    by (simp_all add: d)
  ultimately show ?thesis using t by (auto simp: base_config_init_def config_validate_def opt_str_def)
qed

lemma udp_config_init_split:
  assumes "as_str (kw kwargs ''bind_host'' PNone) = Inr bh" and "as_str (kw kwargs ''default_host'' PNone) = Inr dh"
    and "as_int (kw kwargs ''default_port'' PNone) = Inr dp" and "kw kwargs ''mtu_size'' (PInt 1500) = PInt mtu"
  defines "rest \<equiv> filter (\<lambda>(k, v). k \<notin> set udp_keywords) kwargs"
  shows "udp_config_init node E kwargs =
    result_bind (if truthy (kw kwargs ''discovery'' (PBool False))
      then discover E \<lparr>ap_default_host = dh, ap_default_port = dp\<rparr> rest else Inr rest)
    (\<lambda>rest. map_sum id (\<lambda>base. base_config.extend base (udp_config.fields bh (kw kwargs ''bind_port'' PNone)
        \<lparr>ap_default_host = dh, ap_default_port = dp\<rparr> mtu)) (base_config_init node rest))"
proof -
  have "result_bind (base_config_init node r) (\<lambda>base. Inr (f base)) = map_sum id f (base_config_init node r)"
    for r and f :: "base_config \<Rightarrow> udp_config"
    by (cases "base_config_init node r") simp_all
  with assms(1-4) show ?thesis by (simp add: udp_config_init_def rest_def Let_def)
qed

text \<open>\<open>from_args\<close> on parsed options, once the environment has been read.\<close>

lemma from_args_run:
  assumes "namespace_ok (udp_arguments prefix) args" and "parse_args E args ''SWIM'' = Inr d" and "typed_base d"
  obtains bh p where "udp_from_args node E args [] =
    result_bind (if truthy (kw args ''swim_udp_discovery'' PNone) then discover E p d else Inr d)
      (\<lambda>rest. map_sum id (\<lambda>base. base_config.extend base (udp_config.fields bh (kw args ''swim_udp_bind_port'' PNone) p 1500))
        (base_config_init node rest))"
proof -
  note n = namespace_fields [OF assms(1)]
  obtain sec name peers where d: "d = [(''secret'', sec), (''local_name'', name), (''peers'', PList peers)]"
    using assms(3) by (auto simp: typed_base_def)
  let ?k = "d @ [(''bind_host'', kw args ''swim_udp_bind'' PNone),
        (''bind_port'', kw args ''swim_udp_bind_port'' PNone), (''default_host'', kw args ''swim_udp_host'' PNone),
        (''default_port'', kw args ''swim_udp_port'' PNone), (''discovery'', kw args ''swim_udp_discovery'' PNone)]"
  have k: "udp_from_args node E args [] = udp_config_init node E ?k"
    using d by (simp add: udp_from_args_def from_args_def udp_parse_args_def assms(2) dict_merge_def)
  obtain bh dh dp where c: "as_str (kw args ''swim_udp_bind'' PNone) = Inr bh"
    "as_str (kw args ''swim_udp_host'' PNone) = Inr dh" "as_int (kw args ''swim_udp_port'' PNone) = Inr dp"
    using n(4,6,7) by auto
  have r: "filter (\<lambda>(k, v). k \<notin> set udp_keywords) ?k = d"
    by (simp add: udp_keywords_def d)
  let ?p = "\<lparr>ap_default_host = dh, ap_default_port = dp\<rparr>"
  have "udp_config_init node E ?k =
    result_bind (if truthy (kw args ''swim_udp_discovery'' PNone) then discover E ?p d else Inr d)
      (\<lambda>rest. map_sum id (\<lambda>base. base_config.extend base (udp_config.fields bh (kw args ''swim_udp_bind_port'' PNone) ?p 1500))
        (base_config_init node rest))"
    using udp_config_init_split [of ?k bh dh dp 1500 node E] c unfolding r by (simp add: d)
  then show thesis unfolding k [symmetric] by (rule that)
qed

lemma from_args_typed:
  assumes "parse_options (udp_arguments prefix) given = Inr args"
  shows "case udp_from_args node E args [] of
      Inl e \<Rightarrow> e \<in> {ConfigError, TransientConfigError, ValueError} \<or> env_raises E e
    | Inr c \<Rightarrow> cf_local_name c \<noteq> [] \<and> cf_ping_req_count c = PInt 1 \<and> cf_local_metadata c = {} \<and>
        uc_bind_port c = kw args ''swim_udp_bind_port'' PNone \<and>
        (uc_bind_port c = PNone \<or> (\<exists>s. uc_bind_port c = PStr s))"
proof -
  have ok: "namespace_ok (udp_arguments prefix) args" using assms by (rule parse_options_ok)
  note n = namespace_fields [OF ok]
  show ?thesis
  proof (cases "parse_args E args ''SWIM''")
    case (Inl e)
    then show ?thesis
      using parse_args_typed [OF ok, of E "''SWIM''"] by (simp add: udp_from_args_def from_args_def udp_parse_args_def)
  next
    case (Inr d)
    then have t: "typed_base d" using parse_args_typed [OF ok, of E "''SWIM''"] by simp
    obtain bh p where u: "udp_from_args node E args [] =
        result_bind (if truthy (kw args ''swim_udp_discovery'' PNone) then discover E p d else Inr d)
          (\<lambda>rest. map_sum id (\<lambda>base. base_config.extend base
              (udp_config.fields bh (kw args ''swim_udp_bind_port'' PNone) p 1500)) (base_config_init node rest))"
      using from_args_run [OF ok Inr t] by blast
    let ?d = "if truthy (kw args ''swim_udp_discovery'' PNone) then discover E p d else Inr d"
    have d: "case ?d of Inl e \<Rightarrow> e \<in> {ConfigError, TransientConfigError, ValueError} \<or> env_raises E e
        | Inr d' \<Rightarrow> typed_base d'"
      using discover_keeps_typed [OF t] t by (auto split: sum.split)
    show ?thesis
    proof (cases ?d)
      case (Inl e)
      with d u show ?thesis by simp
    next
      case (Inr d')
      with d have "typed_base d'" by simp
      from base_config_init_typed [OF this, of node] show ?thesis
        unfolding u Inr using n(5)
        by (cases "base_config_init node d'") (auto simp: base_config.defs udp_config.defs)
    qed
  qed
qed

text \<open>With a name and without discovery there is a configuration.\<close>

lemma from_args_made:
  assumes "parse_options (udp_arguments prefix) given = Inr args" and "kw args ''swim_name'' PNone = PStr s"
    and "s \<noteq> []" and "kw args ''swim_udp_discovery'' PNone = PBool False" and "\<And>e. \<not> env_raises E e"
  shows "\<exists>c. udp_from_args node E args [] = Inr c \<and> cf_local_name c = s"
proof -
  have ok: "namespace_ok (udp_arguments prefix) args" using assms(1) by (rule parse_options_ok)
  obtain d where d: "parse_args E args ''SWIM'' = Inr d" and t: "typed_base d"
    using parse_args_typed [OF ok, of E "''SWIM''"] assms(5) by (auto split: sum.splits)
  have "py_or (PStr s) y = Inr (PStr s)" for y using assms(3) by (simp add: py_or_def)
  then have name: "kw d ''local_name'' PNone = PStr s"
    using d by (auto simp: parse_args_def result_bind_def assms(2) split: sum.splits)
  obtain bh p where u: "udp_from_args node E args [] =
      map_sum id (\<lambda>base. base_config.extend base
        (udp_config.fields bh (kw args ''swim_udp_bind_port'' PNone) p 1500)) (base_config_init node d)"
    using from_args_run [OF ok d t, of node] assms(4) by auto
  from base_config_init_typed [OF t, of node] name assms(3) u show ?thesis
    by (cases "base_config_init node d") (auto simp: base_config.defs udp_config.defs)
qed


text \<open>A network where \<open>swim\<close> resolves to two addresses, the second of them local.\<close>

definition demo_environment :: environment where
  "demo_environment = \<lparr>getenv = (\<lambda>_. None), read_text = (\<lambda>_. Inl OSError),
     gethostbyname = (\<lambda>_. Inr [''10.0.0.2'', ''10.0.0.1'']),
     connect_sockname = (\<lambda>_ _. Inr ''10.0.0.1'')\<rparr>"

lemma demo_environment_raises: "\<not> env_raises demo_environment e"
  by (auto simp: env_raises_def demo_environment_def is_os_error_def)


end
