(* ===== verification/Swim_Udp.thy ===== *)
theory Swim_Udp
  imports Swim_Pack Swim_Udp_Config Swim_Tasks
begin

text \<open>
  The UDP transport: the receiving protocols of \<open>swimprotocol/udp/protocol.py\<close>, the sender of
  \<open>swimprotocol/udp/send.py\<close> and the life of their sockets in \<open>swimprotocol/udp/__init__.py\<close>.
  Packing and unpacking run in a thread pool; the task that waits for them goes on at any later
  time, so the order of the packets is that of the tasks' turns, not that of their arrival.
\<close>

subsection \<open>Receiving\<close>

text \<open>
  A protocol runs one subtask for each packet of bytes; the exception of a subtask ends that
  subtask only. \<open>decode\<close> is \<open>unpack\<close> of the \<open>UdpPack\<close> the protocol was given.
\<close>

record base_protocol =
  pr_owner :: "bytes task_owner"

record tcp_protocol = base_protocol +
  pr_buf :: bytes

definition udp_protocol_init :: base_protocol where
  "udp_protocol_init = \<lparr>pr_owner = owner_init\<rparr>"

definition tcp_protocol_init :: tcp_protocol where
  "tcp_protocol_init = \<lparr>pr_owner = owner_init, pr_buf = []\<rparr>"

definition start_handle :: "bytes \<Rightarrow> 'a base_protocol_scheme \<Rightarrow> 'a base_protocol_scheme" where
  "start_handle data p = p\<lparr>pr_owner := snd (run_subtask data (pr_owner p))\<rparr>"

definition protocol_handle ::
    "(bytes \<Rightarrow> py_error + packet option) \<Rightarrow> nat \<Rightarrow> 'a base_protocol_scheme \<Rightarrow> packet list \<Rightarrow>
     ('a base_protocol_scheme \<times> packet list) option" where
  "protocol_handle decode task p recv_queue =
     (case map_of (running (pr_owner p)) task of
        None \<Rightarrow> None
      | Some data \<Rightarrow> Some (p\<lparr>pr_owner := task_done task (pr_owner p)\<rparr>,
          (case decode data of
             Inl e \<Rightarrow> recv_queue
           | Inr None \<Rightarrow> recv_queue
           | Inr (Some packet) \<Rightarrow> recv_queue @ [packet])))"

definition datagram_received :: "bytes \<Rightarrow> base_protocol \<Rightarrow> base_protocol" where
  "datagram_received data = start_handle data"

definition data_received :: "bytes \<Rightarrow> tcp_protocol \<Rightarrow> tcp_protocol" where
  "data_received data p = p\<lparr>pr_buf := pr_buf p @ data\<rparr>"

text \<open>\<open>exc\<close> says whether the connection was lost with an exception.\<close>

definition connection_lost :: "bool \<Rightarrow> tcp_protocol \<Rightarrow> tcp_protocol" where
  "connection_lost exc p =
     (let data = pr_buf p; p = p\<lparr>pr_buf := []\<rparr> in if exc then p else start_handle data p)"

subsection \<open>Sending\<close>

text \<open>What goes over the network: a datagram, or the bytes of one TCP connection.\<close>

datatype transmission =
    Datagram (sent_to: address) (sent_bytes: bytes)
  | Stream (sent_to: address) (sent_bytes: bytes)

datatype send_task = Do_send string packet | Tcp_send bytes address

record udp_send =
  us_address_parser :: address_parser
  us_mtu_size :: int
  us_tasks :: "send_task task_owner"
  us_wire :: "transmission list"

definition udp_send_init :: "udp_config \<Rightarrow> udp_send" where
  "udp_send_init config = \<lparr>us_address_parser = uc_address_parser config,
     us_mtu_size = uc_mtu_size config, us_tasks = owner_init, us_wire = []\<rparr>"

definition create_task :: "send_task \<Rightarrow> udp_send \<Rightarrow> udp_send" where
  "create_task t s = s\<lparr>us_tasks := snd (run_subtask t (us_tasks s))\<rparr>"

text \<open>One turn of the loop of \<open>run\<close>: a packet is taken from the send queue of the worker.\<close>

definition send_turn ::
    "(string \<times> packet) list \<Rightarrow> udp_send \<Rightarrow> ((string \<times> packet) list \<times> udp_send) option" where
  "send_turn send_queue s = (case send_queue of
     [] \<Rightarrow> None
   | (member, packet) # rest \<Rightarrow> Some (rest, create_task (Do_send member packet) s))"

text \<open>
  A task of the sender runs: \<open>encode\<close> is \<open>pack\<close> with the salt it draws, \<open>connects\<close> says
  whether \<open>create_connection\<close> succeeds. An exception ends the task without further effect.
\<close>

definition do_send :: "(packet \<Rightarrow> py_error + bytes) \<Rightarrow> string \<Rightarrow> packet \<Rightarrow> udp_send \<Rightarrow> udp_send" where
  "do_send encode member packet s =
     (case encode packet of
        Inl e \<Rightarrow> s
      | Inr packet_data \<Rightarrow>
          (case address_parse (us_address_parser s) member of
             Inl e \<Rightarrow> s
           | Inr address \<Rightarrow>
               if int (length packet_data) \<le> us_mtu_size s
               then s\<lparr>us_wire := us_wire s @ [Datagram address packet_data]\<rparr>
               else create_task (Tcp_send packet_data address) s))"

definition tcp_send :: "bool \<Rightarrow> bytes \<Rightarrow> address \<Rightarrow> udp_send \<Rightarrow> udp_send" where
  "tcp_send connects packet_data address s =
     (if connects then s\<lparr>us_wire := us_wire s @ [Stream address packet_data]\<rparr> else s)"

definition send_task_turn ::
    "(packet \<Rightarrow> py_error + bytes) \<Rightarrow> bool \<Rightarrow> nat \<Rightarrow> udp_send \<Rightarrow> udp_send option" where
  "send_task_turn encode connects task s =
     (let s' = s\<lparr>us_tasks := task_done task (us_tasks s)\<rparr>
      in case map_of (running (us_tasks s)) task of
           None \<Rightarrow> None
         | Some (Do_send member packet) \<Rightarrow> Some (do_send encode member packet s')
         | Some (Tcp_send packet_data address) \<Rightarrow> Some (tcp_send connects packet_data address s'))"

subsection \<open>The contract of a codec\<close>

text \<open>
  Sender and receiver share a codec: whatever is encoded decodes to the same packet. \<open>good\<close>
  are the salts and packets for which that is promised.
\<close>

locale codec =
  fixes encode :: "bytes \<Rightarrow> packet \<Rightarrow> py_error + bytes"
    and decode :: "bytes \<Rightarrow> py_error + packet option"
    and good :: "bytes \<Rightarrow> packet \<Rightarrow> bool"
  assumes encodes: "good random packet \<Longrightarrow> \<exists>d. encode random packet = Inr d"
    and decodes: "good random packet \<Longrightarrow> encode random packet = Inr d \<Longrightarrow> decode d = Inr (Some packet)"
begin

lemma handled:
  assumes "good random packet" and "encode random packet = Inr d"
    and "map_of (running (pr_owner p)) task = Some d"
  shows "protocol_handle decode task p q =
    Some (p\<lparr>pr_owner := task_done task (pr_owner p)\<rparr>, q @ [packet])"
  using decodes [OF assms(1,2)] assms(3) by (simp add: protocol_handle_def)

lemma started:
  assumes "good random packet" and "encode random packet = Inr d"
  shows "\<exists>p'. protocol_handle decode (next_task (pr_owner p)) (start_handle d p) q = Some (p', q @ [packet])"
  using handled [OF assms, of "start_handle d p" "next_task (pr_owner p)" q]
  by (simp add: start_handle_def run_subtask_lookup)

lemma sent:
  assumes "good random packet" and "address_parse (us_address_parser s) member = Inr a"
  obtains d where "encode random packet = Inr d"
    and "do_send (encode random) member packet s =
      (if int (length d) \<le> us_mtu_size s then s\<lparr>us_wire := us_wire s @ [Datagram a d]\<rparr>
       else create_task (Tcp_send d a) s)"
  using encodes [OF assms(1)] assms(2) by (auto simp: do_send_def)

end

interpretation udp_codec: codec "pack pk u" "unpack pk u" "packable pk u" for pk u
proof unfold_locales
  fix random packet assume g: "packable pk u random packet"
  then show "\<exists>d. pack pk u random packet = Inr d" by (auto elim: packable_unpacks)
  fix d assume "pack pk u random packet = Inr d"
  with g show "unpack pk u d = Inr (Some packet)"
    by (metis append_Nil2 packable_unpacks sum.inject(2))
qed

lemma fold_data_received:
  "fold data_received parts p = p\<lparr>pr_buf := pr_buf p @ concat parts\<rparr>"
  by (induction parts arbitrary: p) (simp_all add: data_received_def)

lemma next_task_done [simp]: "next_task (task_done i t) = next_task t"
  by (simp add: task_done_def)

text \<open>
  C5: A packet that is sent arrives. When the task that sends it runs, the bytes leave for the
  address that the name of the member parses to, as one datagram if they fit into the MTU size and
  over a connection of their own if not; and whoever holds the same secret and receives these bytes,
  as a datagram or over a connection in pieces of any sizes, puts that very packet into its receive
  queue when its task runs.
\<close>

theorem packet_delivered:
  assumes "packable pk u random packet" and "address_parse (us_address_parser s) member = Inr a"
    and "map_of (running (us_tasks s)) i = Some (Do_send member packet)"
  shows "\<exists>d. (if int (length d) \<le> us_mtu_size s
      then \<exists>s'. send_task_turn (pack pk u random) c i s = Some s' \<and> us_wire s' = us_wire s @ [Datagram a d]
      else \<exists>s1 s2. send_task_turn (pack pk u random) c i s = Some s1 \<and> us_wire s1 = us_wire s \<and>
        send_task_turn (pack pk u random) True (next_task (us_tasks s)) s1 = Some s2 \<and>
        us_wire s2 = us_wire s @ [Stream a d]) \<and>
    (\<forall>p q. \<exists>p'. protocol_handle (unpack pk u) (next_task (pr_owner p)) (datagram_received d p) q =
       Some (p', q @ [packet])) \<and>
    (\<forall>p q parts. pr_buf p = [] \<and> concat parts = d \<longrightarrow>
       (\<exists>p'. protocol_handle (unpack pk u) (next_task (pr_owner p))
          (connection_lost False (fold data_received parts p)) q = Some (p', q @ [packet])))"
proof -
  let ?s = "s\<lparr>us_tasks := task_done i (us_tasks s)\<rparr>"
  obtain d where d: "pack pk u random packet = Inr d"
    and s': "do_send (pack pk u random) member packet ?s =
      (if int (length d) \<le> us_mtu_size ?s then ?s\<lparr>us_wire := us_wire ?s @ [Datagram a d]\<rparr>
       else create_task (Tcp_send d a) ?s)"
    using udp_codec.sent [OF assms(1), of ?s member a] assms(2) by auto
  have "if int (length d) \<le> us_mtu_size s
      then \<exists>s'. send_task_turn (pack pk u random) c i s = Some s' \<and> us_wire s' = us_wire s @ [Datagram a d]
      else \<exists>s1 s2. send_task_turn (pack pk u random) c i s = Some s1 \<and> us_wire s1 = us_wire s \<and>
        send_task_turn (pack pk u random) True (next_task (us_tasks s)) s1 = Some s2 \<and>
        us_wire s2 = us_wire s @ [Stream a d]"
    using assms(3) s'
    by (simp add: send_task_turn_def Let_def create_task_def run_subtask_lookup tcp_send_def)
  moreover have "\<exists>p'. protocol_handle (unpack pk u) (next_task (pr_owner p)) (datagram_received d p) q =
       Some (p', q @ [packet])" for p q
    unfolding datagram_received_def by (rule udp_codec.started [OF assms(1) d])
  moreover have "\<exists>p'. protocol_handle (unpack pk u) (next_task (pr_owner p))
          (connection_lost False (fold data_received parts p)) q = Some (p', q @ [packet])"
    if "pr_buf p = []" "concat parts = d" for p q parts
    using udp_codec.started [OF assms(1) d, of "p\<lparr>pr_buf := []\<rparr>" q] that
    by (simp add: connection_lost_def fold_data_received Let_def)
  ultimately show ?thesis by blast
qed

theorem packet_delivered_witness:
  "\<exists>d s'. send_task_turn (pack demo_pickler demo_pack (replicate 16 7)) False 0
      \<lparr>us_address_parser = \<lparr>ap_default_host = None, ap_default_port = None\<rparr>, us_mtu_size = 1500,
       us_tasks = snd (run_subtask (Do_send ''b:7'' (Ping \<lparr>src_name = ''a'', src_validity = []\<rparr>)) owner_init),
       us_wire = []\<rparr> = Some s' \<and>
    (us_wire s' = [Datagram (Address ''b'' 7) d] \<or> us_wire s' = []) \<and>
    (\<exists>p'. protocol_handle (unpack demo_pickler demo_pack) 0 (datagram_received d udp_protocol_init) [] =
      Some (p', [Ping \<lparr>src_name = ''a'', src_validity = []\<rparr>]))"
proof -
  let ?p = "Ping \<lparr>src_name = ''a'', src_validity = []\<rparr>"
  let ?s = "\<lparr>us_address_parser = \<lparr>ap_default_host = None, ap_default_port = None\<rparr>, us_mtu_size = 1500,
     us_tasks = snd (run_subtask (Do_send ''b:7'' ?p) owner_init), us_wire = []\<rparr>"
  have g: "packable demo_pickler demo_pack (replicate 16 7) ?p"
    by (auto simp: packable_def signer_made_def demo_pack_simps demo_pickler_simps)
  have a: "address_parse (us_address_parser ?s) ''b:7'' = Inr (Address ''b'' 7)"
    by (simp add: address_parse_def rpartition_def py_int_def strip_def is_space_def is_digit_def digit_value_def)
  have t: "map_of (running (us_tasks ?s)) 0 = Some (Do_send ''b:7'' ?p)"
    by (simp add: run_subtask_def owner_init_def)
  let ?turn = "send_task_turn (pack demo_pickler demo_pack (replicate 16 7)) False 0 ?s"
  obtain d where d: "if int (length d) \<le> us_mtu_size ?s
      then \<exists>s'. ?turn = Some s' \<and> us_wire s' = us_wire ?s @ [Datagram (Address ''b'' 7) d]
      else \<exists>s1 s2. ?turn = Some s1 \<and> us_wire s1 = us_wire ?s \<and>
        send_task_turn (pack demo_pickler demo_pack (replicate 16 7)) True (next_task (us_tasks ?s)) s1 = Some s2 \<and>
        us_wire s2 = us_wire ?s @ [Stream (Address ''b'' 7) d]"
    and r: "\<exists>p'. protocol_handle (unpack demo_pickler demo_pack) (next_task (pr_owner udp_protocol_init))
      (datagram_received d udp_protocol_init) [] = Some (p', [] @ [?p])"
    using packet_delivered [OF g a t, of False] by blast
  have "\<exists>s'. ?turn = Some s' \<and> (us_wire s' = [Datagram (Address ''b'' 7) d] \<or> us_wire s' = [])"
  proof (cases "int (length d) \<le> us_mtu_size ?s")
    case True
    with d have "\<exists>s'. ?turn = Some s' \<and> us_wire s' = us_wire ?s @ [Datagram (Address ''b'' 7) d]"
      by (simp only: if_True)
    then show ?thesis by auto
  next
    case False
    with d have "\<exists>s1. ?turn = Some s1 \<and> us_wire s1 = us_wire ?s" by (simp only: if_False) blast
    then show ?thesis by auto
  qed
  moreover have "next_task (pr_owner udp_protocol_init) = 0"
    by (simp add: udp_protocol_init_def owner_init_def)
  ultimately show ?thesis using r by auto
qed

end
