(* ===== verification/Swim_Transport.thy ===== *)
theory Swim_Transport
  imports Swim_Udp
begin

text \<open>
  \<open>swimprotocol/transport.py\<close> and the class \<open>UdpTransport\<close> of
  \<open>swimprotocol/udp/__init__.py\<close>: how a transport is found, what it binds to, and which
  resources it opens and closes.
\<close>

text \<open>
  The entry points of a group and name, in order, with what \<open>load\<close> gives for each.
\<close>

definition load_transport ::
    "(string \<Rightarrow> string \<Rightarrow> (py_error + 't) list) \<Rightarrow> string \<Rightarrow> string \<Rightarrow> py_error + 't" where
  "load_transport entry_points name grp =
     (case entry_points grp name of [] \<Rightarrow> Inl KeyError | loaded # _ \<Rightarrow> loaded)"

subsection \<open>The addresses\<close>

text \<open>
  The resources that the event loop holds open; \<open>ut_stack\<close> is the exit stack with the last
  one pushed first.
\<close>

datatype resource = Thread_pool | Tcp_server | Udp_endpoint | Send_task

record udp_transport =
  ut_config :: udp_config
  ut_pack :: udp_pack
  ut_local_address :: address
  ut_open :: "resource list"
  ut_stack :: "resource list"

definition highest_protocol :: int where
  "highest_protocol = 5"

definition udp_transport_init :: "udp_config \<Rightarrow> py_error + udp_transport" where
  "udp_transport_init config =
     result_bind (udp_pack_init (cf_signatures config) highest_protocol default_xor) (\<lambda>udp_pack.
     result_bind (address_parse (uc_address_parser config) (cf_local_name config)) (\<lambda>local_address.
     Inr \<lparr>ut_config = config, ut_pack = udp_pack, ut_local_address = local_address,
          ut_open = [], ut_stack = []\<rparr>))"

definition bind_host :: "udp_transport \<Rightarrow> string" where
  "bind_host t = (case uc_bind_host (ut_config t) of
     None \<Rightarrow> addr_host (ut_local_address t)
   | Some h \<Rightarrow> if h = [] then addr_host (ut_local_address t) else h)"

definition bind_port :: "udp_transport \<Rightarrow> py_value" where
  "bind_port t =
     (let bind_port = uc_bind_port (ut_config t)
      in if truthy bind_port then bind_port else PInt (addr_port (ut_local_address t)))"

lemma bind_updates [simp]:
  "bind_host (t\<lparr>ut_open := x\<rparr>) = bind_host t" "bind_host (t\<lparr>ut_stack := x\<rparr>) = bind_host t"
  "bind_port (t\<lparr>ut_open := x\<rparr>) = bind_port t" "bind_port (t\<lparr>ut_stack := x\<rparr>) = bind_port t"
  for t :: udp_transport
  by (auto simp: bind_host_def bind_port_def Let_def split: option.split)

subsection \<open>The life of the resources\<close>

definition open_resource :: "resource \<Rightarrow> (udp_transport, unit) py" where
  "open_resource r = py_modify (\<lambda>t. t\<lparr>ut_open := r # ut_open t\<rparr>)"

definition push :: "resource \<Rightarrow> (udp_transport, unit) py" where
  "push r = py_modify (\<lambda>t. t\<lparr>ut_stack := r # ut_stack t\<rparr>)"

text \<open>
  \<open>__aenter__\<close>; \<open>server\<close> and \<open>endpoint\<close> are the outcomes of \<open>create_server\<close> and
  \<open>create_datagram_endpoint\<close> for the host and port bound.
\<close>

definition transport_enter ::
    "(string \<Rightarrow> py_value \<Rightarrow> py_error + unit) \<Rightarrow> (string \<Rightarrow> py_value \<Rightarrow> py_error + unit) \<Rightarrow>
     (udp_transport, unit) py" where
  "transport_enter server endpoint =
     py_seq (open_resource Thread_pool) (
     py_seq (push Thread_pool) (
     py_seq (py_bind (py_read (\<lambda>t. server (bind_host t) (bind_port t))) py_lift) (
     py_seq (open_resource Tcp_server) (
     py_seq (py_bind (py_read (\<lambda>t. endpoint (bind_host t) (bind_port t))) py_lift) (
     py_seq (open_resource Udp_endpoint) (
     py_seq (open_resource Send_task) (
     py_seq (push Send_task) (
     py_seq (push Udp_endpoint) (
     push Tcp_server)))))))))"

text \<open>\<open>__aexit__\<close> closes what is on the stack, from the last pushed to the first.\<close>

definition transport_exit :: "udp_transport \<Rightarrow> udp_transport" where
  "transport_exit t = t\<lparr>ut_open := foldl (\<lambda>rs r. remove1 r rs) (ut_open t) (ut_stack t), ut_stack := []\<rparr>"

text \<open>
  Entering a transport and leaving it closes everything that was opened, in the order server,
  socket, sender, thread pool. But when the UDP socket cannot be opened the TCP server, which is
  pushed on the exit stack only at the end, stays open for good, even if the transport is left
  properly.
\<close>

theorem transport_lifecycle:
  fixes t :: udp_transport
  assumes "ut_open t = []" and "ut_stack t = []"
    and "server (bind_host t) (bind_port t) = Inr ()"
  shows "(endpoint (bind_host t) (bind_port t) = Inr () \<longrightarrow>
      (\<exists>t'. transport_enter server endpoint t = (Inr (), t') \<and> ut_open (transport_exit t') = [] \<and>
        ut_stack t' = [Tcp_server, Udp_endpoint, Send_task, Thread_pool])) \<and>
    (\<forall>e. endpoint (bind_host t) (bind_port t) = Inl e \<longrightarrow>
      (\<exists>t'. transport_enter server endpoint t = (Inl e, t') \<and>
        ut_open (transport_exit t') = [Tcp_server]))"
  using assms
  by (simp add: transport_enter_def transport_exit_def open_resource_def push_def py_seq_def py_bind_def)

definition demo_config :: udp_config where
  "demo_config = \<lparr>cf_signatures = signatures_init 0 (Str_secret ''my secret'') 16 True,
     cf_local_name = ''10.0.0.1:80'', cf_peers = [''10.0.0.2:80''], cf_local_metadata = {},
     cf_ping_interval = PFloat 1, cf_ping_timeout = PFloat 1, cf_ping_req_count = PInt 1,
     cf_ping_req_timeout = PFloat 1, cf_suspect_timeout = PFloat 5, cf_sync_interval = PFloat 1,
     uc_bind_host = None, uc_bind_port = PNone,
     uc_address_parser = \<lparr>ap_default_host = None, ap_default_port = None\<rparr>, uc_mtu_size = 1500\<rparr>"

theorem transport_lifecycle_witness:
  "\<exists>t'. transport_enter (\<lambda>_ _. Inr ()) (\<lambda>_ _. Inl OSError)
      \<lparr>ut_config = demo_config, ut_pack = demo_pack, ut_local_address = Address ''10.0.0.1'' 80,
       ut_open = [], ut_stack = []\<rparr> = (Inl OSError, t') \<and>
     ut_open (transport_exit t') = [Tcp_server]"
  using transport_lifecycle [of "\<lparr>ut_config = demo_config, ut_pack = demo_pack,
      ut_local_address = Address ''10.0.0.1'' 80, ut_open = [], ut_stack = []\<rparr>"
      "\<lambda>_ _. Inr ()" "\<lambda>_ _. Inl OSError"]
  by simp

subsection \<open>Discovery\<close>

lemma discover_Inr:
  assumes "discover E p kwargs = Inr kwargs'"
  obtains n given a ips ip where "kw kwargs ''local_name'' PNone = PStr n"
    and "kw kwargs ''peers'' (PList []) = PList given" and "address_parse p n = Inr a"
    and "gethostbyname E (addr_host a) = Inr ips"
    and "connect_sockname E (addr_host a) (addr_port a) = Inr ip"
    and "ip \<in> set ips" and "removeAll ip (remdups ips) \<noteq> []"
    and "kwargs' = AList.update ''peers''
        (PList (remdups (map (\<lambda>i. address_str (Address i (addr_port a))) (removeAll ip (remdups ips)) @ given)))
      (AList.update ''local_name'' (PStr (address_str (Address ip (addr_port a))))
        (AList.delete ''peers'' (AList.delete ''local_name'' kwargs)))"
proof -
  have s: "\<exists>n. v = PStr n" if "as_str v = Inr (Some n)" for v n
    using that by (cases v) auto
  have l: "v = PList l" if "as_list v = Inr l" for v l
    using that by (cases v) auto
  obtain n given a res ip where n: "as_str (kw kwargs ''local_name'' PNone) = Inr (Some n)"
    and given: "as_list (kw kwargs ''peers'' (PList [])) = Inr given"
    and a: "address_parse p n = Inr a" and res: "resolve_name E (addr_host a) = Inr res"
    and ip: "find_local_ip E (addr_host a) (addr_port a) = Inr (Some ip)" and mem: "ip \<in> set res" "removeAll ip res \<noteq> []"
    and k: "kwargs' = AList.update ''peers''
        (PList (remdups (map (\<lambda>i. address_str (Address i (addr_port a))) (removeAll ip res) @ given)))
      (AList.update ''local_name'' (PStr (address_str (Address ip (addr_port a))))
        (AList.delete ''peers'' (AList.delete ''local_name'' kwargs)))"
    using assms by (auto simp: discover_def result_bind_Inr_iff Let_def split: option.splits if_splits)
  have n': "kw kwargs ''local_name'' PNone = PStr n"
    using n by (cases "kw kwargs ''local_name'' PNone") auto
  obtain ips where ips: "gethostbyname E (addr_host a) = Inr ips" "res = remdups ips"
    using res by (auto simp: resolve_name_def split: sum.splits if_splits)
  have ip': "connect_sockname E (addr_host a) (addr_port a) = Inr ip"
    using ip by (auto simp: find_local_ip_def split: sum.splits if_splits)
  show thesis
    using that [OF n' l [OF given] a ips(1) ip'] mem k ips(2) by simp
qed

lemma kw_filter: "n \<notin> S \<Longrightarrow> kw (filter (\<lambda>(k, v). k \<notin> S) d) n x = kw d n x"
  by (induction d) (auto simp: kw_def)

lemma kw_delete: "kw (AList.delete k d) n x = (if n = k then x else kw d n x)"
  by (simp add: kw_def delete_conv')

lemma udp_config_init_Inr:
  assumes "udp_config_init node E kwargs = Inr c"
  obtains bh dh dp rest base mtu where "as_str (kw kwargs ''default_host'' PNone) = Inr dh"
    and "as_int (kw kwargs ''default_port'' PNone) = Inr dp"
    and "(if truthy (kw kwargs ''discovery'' (PBool False))
        then discover E \<lparr>ap_default_host = dh, ap_default_port = dp\<rparr>
          (filter (\<lambda>(k, v). k \<notin> set udp_keywords) kwargs)
        else Inr (filter (\<lambda>(k, v). k \<notin> set udp_keywords) kwargs)) = Inr rest"
    and "base_config_init node rest = Inr base"
    and "c = base_config.extend base (udp_config.fields bh (kw kwargs ''bind_port'' PNone)
        \<lparr>ap_default_host = dh, ap_default_port = dp\<rparr> mtu)"
  using assms that
  by (auto simp: udp_config_init_def result_bind_Inr_iff Let_def split: option.splits)

lemma base_config_init_Inr:
  assumes "base_config_init node kwargs = Inr base"
  shows "kw kwargs ''local_name'' PNone = PStr (cf_local_name base)"
    and "kw kwargs ''peers'' PNone = PList (cf_peers base)"
    and "cf_local_name base \<noteq> []"
proof -
  have s: "v = PStr n" if "as_str v = Inr (Some n)" for v n using that by (cases v) auto
  have l: "v = PList l" if "as_list v = Inr l" for v l using that by (cases v) auto
  show "kw kwargs ''local_name'' PNone = PStr (cf_local_name base)"
    "kw kwargs ''peers'' PNone = PList (cf_peers base)" "cf_local_name base \<noteq> []"
    using assms
    by (auto simp: base_config_init_def config_validate_def result_bind_Inr_iff split: if_splits option.splits
        dest!: s l)
qed

text \<open>
  C33: A configuration with discovery. The local name becomes the local IP address with the port of
  the given name, and the transport finds exactly this address in it; the peers are the other
  addresses that the host name resolves to, of which there is at least one, and the given peers,
  each once. The local member is among the peers just in case it was given as one.
\<close>

theorem discovery_result:
  assumes "udp_config_init node E kwargs = Inr c" and "truthy (kw kwargs ''discovery'' (PBool False))"
    and "\<forall>h n. connect_sockname E h n \<noteq> Inr []"
  shows "\<exists>n given p a ips ip. kw kwargs ''local_name'' PNone = PStr n \<and>
    kw kwargs ''peers'' (PList []) = PList given \<and> address_parse p n = Inr a \<and>
    gethostbyname E (addr_host a) = Inr ips \<and> connect_sockname E (addr_host a) (addr_port a) = Inr ip \<and>
    ip \<in> set ips \<and> (\<exists>i \<in> set ips. i \<noteq> ip) \<and> distinct (cf_peers c) \<and>
    cf_local_name c = address_str (Address ip (addr_port a)) \<and>
    set (cf_peers c) = {address_str (Address i (addr_port a)) | i. i \<in> set ips \<and> i \<noteq> ip} \<union> set given \<and>
    (cf_local_name c \<in> set (cf_peers c) \<longleftrightarrow> cf_local_name c \<in> set given) \<and>
    (\<exists>t. udp_transport_init c = Inr t \<and> ut_local_address t = Address ip (addr_port a))"
proof -
  let ?rest = "filter (\<lambda>(k, v). k \<notin> set udp_keywords) kwargs"
  obtain bh dh dp rest base mtu where
    d': "(if truthy (kw kwargs ''discovery'' (PBool False))
        then discover E \<lparr>ap_default_host = dh, ap_default_port = dp\<rparr> ?rest else Inr ?rest) = Inr rest"
    and b: "base_config_init node rest = Inr base"
    and c: "c = base_config.extend base (udp_config.fields bh (kw kwargs ''bind_port'' PNone)
        \<lparr>ap_default_host = dh, ap_default_port = dp\<rparr> mtu)"
    by (rule udp_config_init_Inr [OF assms(1)])
  have d: "discover E \<lparr>ap_default_host = dh, ap_default_port = dp\<rparr> ?rest = Inr rest"
    using d' assms(2) by simp
  let ?p = "\<lparr>ap_default_host = dh, ap_default_port = dp\<rparr>"
  obtain n given a ips ip where n: "kw ?rest ''local_name'' PNone = PStr n"
    and g: "kw ?rest ''peers'' (PList []) = PList given" and a: "address_parse ?p n = Inr a"
    and ips: "gethostbyname E (addr_host a) = Inr ips"
      "connect_sockname E (addr_host a) (addr_port a) = Inr ip" "ip \<in> set ips" "removeAll ip (remdups ips) \<noteq> []"
    and k: "rest = AList.update ''peers''
        (PList (remdups (map (\<lambda>i. address_str (Address i (addr_port a))) (removeAll ip (remdups ips)) @ given)))
      (AList.update ''local_name'' (PStr (address_str (Address ip (addr_port a))))
        (AList.delete ''peers'' (AList.delete ''local_name'' ?rest)))"
    by (rule discover_Inr [OF d])
  have nk: "kw kwargs ''local_name'' PNone = PStr n" "kw kwargs ''peers'' (PList []) = PList given"
    using n g kw_filter [of "''local_name''" "set udp_keywords"] kw_filter [of "''peers''" "set udp_keywords"]
    by (simp_all add: udp_keywords_def)
  have name: "cf_local_name c = address_str (Address ip (addr_port a))"
    and peers: "cf_peers c =
      remdups (map (\<lambda>i. address_str (Address i (addr_port a))) (removeAll ip (remdups ips)) @ given)"
    using base_config_init_Inr(1,2) [OF b] k by (simp_all add: c base_config.defs udp_config.defs)
  have peers': "set (cf_peers c) = {address_str (Address i (addr_port a)) | i. i \<in> set ips \<and> i \<noteq> ip} \<union> set given"
    and "distinct (cf_peers c)"
    unfolding peers by auto
  have other: "\<exists>i \<in> set ips. i \<noteq> ip"
  proof (rule ccontr)
    assume "\<not> ?thesis"
    then have "removeAll ip (remdups ips) = []" by (auto simp: removeAll_filter_not_eq filter_empty_conv)
    with ips(4) show False ..
  qed
  have loc: "cf_local_name c \<in> set (cf_peers c) \<longleftrightarrow> cf_local_name c \<in> set given"
    unfolding peers' name by (auto simp: address_str_inject)
  have "addr_host (Address ip (addr_port a)) \<noteq> []" using assms(3) ips(2) by auto
  then have "\<exists>t. udp_transport_init c = Inr t \<and> ut_local_address t = Address ip (addr_port a)"
    using address_parse_str [of "Address ip (addr_port a)" "uc_address_parser c"] name
    by (simp add: udp_transport_init_def udp_pack_init_def prefix_size_def default_xor_def utf8_def utf8_char_def)
  with nk a ips(1-3) other \<open>distinct (cf_peers c)\<close> name peers' loc show ?thesis
    by (intro exI [of _ n] exI [of _ given] exI [of _ ?p] exI [of _ a] exI [of _ ips] exI [of _ ip] conjI)
qed

definition demo_kwargs :: kwargs where
  "demo_kwargs = [(''secret'', PNone), (''local_name'', PStr ''swim:80''), (''peers'', PList []),
     (''discovery'', PBool True)]"

lemma demo_kwargs_config:
  obtains c where "udp_config_init 0 demo_environment demo_kwargs = Inr c"
proof -
  have "\<exists>c. udp_config_init 0 demo_environment demo_kwargs = Inr c"
    by (simp add: udp_config_init_def demo_kwargs_def udp_keywords_def discover_def address_parse_def
        rpartition_def py_int_def strip_def is_space_def is_digit_def digit_value_def resolve_name_def
        find_local_ip_def demo_environment_def base_config_init_def base_required_def base_keywords_def
        config_validate_def address_str_def Let_def)
  then show thesis using that by blast
qed

theorem discovery_result_witness:
  "\<exists>c. udp_config_init 0 demo_environment demo_kwargs = Inr c \<and> cf_peers c = [''10.0.0.2:80''] \<and>
     cf_local_name c \<notin> set (cf_peers c)"
proof -
  obtain c where c: "udp_config_init 0 demo_environment demo_kwargs = Inr c" by (rule demo_kwargs_config)
  have t: "truthy (kw demo_kwargs ''discovery'' (PBool False))" by (simp add: demo_kwargs_def)
  have n: "\<forall>h n. connect_sockname demo_environment h n \<noteq> Inr []" by (simp add: demo_environment_def)
  have k: "kw demo_kwargs ''local_name'' PNone = PStr ''swim:80''"
    "kw demo_kwargs ''peers'' (PList []) = PList []" by (simp_all add: demo_kwargs_def)
  have p: "address_parse p ''swim:80'' = Inr (Address ''swim'' 80)" for p
    by (simp add: address_parse_def rpartition_def py_int_def strip_def is_space_def is_digit_def digit_value_def)
  obtain a ips ip where a: "a = Address ''swim'' 80" "ips = [''10.0.0.2'', ''10.0.0.1'']" "ip = ''10.0.0.1''"
    and r: "distinct (cf_peers c)"
      "set (cf_peers c) = {address_str (Address i (addr_port a)) | i. i \<in> set ips \<and> i \<noteq> ip}"
      "cf_local_name c \<notin> set (cf_peers c)"
    using discovery_result [OF c t n] by (auto simp: k p demo_environment_def)
  have "set (cf_peers c) = {address_str (Address ''10.0.0.2'' 80)}" unfolding r(2) a by auto
  also have "address_str (Address ''10.0.0.2'' 80) = ''10.0.0.2:80''"
    by (simp add: address_str_def show_int_def show_nat.simps digit_char_def)
  finally have "cf_peers c = [''10.0.0.2:80'']" by (rule distinct_singleton [OF r(1)])
  with c r(3) show ?thesis by blast
qed

end
