(* ===== verification/Swim_Bytes.thy ===== *)
theory Swim_Bytes
  imports Swim_Names Swim_Transport
begin

text \<open>
  The cluster over a real network: every process has a worker, the sender and the receiving protocols
  of the UDP transport, and the network carries datagrams and connections. Everything between two
  workers is here as in the code: the queue is taken from, the packet is signed and packed by a
  task, its bytes leave by datagram or stream, arrive in any order and any number of times, in pieces,
  are checked and unpacked by another task, and put into the queue. This refines the cluster of
  \<open>Swim_Cluster\<close>, which has packets only.
\<close>

subsection \<open>The processes and the network\<close>

text \<open>
  The connections made to a process: the protocol, and the bytes that are still to come; \<open>None\<close> once
  the connection is lost. A process listens at the address that is its name.
\<close>

record station =
  st_worker :: worker
  st_send :: udp_send
  st_udp :: base_protocol
  st_tcp :: "(tcp_protocol \<times> bytes option) list"

record byte_net =
  bn_station :: "string \<Rightarrow> station option"
  bn_wire :: "transmission list"

definition byte_init :: byte_net where
  "byte_init = \<lparr>bn_station = (\<lambda>_. None), bn_wire = []\<rparr>"

text \<open>
  The steps: a process starts; a step of its worker off the network; the loop of the sender takes a
  packet; a task of the sender runs, with the salt it draws and whether its connection succeeds; a
  datagram arrives, a copy of one that was sent or any bytes that do not unpack; a connection is
  accepted, one that was sent over or a foreign one, brings some more bytes, is lost; a task of a
  protocol runs.
\<close>

datatype byte_event =
    Boot string "string \<Rightarrow> bytes" int "string list" metadata int address_parser int
  | Local string worker_event
  | Take string
  | Send_task string nat bytes bool
  | Arrive string nat
  | Noise string bytes
  | Accept string nat
  | Intrude string bytes
  | Data_in string nat nat
  | Lost string nat bool
  | Udp_turn string nat
  | Tcp_turn string nat nat

definition on_station :: "string \<Rightarrow> (station \<Rightarrow> station option) \<Rightarrow> byte_net \<Rightarrow> byte_net option" where
  "on_station n f b = (case bn_station b n of
     None \<Rightarrow> None
   | Some st \<Rightarrow> map_option (\<lambda>st'. b\<lparr>bn_station := (bn_station b)(n \<mapsto> st')\<rparr>) (f st))"

definition take_packet :: "station \<Rightarrow> station option" where
  "take_packet st = (case send_turn (w_send_queue (st_worker st)) (st_send st) of
     None \<Rightarrow> None
   | Some (rest, s) \<Rightarrow> Some (st\<lparr>st_worker := (st_worker st)\<lparr>w_send_queue := rest\<rparr>, st_send := s\<rparr>))"

text \<open>What the sender has put on its wire goes to the network.\<close>

definition send_out ::
    "pickler \<Rightarrow> udp_pack \<Rightarrow> string \<Rightarrow> nat \<Rightarrow> bytes \<Rightarrow> bool \<Rightarrow> byte_net \<Rightarrow> byte_net option" where
  "send_out pk u n task random connects b = (case bn_station b n of
     None \<Rightarrow> None
   | Some st \<Rightarrow>
       if length random \<noteq> 16 then None
       else (case send_task_turn (pack pk u random) connects task (st_send st) of
               None \<Rightarrow> None
             | Some s \<Rightarrow> Some (b\<lparr>bn_station := (bn_station b)(n \<mapsto> st\<lparr>st_send := s\<lparr>us_wire := []\<rparr>\<rparr>),
                 bn_wire := bn_wire b @ us_wire s\<rparr>)))"

definition accept :: "bytes \<Rightarrow> station \<Rightarrow> station" where
  "accept d st = st\<lparr>st_tcp := st_tcp st @ [(tcp_protocol_init, Some d)]\<rparr>"

definition data_in :: "nat \<Rightarrow> nat \<Rightarrow> station \<Rightarrow> station option" where
  "data_in i m st =
     (if i < length (st_tcp st)
      then (case st_tcp st ! i of
              (p, Some rest) \<Rightarrow> Some (st\<lparr>st_tcp := (st_tcp st)[i := (data_received (take m rest) p, Some (drop m rest))]\<rparr>)
            | (p, None) \<Rightarrow> None)
      else None)"

text \<open>Without an exception a connection ends only after all its bytes.\<close>

definition lost :: "nat \<Rightarrow> bool \<Rightarrow> station \<Rightarrow> station option" where
  "lost i exc st =
     (if i < length (st_tcp st)
      then (case st_tcp st ! i of
              (p, Some rest) \<Rightarrow>
                if exc \<or> rest = [] then Some (st\<lparr>st_tcp := (st_tcp st)[i := (connection_lost exc p, None)]\<rparr>) else None
            | (p, None) \<Rightarrow> None)
      else None)"

definition udp_turn :: "pickler \<Rightarrow> udp_pack \<Rightarrow> nat \<Rightarrow> station \<Rightarrow> station option" where
  "udp_turn pk u task st =
     (case protocol_handle (unpack pk u) task (st_udp st) (w_recv_queue (st_worker st)) of
        None \<Rightarrow> None
      | Some (p, q) \<Rightarrow> Some (st\<lparr>st_udp := p, st_worker := (st_worker st)\<lparr>w_recv_queue := q\<rparr>\<rparr>))"

definition tcp_turn :: "pickler \<Rightarrow> udp_pack \<Rightarrow> nat \<Rightarrow> nat \<Rightarrow> station \<Rightarrow> station option" where
  "tcp_turn pk u i task st =
     (if i < length (st_tcp st)
      then (case st_tcp st ! i of (p, rest) \<Rightarrow>
              (case protocol_handle (unpack pk u) task p (w_recv_queue (st_worker st)) of
                 None \<Rightarrow> None
               | Some (p', q) \<Rightarrow> Some (st\<lparr>st_tcp := (st_tcp st)[i := (p', rest)],
                   st_worker := (st_worker st)\<lparr>w_recv_queue := q\<rparr>\<rparr>)))
      else None)"

definition is_packet :: "py_error + packet option \<Rightarrow> bool" where
  "is_packet r = (case r of Inr (Some _) \<Rightarrow> True | _ \<Rightarrow> False)"

definition byte_step :: "pickler \<Rightarrow> udp_pack \<Rightarrow> byte_event \<Rightarrow> byte_net \<Rightarrow> byte_net option" where
  "byte_step pk u ev b = (case ev of
     Boot n rnd now peers md count parser mtu \<Rightarrow>
       (case members_init rnd now n peers md of
          (Inl _, _) \<Rightarrow> None
        | (Inr _, ms) \<Rightarrow> Some (b\<lparr>bn_station := (bn_station b)(n \<mapsto>
            \<lparr>st_worker = worker_init count ms,
             st_send = \<lparr>us_address_parser = parser, us_mtu_size = mtu, us_tasks = owner_init, us_wire = []\<rparr>,
             st_udp = udp_protocol_init, st_tcp = []\<rparr>)\<rparr>))
   | Local n wev \<Rightarrow>
       if off_network wev
       then on_station n (\<lambda>st. map_option (\<lambda>w. st\<lparr>st_worker := w\<rparr>) (worker_step wev (st_worker st))) b
       else None
   | Take n \<Rightarrow> on_station n take_packet b
   | Send_task n task random connects \<Rightarrow> send_out pk u n task random connects b
   | Arrive n k \<Rightarrow>
       if k < length (bn_wire b)
       then (case bn_wire b ! k of
               Datagram a d \<Rightarrow>
                 if address_str a = n then on_station n (\<lambda>st. Some (st\<lparr>st_udp := datagram_received d (st_udp st)\<rparr>)) b
                 else None
             | Stream a d \<Rightarrow> None)
       else None
   | Noise n d \<Rightarrow>
       if is_packet (unpack pk u d) then None
       else on_station n (\<lambda>st. Some (st\<lparr>st_udp := datagram_received d (st_udp st)\<rparr>)) b
   | Accept n k \<Rightarrow>
       if k < length (bn_wire b)
       then (case bn_wire b ! k of
               Datagram a d \<Rightarrow> None
             | Stream a d \<Rightarrow> if address_str a = n then on_station n (\<lambda>st. Some (accept d st)) b else None)
       else None
   | Intrude n d \<Rightarrow>
       if is_packet (unpack pk u d) then None else on_station n (\<lambda>st. Some (accept d st)) b
   | Data_in n i m \<Rightarrow> on_station n (data_in i m) b
   | Lost n i exc \<Rightarrow> on_station n (lost i exc) b
   | Udp_turn n task \<Rightarrow> on_station n (udp_turn pk u task) b
   | Tcp_turn n i task \<Rightarrow> on_station n (tcp_turn pk u i task) b)"

fun byte_run :: "pickler \<Rightarrow> udp_pack \<Rightarrow> byte_event list \<Rightarrow> byte_net \<Rightarrow> byte_net option" where
  "byte_run pk u [] b = Some b"
| "byte_run pk u (ev # evs) b =
     (case byte_step pk u ev b of None \<Rightarrow> None | Some b' \<Rightarrow> byte_run pk u evs b')"

subsection \<open>The match with the cluster of packets\<close>

text \<open>
  The steps of the cluster that come from outside the network, and those that a step of this
  system is.
\<close>

definition outward :: "cluster_event \<Rightarrow> bool" where
  "outward ev \<longleftrightarrow> (case ev of Start _ _ _ _ _ _ \<Rightarrow> True | At _ _ \<Rightarrow> True | _ \<Rightarrow> False)"

definition outer :: "byte_event \<Rightarrow> cluster_event list" where
  "outer ev = (case ev of
     Boot n rnd now peers md count _ _ \<Rightarrow> [Start n rnd now peers md count]
   | Local n wev \<Rightarrow> [At n wev]
   | _ \<Rightarrow> [])"

text \<open>
  A name that is the text of an address: then every parser gives this address, whatever its
  defaults.
\<close>

definition canonical :: "string \<Rightarrow> bool" where
  "canonical n \<longleftrightarrow> (case address_parse \<lparr>ap_default_host = None, ap_default_port = None\<rparr> n of
     Inl _ \<Rightarrow> False
   | Inr a \<Rightarrow> address_str a = n)"

lemma canonical_parse:
  assumes "canonical n" and "address_parse parser n = Inr a"
  shows "address_str a = n"
proof -
  let ?p = "\<lparr>ap_default_host = None, ap_default_port = None\<rparr>"
  obtain a' where a': "address_parse ?p n = Inr a'" "address_str a' = n"
    using assms(1) by (auto simp: canonical_def split: sum.splits)
  then have "addr_host a' \<noteq> []" using address_parse_text [of ?p a'] by (auto split: if_splits)
  then show ?thesis using assms(2) a'(2) address_parse_text [of parser a'] by simp
qed

text \<open>If the bytes unpack to a packet then this is in flight to \<open>n\<close>.\<close>

definition carries ::
    "pickler \<Rightarrow> udp_pack \<Rightarrow> (string \<times> packet) set \<Rightarrow> string \<Rightarrow> bytes \<Rightarrow> bool" where
  "carries pk u F n d \<longleftrightarrow> (\<forall>p. unpack pk u d = Inr (Some p) \<longrightarrow> (n, p) \<in> F)"

definition tasks_carry ::
    "pickler \<Rightarrow> udp_pack \<Rightarrow> (string \<times> packet) set \<Rightarrow> string \<Rightarrow> bytes task_owner \<Rightarrow> bool" where
  "tasks_carry pk u F n tasks \<longleftrightarrow> (\<forall>i d. map_of (running tasks) i = Some d \<longrightarrow> carries pk u F n d)"

definition sender_matches ::
    "pickler \<Rightarrow> udp_pack \<Rightarrow> (string \<times> packet) set \<Rightarrow> udp_send \<Rightarrow> bool" where
  "sender_matches pk u F s \<longleftrightarrow> us_wire s = [] \<and>
     (\<forall>i m p. map_of (running (us_tasks s)) i = Some (Do_send m p) \<longrightarrow> (m, p) \<in> F) \<and>
     (\<forall>i d a. map_of (running (us_tasks s)) i = Some (Tcp_send d a) \<longrightarrow> carries pk u F (address_str a) d)"

definition connection_matches ::
    "pickler \<Rightarrow> udp_pack \<Rightarrow> (string \<times> packet) set \<Rightarrow> string \<Rightarrow> tcp_protocol \<times> bytes option \<Rightarrow> bool" where
  "connection_matches pk u F n x \<longleftrightarrow> tasks_carry pk u F n (pr_owner (fst x)) \<and>
     (\<forall>r. snd x = Some r \<longrightarrow> carries pk u F n (pr_buf (fst x) @ r))"

definition station_matches ::
    "pickler \<Rightarrow> udp_pack \<Rightarrow> (string \<times> packet) set \<Rightarrow> string \<Rightarrow> station \<Rightarrow> bool" where
  "station_matches pk u F n st \<longleftrightarrow> sender_matches pk u F (st_send st) \<and>
     tasks_carry pk u F n (pr_owner (st_udp st)) \<and> (\<forall>x \<in> set (st_tcp st). connection_matches pk u F n x)"

definition net_matches :: "pickler \<Rightarrow> udp_pack \<Rightarrow> byte_net \<Rightarrow> cluster \<Rightarrow> bool" where
  "net_matches pk u b c \<longleftrightarrow>
     (\<forall>n. cl_node c n = map_option st_worker (bn_station b n)) \<and>
     (\<forall>n st. bn_station b n = Some st \<longrightarrow> station_matches pk u (set (cl_flight c)) n st) \<and>
     (\<forall>t \<in> set (bn_wire b). carries pk u (set (cl_flight c)) (address_str (sent_to t)) (sent_bytes t))"

lemma net_matchesD:
  assumes "net_matches pk u b c"
  shows "cl_node c n = map_option st_worker (bn_station b n)"
    and "bn_station b n = Some st \<Longrightarrow> station_matches pk u (set (cl_flight c)) n st"
    and "t \<in> set (bn_wire b) \<Longrightarrow> carries pk u (set (cl_flight c)) (address_str (sent_to t)) (sent_bytes t)"
  using assms by (auto simp: net_matches_def)

text \<open>More in flight does no harm.\<close>

lemma carries_mono: "carries pk u F n d \<Longrightarrow> F \<subseteq> G \<Longrightarrow> carries pk u G n d"
  by (auto simp: carries_def)

lemma tasks_carry_mono: "tasks_carry pk u F n t \<Longrightarrow> F \<subseteq> G \<Longrightarrow> tasks_carry pk u G n t"
  by (auto simp: tasks_carry_def intro: carries_mono)

lemma sender_mono: "sender_matches pk u F s \<Longrightarrow> F \<subseteq> G \<Longrightarrow> sender_matches pk u G s"
  unfolding sender_matches_def by (meson carries_mono subsetD)

lemma connection_mono: "connection_matches pk u F n x \<Longrightarrow> F \<subseteq> G \<Longrightarrow> connection_matches pk u G n x"
  unfolding connection_matches_def by (meson carries_mono tasks_carry_mono)

lemma station_mono: "station_matches pk u F n st \<Longrightarrow> F \<subseteq> G \<Longrightarrow> station_matches pk u G n st"
  unfolding station_matches_def by (meson sender_mono connection_mono tasks_carry_mono)

text \<open>Tasks begin and end.\<close>

lemma tasks_carry_begin:
  "tasks_carry pk u F n t \<Longrightarrow> carries pk u F n d \<Longrightarrow> tasks_carry pk u F n (snd (run_subtask d t))"
  by (auto simp: tasks_carry_def run_subtask_lookup split: if_splits)

lemma tasks_carry_done: "tasks_carry pk u F n t \<Longrightarrow> tasks_carry pk u F n (task_done i t)"
  by (auto simp: tasks_carry_def split: if_splits)

lemma tasks_carry_init [simp]: "tasks_carry pk u F n owner_init"
  by (simp add: tasks_carry_def owner_init_def)

lemma not_packet_carries: "\<not> is_packet (unpack pk u d) \<Longrightarrow> carries pk u F n d"
  by (auto simp: carries_def is_packet_def)

subsection \<open>Steps between the queues are hidden\<close>

text \<open>A step of one process that leaves its worker alone.\<close>

lemma hidden_step:
  assumes m: "net_matches pk u b c" and step: "on_station n f b = Some b'"
    and f: "\<And>st st'. f st = Some st' \<Longrightarrow> station_matches pk u (set (cl_flight c)) n st \<Longrightarrow>
      st_worker st' = st_worker st \<and> station_matches pk u (set (cl_flight c)) n st'"
  shows "net_matches pk u b' c"
proof -
  obtain st st' where st: "bn_station b n = Some st" "f st = Some st'"
    and b': "b' = b\<lparr>bn_station := (bn_station b)(n \<mapsto> st')\<rparr>"
    using step by (auto simp: on_station_def split: option.splits)
  note s = f [OF st(2) net_matchesD(2) [OF m st(1)]]
  show ?thesis
    using net_matchesD [OF m] s st(1) by (auto simp: net_matches_def b')
qed

lemma datagram_matches:
  "station_matches pk u F n st \<Longrightarrow> carries pk u F n d \<Longrightarrow>
     station_matches pk u F n (st\<lparr>st_udp := datagram_received d (st_udp st)\<rparr>)"
  by (simp add: station_matches_def datagram_received_def start_handle_def tasks_carry_begin)

lemma accept_matches:
  "station_matches pk u F n st \<Longrightarrow> carries pk u F n d \<Longrightarrow> station_matches pk u F n (accept d st)"
  by (auto simp: station_matches_def accept_def connection_matches_def tcp_protocol_init_def)

text \<open>A step of one connection.\<close>

lemma connection_step:
  assumes "station_matches pk u F n st" and "i < length (st_tcp st)"
    and "connection_matches pk u F n (st_tcp st ! i) \<Longrightarrow> connection_matches pk u F n x"
  shows "station_matches pk u F n (st\<lparr>st_tcp := (st_tcp st)[i := x]\<rparr>)"
  using assms by (auto simp: station_matches_def dest!: set_update_subset_insert [THEN subsetD])

lemma data_in_matches:
  assumes "data_in i k st = Some st'" and m: "station_matches pk u F n st"
  shows "st_worker st' = st_worker st \<and> station_matches pk u F n st'"
proof -
  obtain p rest where i: "i < length (st_tcp st)" "st_tcp st ! i = (p, Some rest)"
    and st': "st' = st\<lparr>st_tcp := (st_tcp st)[i := (data_received (take k rest) p, Some (drop k rest))]\<rparr>"
    using assms(1) by (auto simp: data_in_def split: if_splits prod.splits option.splits)
  have "station_matches pk u F n st'"
    unfolding st'
    by (rule connection_step [OF m i(1)]) (simp add: i(2) connection_matches_def data_received_def)
  then show ?thesis by (simp add: st')
qed

lemma lost_matches:
  assumes "lost i exc st = Some st'" and m: "station_matches pk u F n st"
  shows "st_worker st' = st_worker st \<and> station_matches pk u F n st'"
proof -
  obtain p rest where i: "i < length (st_tcp st)" "st_tcp st ! i = (p, Some rest)" "exc \<or> rest = []"
    and st': "st' = st\<lparr>st_tcp := (st_tcp st)[i := (connection_lost exc p, None)]\<rparr>"
    using assms(1) by (auto simp: lost_def split: if_splits prod.splits option.splits)
  have "station_matches pk u F n st'"
    unfolding st'
    by (rule connection_step [OF m i(1)])
      (use i(2,3) in \<open>auto simp: connection_matches_def connection_lost_def start_handle_def Let_def tasks_carry_begin\<close>)
  then show ?thesis by (simp add: st')
qed

text \<open>
  A task of the sender, if what it packs would be carried to where it sends.
\<close>

lemma send_task_matches:
  assumes m: "sender_matches pk u F s"
    and run: "send_task_turn (pack pk u random) connects task s = Some s'"
    and law: "\<And>k p d a. (k, p) \<in> F \<Longrightarrow> pack pk u random p = Inr d \<Longrightarrow>
      address_parse (us_address_parser s) k = Inr a \<Longrightarrow> carries pk u F (address_str a) d"
  shows "sender_matches pk u F (s'\<lparr>us_wire := []\<rparr>) \<and>
    (\<forall>t \<in> set (us_wire s'). carries pk u F (address_str (sent_to t)) (sent_bytes t))"
proof -
  let ?s = "s\<lparr>us_tasks := task_done task (us_tasks s)\<rparr>"
  have w: "us_wire s = []" using m by (simp add: sender_matches_def)
  have s: "sender_matches pk u F (?s\<lparr>us_wire := []\<rparr>)" using m by (auto simp: sender_matches_def split: if_splits)
  obtain t where t: "map_of (running (us_tasks s)) task = Some t"
    using run by (cases "map_of (running (us_tasks s)) task") (simp_all add: send_task_turn_def)
  show ?thesis
  proof (cases t)
    case (Do_send k p)
    then have s': "s' = do_send (pack pk u random) k p ?s" and F: "(k, p) \<in> F"
      using run t m by (auto simp: send_task_turn_def sender_matches_def)
    show ?thesis
    proof (cases "pack pk u random p")
      case (Inl e)
      then show ?thesis using s w by (simp add: s' do_send_def)
    next
      case (Inr d)
      show ?thesis
      proof (cases "address_parse (us_address_parser s) k")
        case (Inl e)
        then show ?thesis using s w \<open>pack pk u random p = Inr d\<close> by (simp add: s' do_send_def)
      next
        case (Inr a)
        have "carries pk u F (address_str a) d" using F \<open>pack pk u random p = Inr d\<close> Inr by (rule law)
        then show ?thesis
          using s w \<open>pack pk u random p = Inr d\<close> Inr
          by (auto simp: s' do_send_def create_task_def sender_matches_def run_subtask_lookup split: if_splits)
      qed
    qed
  next
    case (Tcp_send d a)
    then have s': "s' = tcp_send connects d a ?s" and "carries pk u F (address_str a) d"
      using run t m by (auto simp: send_task_turn_def sender_matches_def)
    then show ?thesis using s w by (auto simp: tcp_send_def)
  qed
qed

lemma send_out_matches:
  assumes m: "net_matches pk u b c" and step: "send_out pk u n task random connects b = Some b'"
    and law: "\<And>parser k p d a. (k, p) \<in> set (cl_flight c) \<Longrightarrow> length random = 16 \<Longrightarrow> pack pk u random p = Inr d \<Longrightarrow>
      address_parse parser k = Inr a \<Longrightarrow> carries pk u (set (cl_flight c)) (address_str a) d"
  shows "net_matches pk u b' c"
proof -
  let ?F = "set (cl_flight c)"
  obtain st s where st: "bn_station b n = Some st" "length random = 16"
    and s: "send_task_turn (pack pk u random) connects task (st_send st) = Some s"
    and b': "b' = b\<lparr>bn_station := (bn_station b)(n \<mapsto> st\<lparr>st_send := s\<lparr>us_wire := []\<rparr>\<rparr>), bn_wire := bn_wire b @ us_wire s\<rparr>"
    using step by (auto simp: send_out_def split: option.splits if_splits)
  have sm: "station_matches pk u ?F n st" using net_matchesD(2) [OF m st(1)] .
  have "sender_matches pk u ?F (s\<lparr>us_wire := []\<rparr>) \<and>
      (\<forall>t \<in> set (us_wire s). carries pk u ?F (address_str (sent_to t)) (sent_bytes t))"
    by (rule send_task_matches [OF _ s]) (use sm law st(2) in \<open>auto simp: station_matches_def\<close>)
  then show ?thesis
    using net_matchesD [OF m] st(1) sm by (auto simp: net_matches_def b' station_matches_def)
qed

subsection \<open>Steps of the workers and their queues\<close>

text \<open>A step of the worker of one process, that the cluster can do as well.\<close>

lemma worker_moves:
  assumes m: "net_matches pk u b c"
    and F: "set (cl_flight c) \<subseteq> set (cl_flight c')" and node: "cl_node c' = (cl_node c)(n \<mapsto> st_worker st')"
    and sm: "station_matches pk u (set (cl_flight c')) n st'"
  shows "net_matches pk u (b\<lparr>bn_station := (bn_station b)(n \<mapsto> st')\<rparr>) c'"
  using net_matchesD [OF m] F node sm station_mono carries_mono
  unfolding net_matches_def by (auto split: if_splits) blast+

lemma boot_matches:
  assumes m: "net_matches pk u b c" and step: "byte_step pk u (Boot n rnd now peers md count parser mtu) b = Some b'"
  shows "\<exists>c'. cluster_step (Start n rnd now peers md count) c = Some c' \<and> net_matches pk u b' c'"
proof -
  obtain ms where init: "members_init rnd now n peers md = (Inr (), ms)"
    using step by (auto simp: byte_step_def split: prod.splits sum.splits)
  let ?st = "\<lparr>st_worker = worker_init count ms,
     st_send = \<lparr>us_address_parser = parser, us_mtu_size = mtu, us_tasks = owner_init, us_wire = []\<rparr>,
     st_udp = udp_protocol_init, st_tcp = []\<rparr>"
  have b': "b' = b\<lparr>bn_station := (bn_station b)(n \<mapsto> ?st)\<rparr>" using step by (simp add: byte_step_def init)
  have "station_matches pk u F n ?st" for F
    by (simp add: station_matches_def sender_matches_def udp_protocol_init_def) (simp add: owner_init_def)
  then have "net_matches pk u b' (put_node n (worker_init count ms) c)"
    unfolding b' by (intro worker_moves [OF m]) simp_all
  then show ?thesis by (simp add: cluster_step_def init)
qed

lemma local_matches:
  assumes m: "net_matches pk u b c" and step: "byte_step pk u (Local n wev) b = Some b'"
  shows "\<exists>c'. cluster_step (At n wev) c = Some c' \<and> net_matches pk u b' c'"
proof -
  obtain st w where st: "bn_station b n = Some st" and w: "worker_step wev (st_worker st) = Some w" "off_network wev"
    and b': "b' = b\<lparr>bn_station := (bn_station b)(n \<mapsto> st\<lparr>st_worker := w\<rparr>)\<rparr>"
    using step by (auto simp: byte_step_def on_station_def split: option.splits if_splits)
  have "cluster_step (At n wev) c = Some (put_node n w c)"
    using net_matchesD(1) [OF m, of n] st w by (simp add: cluster_step_def at_node_def)
  moreover have "net_matches pk u b' (put_node n w c)"
    unfolding b'
    by (rule worker_moves [OF m]) (use net_matchesD(2) [OF m st] in \<open>auto simp: station_matches_def\<close>)
  ultimately show ?thesis by blast
qed

lemma take_matches:
  assumes m: "net_matches pk u b c" and step: "byte_step pk u (Take n) b = Some b'"
  shows "\<exists>c'. cluster_step (Send n) c = Some c' \<and> net_matches pk u b' c'"
proof -
  obtain st k p q where st: "bn_station b n = Some st" and q: "w_send_queue (st_worker st) = (k, p) # q"
    and b': "b' = b\<lparr>bn_station := (bn_station b)(n \<mapsto> st\<lparr>st_worker := (st_worker st)\<lparr>w_send_queue := q\<rparr>,
        st_send := create_task (Do_send k p) (st_send st)\<rparr>)\<rparr>"
    using step by (auto simp: byte_step_def on_station_def take_packet_def send_turn_def
        split: option.splits list.splits prod.splits)
  let ?c = "(put_node n ((st_worker st)\<lparr>w_send_queue := q\<rparr>) c)\<lparr>cl_flight := cl_flight c @ [(k, p)]\<rparr>"
  have c: "cluster_step (Send n) c = Some ?c"
    using net_matchesD(1) [OF m, of n] st q by (simp add: cluster_step_def at_node_def worker_step_def)
  have "station_matches pk u (set (cl_flight ?c)) n st"
    using net_matchesD(2) [OF m st] by (rule station_mono) auto
  then have "station_matches pk u (set (cl_flight ?c)) n
      (st\<lparr>st_worker := (st_worker st)\<lparr>w_send_queue := q\<rparr>, st_send := create_task (Do_send k p) (st_send st)\<rparr>)"
    by (auto simp: station_matches_def sender_matches_def create_task_def run_subtask_lookup split: if_splits)
  then have "net_matches pk u b' ?c"
    unfolding b' by (intro worker_moves [OF m]) auto
  with c show ?thesis by blast
qed

text \<open>A task of a protocol: what it puts into the queue was in flight to this process.\<close>

lemma handle_carried:
  assumes "protocol_handle (unpack pk u) task p q = Some (p', q')" and "tasks_carry pk u F n (pr_owner p)"
  shows "p' = p\<lparr>pr_owner := task_done task (pr_owner p)\<rparr> \<and>
    (q' = q \<or> (\<exists>packet. q' = q @ [packet] \<and> (n, packet) \<in> F))"
proof -
  obtain d where d: "map_of (running (pr_owner p)) task = Some d"
    using assms(1) by (auto simp: protocol_handle_def split: option.splits)
  then have "carries pk u F n d" using assms(2) by (auto simp: tasks_carry_def)
  then show ?thesis
    using assms(1) d by (auto simp: protocol_handle_def carries_def split: sum.splits option.splits)
qed

lemma received_matches:
  assumes m: "net_matches pk u b c" and st: "bn_station b n = Some st"
    and w: "st_worker st' = (st_worker st)\<lparr>w_recv_queue := q\<rparr>"
    and q: "q = w_recv_queue (st_worker st) \<or>
      (\<exists>packet. q = w_recv_queue (st_worker st) @ [packet] \<and> (n, packet) \<in> set (cl_flight c))"
    and sm: "station_matches pk u (set (cl_flight c)) n st'"
  shows "\<exists>cevs c'. cluster_run cevs c = Some c' \<and> filter outward cevs = [] \<and>
    net_matches pk u (b\<lparr>bn_station := (bn_station b)(n \<mapsto> st')\<rparr>) c'"
  using q
proof (elim disjE exE conjE)
  assume "q = w_recv_queue (st_worker st)"
  then have "st_worker st' = st_worker st" using w by simp
  then have "net_matches pk u (b\<lparr>bn_station := (bn_station b)(n \<mapsto> st')\<rparr>) c"
    using net_matchesD(1) [OF m, of n] st by (intro worker_moves [OF m _ _ sm]) (auto simp: fun_upd_idem)
  then show ?thesis by (intro exI [of _ "[]"] exI [of _ c]) simp
next
  fix packet assume q: "q = w_recv_queue (st_worker st) @ [packet]" and "(n, packet) \<in> set (cl_flight c)"
  then obtain k where k: "k < length (cl_flight c)" "cl_flight c ! k = (n, packet)"
    by (auto simp: in_set_conv_nth)
  let ?c = "put_node n (st_worker st') c"
  have "cluster_step (Deliver k) c = Some ?c"
    using net_matchesD(1) [OF m, of n] st k by (simp add: cluster_step_def at_node_def worker_step_def w q)
  moreover have "net_matches pk u (b\<lparr>bn_station := (bn_station b)(n \<mapsto> st')\<rparr>) ?c"
    using sm by (intro worker_moves [OF m]) simp_all
  ultimately show ?thesis by (intro exI [of _ "[Deliver k]"] exI [of _ ?c]) (simp add: outward_def)
qed

lemma udp_turn_matches:
  assumes m: "net_matches pk u b c" and step: "on_station n (udp_turn pk u task) b = Some b'"
  shows "\<exists>cevs c'. cluster_run cevs c = Some c' \<and> filter outward cevs = [] \<and> net_matches pk u b' c'"
proof -
  let ?F = "set (cl_flight c)"
  obtain st p q where st: "bn_station b n = Some st"
    and h: "protocol_handle (unpack pk u) task (st_udp st) (w_recv_queue (st_worker st)) = Some (p, q)"
    and b': "b' = b\<lparr>bn_station := (bn_station b)(n \<mapsto>
      st\<lparr>st_udp := p, st_worker := (st_worker st)\<lparr>w_recv_queue := q\<rparr>\<rparr>)\<rparr>"
    using step by (auto simp: on_station_def udp_turn_def split: option.splits prod.splits)
  have sm: "station_matches pk u ?F n st" using net_matchesD(2) [OF m st] .
  then have "tasks_carry pk u ?F n (pr_owner (st_udp st))" by (simp add: station_matches_def)
  note r = handle_carried [OF h this]
  show ?thesis
    unfolding b' by (rule received_matches [OF m st, of _ q])
      (use r sm in \<open>auto simp: station_matches_def tasks_carry_done\<close>)
qed

lemma tcp_turn_matches:
  assumes m: "net_matches pk u b c" and step: "on_station n (tcp_turn pk u i task) b = Some b'"
  shows "\<exists>cevs c'. cluster_run cevs c = Some c' \<and> filter outward cevs = [] \<and> net_matches pk u b' c'"
proof -
  let ?F = "set (cl_flight c)"
  obtain st x p q where st: "bn_station b n = Some st" and i: "i < length (st_tcp st)"
    and h: "protocol_handle (unpack pk u) task (fst (st_tcp st ! i)) (w_recv_queue (st_worker st)) = Some (p, q)"
    and b': "b' = b\<lparr>bn_station := (bn_station b)(n \<mapsto>
      st\<lparr>st_tcp := (st_tcp st)[i := (p, snd (st_tcp st ! i))], st_worker := (st_worker st)\<lparr>w_recv_queue := q\<rparr>\<rparr>)\<rparr>"
    using step by (auto simp: on_station_def tcp_turn_def split: option.splits prod.splits if_splits)
  have sm: "station_matches pk u ?F n st" using net_matchesD(2) [OF m st] .
  then have x: "connection_matches pk u ?F n (st_tcp st ! i)" using i by (simp add: station_matches_def)
  then have "tasks_carry pk u ?F n (pr_owner (fst (st_tcp st ! i)))" by (simp add: connection_matches_def)
  note r = handle_carried [OF h this]
  then have "connection_matches pk u ?F n (p, snd (st_tcp st ! i))"
    using x by (auto simp: connection_matches_def tasks_carry_done)
  then have "station_matches pk u ?F n (st\<lparr>st_tcp := (st_tcp st)[i := (p, snd (st_tcp st ! i))]\<rparr>)"
    by (intro connection_step [OF sm i])
  then show ?thesis
    unfolding b' by (intro received_matches [OF m st, of _ q]) (use r in \<open>auto simp: station_matches_def\<close>)
qed

subsection \<open>The simulation\<close>

text \<open>What arrives was sent to this address.\<close>

lemma arrive_step:
  assumes "byte_step pk u (Arrive n k) b = Some b'"
  obtains a d where "Datagram a d \<in> set (bn_wire b)" and "address_str a = n"
    and "on_station n (\<lambda>st. Some (st\<lparr>st_udp := datagram_received d (st_udp st)\<rparr>)) b = Some b'"
proof -
  have k: "k < length (bn_wire b)" using assms by (simp add: byte_step_def split: if_splits)
  then have mem: "bn_wire b ! k \<in> set (bn_wire b)" by (rule nth_mem)
  show thesis
  proof (cases "bn_wire b ! k")
    case (Datagram a d)
    then show ?thesis using assms k mem by (intro that [of a d]) (simp_all add: byte_step_def split: if_splits)
  next
    case (Stream a d)
    then show ?thesis using assms k by (simp add: byte_step_def)
  qed
qed

lemma accept_step:
  assumes "byte_step pk u (Accept n k) b = Some b'"
  obtains a d where "Stream a d \<in> set (bn_wire b)" and "address_str a = n"
    and "on_station n (\<lambda>st. Some (accept d st)) b = Some b'"
proof -
  have k: "k < length (bn_wire b)" using assms by (simp add: byte_step_def split: if_splits)
  then have mem: "bn_wire b ! k \<in> set (bn_wire b)" by (rule nth_mem)
  show thesis
  proof (cases "bn_wire b ! k")
    case (Stream a d)
    then show ?thesis using assms k mem by (intro that [of a d]) (simp_all add: byte_step_def split: if_splits)
  next
    case (Datagram a d)
    then show ?thesis using assms k by (simp add: byte_step_def)
  qed
qed

lemma byte_step_matches:
  assumes m: "net_matches pk u b c" and step: "byte_step pk u ev b = Some b'"
    and law: "\<And>random parser k p d a. (k, p) \<in> set (cl_flight c) \<Longrightarrow> length random = 16 \<Longrightarrow>
      pack pk u random p = Inr d \<Longrightarrow> address_parse parser k = Inr a \<Longrightarrow>
      carries pk u (set (cl_flight c)) (address_str a) d"
  shows "\<exists>cevs c'. cluster_run cevs c = Some c' \<and> filter outward cevs = outer ev \<and> net_matches pk u b' c'"
proof -
  have one: ?thesis if "cluster_step cev c = Some c'" "net_matches pk u b' c'" "filter outward [cev] = outer ev" for cev c'
    using that by (intro exI [of _ "[cev]"] exI [of _ c']) simp
  have none: ?thesis if "net_matches pk u b' c" "outer ev = []"
    using that by (intro exI [of _ "[]"] exI [of _ c]) simp
  show ?thesis
  proof (cases ev)
    case (Boot n rnd now peers md count parser mtu)
    have "\<exists>c'. cluster_step (Start n rnd now peers md count) c = Some c' \<and> net_matches pk u b' c'"
      by (rule boot_matches [OF m step [unfolded Boot]])
    then obtain c' where c': "cluster_step (Start n rnd now peers md count) c = Some c'" "net_matches pk u b' c'"
      by (elim exE conjE)
    then show ?thesis by (rule one) (simp add: Boot outer_def outward_def)
  next
    case (Local n wev)
    have "\<exists>c'. cluster_step (At n wev) c = Some c' \<and> net_matches pk u b' c'"
      by (rule local_matches [OF m step [unfolded Local]])
    then obtain c' where c': "cluster_step (At n wev) c = Some c'" "net_matches pk u b' c'"
      by (elim exE conjE)
    then show ?thesis by (rule one) (simp add: Local outer_def outward_def)
  next
    case (Take n)
    have "\<exists>c'. cluster_step (Send n) c = Some c' \<and> net_matches pk u b' c'"
      by (rule take_matches [OF m step [unfolded Take]])
    then obtain c' where c': "cluster_step (Send n) c = Some c'" "net_matches pk u b' c'"
      by (elim exE conjE)
    then show ?thesis by (rule one) (simp add: Take outer_def outward_def)
  next
    case (Send_task n task random connects)
    then have "send_out pk u n task random connects b = Some b'" using step by (simp add: byte_step_def)
    then have "net_matches pk u b' c" by (rule send_out_matches [OF m _ law])
    with Send_task show ?thesis by (intro none) (simp_all add: outer_def)
  next
    case (Arrive n k)
    obtain a d where d: "Datagram a d \<in> set (bn_wire b)" "address_str a = n"
      and s: "on_station n (\<lambda>st. Some (st\<lparr>st_udp := datagram_received d (st_udp st)\<rparr>)) b = Some b'"
      by (rule arrive_step [OF step [unfolded Arrive]])
    have "carries pk u (set (cl_flight c)) n d" using net_matchesD(3) [OF m d(1)] d(2) by simp
    then have "net_matches pk u b' c" by (intro hidden_step [OF m s]) (auto intro: datagram_matches)
    with Arrive show ?thesis by (intro none) (simp_all add: outer_def)
  next
    case (Noise n d)
    then have "carries pk u (set (cl_flight c)) n d"
      and s: "on_station n (\<lambda>st. Some (st\<lparr>st_udp := datagram_received d (st_udp st)\<rparr>)) b = Some b'"
      using step by (auto simp: byte_step_def not_packet_carries split: if_splits)
    then have "net_matches pk u b' c" by (intro hidden_step [OF m s]) (auto intro: datagram_matches)
    with Noise show ?thesis by (intro none) (simp_all add: outer_def)
  next
    case (Accept n k)
    obtain a d where d: "Stream a d \<in> set (bn_wire b)" "address_str a = n"
      and s: "on_station n (\<lambda>st. Some (accept d st)) b = Some b'"
      by (rule accept_step [OF step [unfolded Accept]])
    have "carries pk u (set (cl_flight c)) n d" using net_matchesD(3) [OF m d(1)] d(2) by simp
    then have "net_matches pk u b' c"
      by (intro hidden_step [OF m s]) (auto intro: accept_matches, simp add: accept_def)
    with Accept show ?thesis by (intro none) (simp_all add: outer_def)
  next
    case (Intrude n d)
    then have d: "carries pk u (set (cl_flight c)) n d" and s: "on_station n (\<lambda>st. Some (accept d st)) b = Some b'"
      using step by (auto simp: byte_step_def not_packet_carries split: if_splits)
    then have "net_matches pk u b' c"
      by (intro hidden_step [OF m s]) (auto intro: accept_matches, simp add: accept_def)
    with Intrude show ?thesis by (intro none) (simp_all add: outer_def)
  next
    case (Data_in n i k)
    then have "on_station n (data_in i k) b = Some b'" using step by (simp add: byte_step_def)
    then have "net_matches pk u b' c" by (rule hidden_step [OF m _ data_in_matches])
    with Data_in show ?thesis by (intro none) (simp_all add: outer_def)
  next
    case (Lost n i exc)
    then have "on_station n (lost i exc) b = Some b'" using step by (simp add: byte_step_def)
    then have "net_matches pk u b' c" by (rule hidden_step [OF m _ lost_matches])
    with Lost show ?thesis by (intro none) (simp_all add: outer_def)
  next
    case (Udp_turn n task)
    then show ?thesis using udp_turn_matches [OF m] step by (simp add: byte_step_def outer_def)
  next
    case (Tcp_turn n i task)
    then show ?thesis using tcp_turn_matches [OF m] step by (simp add: byte_step_def outer_def)
  qed
qed

text \<open>What is packed for a packet in flight, and sent to where its name leads, carries this packet.\<close>

definition loads_back :: "pickler \<Rightarrow> udp_pack \<Rightarrow> packet \<Rightarrow> bool" where
  "loads_back pk u p \<longleftrightarrow> loads pk (dumps pk (pk_pickle_protocol u) p) = Inr (Some p)"

lemma packed_carries:
  assumes u: "signer_made u" "length (pk_prefix_xor u) = 6"
    and p: "(k, p) \<in> F" "loads_back pk u p" "pack pk u random p = Inr d" "length random = 16"
    and k: "canonical k" "address_parse parser k = Inr a"
  shows "carries pk u F (address_str a) d"
proof -
  obtain node sec m cv where s: "pk_signatures u = signatures_init node sec m cv"
    using u(1) by (auto simp: signer_made_def)
  have "length (dumps pk (pk_pickle_protocol u) p) < 4294967296"
    using pack_frame [OF s u(2) p(4), of pk p] p(3) by (auto split: if_splits)
  then have "packable pk u random p" using u p(2,4) by (simp add: packable_def loads_back_def)
  then have "unpack pk u d = Inr (Some p)" using p(3) by (rule udp_codec.decodes)
  with p(1) canonical_parse [OF k] show ?thesis by (simp add: carries_def)
qed

text \<open>The steps that are hidden introduce and publish nothing.\<close>

lemma outward_simps:
  "\<not> outward ev \<Longrightarrow> introduces ev = {}" "publishes n md ev \<Longrightarrow> outward ev"
  by (auto simp: outward_def introduces_def publishes_def split: cluster_event.splits)

lemma byte_run_matches:
  assumes u: "signer_made u" "length (pk_prefix_xor u) = 6"
    and S: "\<And>n. n \<in> S \<Longrightarrow> canonical n" and pk: "\<And>p. packet_sourced P p \<Longrightarrow> loads_back pk u p"
    and run: "byte_run pk u evs b = Some b'"
    and m: "net_matches pk u b c" and c: "cluster_ok c" "cluster_named S c" "cluster_sourced P c"
    and evs: "\<And>ev. ev \<in> set (concat (map outer evs)) \<Longrightarrow> introduces ev \<subseteq> S"
      "\<And>ev n md. ev \<in> set (concat (map outer evs)) \<Longrightarrow> publishes n md ev \<Longrightarrow> P n md"
  shows "\<exists>cevs c'. cluster_run cevs c = Some c' \<and> filter outward cevs = concat (map outer evs) \<and>
    net_matches pk u b' c'"
  using run m c evs
proof (induction evs arbitrary: b c)
  case Nil
  then have "net_matches pk u b' c" by simp
  then show ?case by (intro exI [of _ "[]"] exI [of _ c]) simp
next
  case (Cons ev evs)
  obtain b1 where b1: "byte_step pk u ev b = Some b1" "byte_run pk u evs b1 = Some b'"
    using Cons.prems(1) by (auto split: option.splits)
  have law: "carries pk u (set (cl_flight c)) (address_str a) d"
    if "(k, p) \<in> set (cl_flight c)" "length random = 16" "pack pk u random p = Inr d"
      "address_parse parser k = Inr a" for random parser k p d a
  proof -
    have "canonical k"
      using cluster_namedD(3) [OF Cons.prems(4) aroundI(1) [OF that(1)]] by (intro S) (simp add: mentions_def)
    moreover have "loads_back pk u p"
      using cluster_sourcedD(2) [OF Cons.prems(5) aroundI(1) [OF that(1)]] by (intro pk) simp
    ultimately show ?thesis using that by (intro packed_carries [OF u])
  qed
  have "\<exists>cevs d. cluster_run cevs c = Some d \<and> filter outward cevs = outer ev \<and> net_matches pk u b1 d"
    by (rule byte_step_matches [OF Cons.prems(2) b1(1)]) (rule law)
  then obtain cevs d where d: "cluster_run cevs c = Some d" "filter outward cevs = outer ev" "net_matches pk u b1 d"
    by (elim exE conjE)
  have mem: "cev \<in> set (outer ev)" if "cev \<in> set cevs" "outward cev" for cev
    using that unfolding d(2) [symmetric] by simp
  have i: "introduces cev \<subseteq> S" if "cev \<in> set cevs" for cev
    using Cons.prems(6) [of cev] mem [OF that] outward_simps(1) [of cev] by (cases "outward cev") auto
  have pub: "P n md" if "cev \<in> set cevs" "publishes n md cev" for cev n md
    using Cons.prems(7) [OF _ that(2)] mem [OF that(1)] outward_simps(2) [OF that(2)] by simp
  have ok: "cluster_ok d \<and> cluster_sourced P d"
    by (rule cluster_run_sourced [OF d(1) Cons.prems(3,5) pub])
  have "cluster_named S d" by (rule cluster_run_named [OF d(1) Cons.prems(3,4) i])
  have "\<exists>cevs' c'. cluster_run cevs' d = Some c' \<and> filter outward cevs' = concat (map outer evs) \<and>
      net_matches pk u b' c'"
  proof (rule Cons.IH [OF b1(2) d(3)])
    show "cluster_ok d" "cluster_sourced P d" using ok by simp_all
    fix cev assume cev: "cev \<in> set (concat (map outer evs))"
    then show "introduces cev \<subseteq> S" by (intro Cons.prems(6)) simp
    fix n md assume "publishes n md cev"
    then show "P n md" using cev by (intro Cons.prems(7)) simp_all
  qed fact
  then obtain cevs' c' where c': "cluster_run cevs' d = Some c'" "filter outward cevs' = concat (map outer evs)"
    "net_matches pk u b' c'"
    by (elim exE conjE)
  have "cluster_run (cevs @ cevs') c = Some c'" using d(1) c'(1) by (simp add: cluster_run_append)
  with d(2) c'(2,3) show ?case by (intro exI [of _ "cevs @ cevs'"] exI [of _ c']) simp
qed

end
