(* ===== verification/Swim_Bytes_Props.thy ===== *)
theory Swim_Bytes_Props
  imports Swim_Bytes
begin

text \<open>
  What the network of \<open>Swim_Bytes\<close> shows to the cluster, and a run of it with a pickler that can be
  computed.
\<close>

subsection \<open>A pickler for the packets of a cluster without metadata\<close>

text \<open>
  A packet is a list of fields of bytes. A field is written with a one before each byte and a zero
  at its end; a number is a sign, and as many zeros as its amount.
\<close>

definition put_field :: "bytes \<Rightarrow> bytes" where
  "put_field bs = concat (map (\<lambda>b. [1, b]) bs) @ [0]"

fun get_fields :: "bytes \<Rightarrow> bytes \<Rightarrow> bytes list" where
  "get_fields acc [] = []"
| "get_fields acc [b] = (if b = 0 then [acc] else [])"
| "get_fields acc (b # c # bs) =
     (if b = 0 then acc # get_fields [] (c # bs) else get_fields (acc @ [c]) bs)"

lemma get_put_field: "get_fields acc (put_field bs @ r) = (acc @ bs) # get_fields [] r"
proof (induction bs arbitrary: acc)
  case Nil
  then show ?case by (cases r) (simp_all add: put_field_def)
next
  case (Cons b bs)
  then show ?case by (simp add: put_field_def)
qed

lemma get_put_fields: "get_fields [] (concat (map put_field fs)) = fs"
  by (induction fs) (simp_all add: get_put_field)

definition text_field :: "string \<Rightarrow> bytes" where
  "text_field s = map (\<lambda>c. word_of_nat (of_char c)) s"

definition field_text :: "bytes \<Rightarrow> string" where
  "field_text f = map (\<lambda>b. char_of (unat b)) f"

definition int_field :: "int \<Rightarrow> bytes" where
  "int_field k = (if k < 0 then 1 else 0) # replicate (nat \<bar>k\<bar>) 0"

definition field_int :: "bytes \<Rightarrow> int" where
  "field_int f = (if take 1 f = [1] then - int (length f - 1) else int (length f - 1))"

lemma field_simps [simp]: "field_text (text_field s) = s" "field_int (int_field k) = k"
proof -
  have "unat (word_of_nat (of_char c) :: 8 word) = of_char c" for c
    by (simp add: unat_of_nat)
  then show "field_text (text_field s) = s"
    by (simp add: field_text_def text_field_def comp_def)
  show "field_int (int_field k) = k" by (simp add: field_int_def int_field_def)
qed

fun packet_fields :: "packet \<Rightarrow> bytes list" where
  "packet_fields (Ping s) = [[0], text_field (src_name s), src_validity s]"
| "packet_fields (PingReq s t) = [[1], text_field (src_name s), src_validity s, text_field t]"
| "packet_fields (Ack s) = [[2], text_field (src_name s), src_validity s]"
| "packet_fields (Gossip s n k st md) = [[3], text_field (src_name s), src_validity s, text_field n,
     int_field k, [ucast st], if md = None then [] else [1]]"
| "packet_fields (GossipAck s n k) = [[4], text_field (src_name s), src_validity s, text_field n, int_field k]"

definition fields_packet :: "bytes list \<Rightarrow> packet option" where
  "fields_packet fs = (case fs of
     [k, s, v] \<Rightarrow>
       let src = \<lparr>src_name = field_text s, src_validity = v\<rparr> in Some (if k = [0] then Ping src else Ack src)
   | [k, s, v, t] \<Rightarrow> Some (PingReq \<lparr>src_name = field_text s, src_validity = v\<rparr> (field_text t))
   | [k, s, v, n, c] \<Rightarrow> Some (GossipAck \<lparr>src_name = field_text s, src_validity = v\<rparr> (field_text n) (field_int c))
   | [k, s, v, n, c, st, md] \<Rightarrow> Some (Gossip \<lparr>src_name = field_text s, src_validity = v\<rparr> (field_text n)
       (field_int c) (ucast (hd st)) (if md = [] then None else Some {}))
   | _ \<Rightarrow> None)"

lemma ucast_back: "ucast (ucast (st :: status) :: 8 word) = st"
  by (rule bit_word_eqI) (auto simp: bit_ucast_iff)

lemma fields_packet_fields:
  "packet_sourced (\<lambda>n md. md = {}) p \<Longrightarrow> fields_packet (packet_fields p) = Some p"
  by (cases p) (auto simp: fields_packet_def packet_sourced_def ucast_back)

definition field_pickler :: pickler where
  "field_pickler =
     \<lparr>dumps = (\<lambda>_ p. concat (map put_field (packet_fields p))),
      loads = (\<lambda>bs. Inr (fields_packet (get_fields [] bs)))\<rparr>"

lemma field_pickler_loads: "packet_sourced (\<lambda>n md. md = {}) p \<Longrightarrow> loads_back field_pickler u p"
  by (simp add: loads_back_def field_pickler_def get_put_fields fields_packet_fields)

subsection \<open>A run\<close>

text \<open>
  Two processes; the first pings the second, whose ping is signed, packed, sent, received, checked and
  handed to its worker.
\<close>

definition path :: "byte_event list" where
  "path =
     [Boot ''a:80'' (\<lambda>_. [1]) 0 [''b:80''] {} 1 \<lparr>ap_default_host = None, ap_default_port = None\<rparr> 1500,
      Boot ''b:80'' (\<lambda>_. [2]) 0 [''a:80''] {} 1 \<lparr>ap_default_host = None, ap_default_port = None\<rparr> 1500,
      Local ''a:80'' (Detect [0]), Local ''a:80'' (Resume 0 [] 1), Take ''a:80'']"

definition path_ping :: packet where
  "path_ping = Ping \<lparr>src_name = ''a:80'', src_validity = [1]\<rparr>"

lemma path_run:
  "map_option (\<lambda>b. (bn_wire b,
      map_option (\<lambda>st. let s = st_send st in
        (map_of (running (us_tasks s)) 0 = Some (Do_send ''b:80'' path_ping), us_mtu_size s, us_wire s,
         ap_default_host (us_address_parser s))) (bn_station b ''a:80''),
      map_option (\<lambda>st. (w_recv_queue (st_worker st), next_task (pr_owner (st_udp st)))) (bn_station b ''b:80'')))
     (byte_run field_pickler demo_pack path byte_init) =
   Some ([], Some (True, 1500, [], None), Some ([], 0))"
  by code_simp

lemma path_state:
  obtains b sa sb where "byte_run field_pickler demo_pack path byte_init = Some b" and "bn_wire b = []"
    and "bn_station b ''a:80'' = Some sa" and "bn_station b ''b:80'' = Some sb"
    and "map_of (running (us_tasks (st_send sa))) 0 = Some (Do_send ''b:80'' path_ping)"
    and "us_mtu_size (st_send sa) = 1500" and "us_wire (st_send sa) = []"
    and "w_recv_queue (st_worker sb) = []" and "next_task (pr_owner (st_udp sb)) = 0"
proof -
  obtain b where b: "byte_run field_pickler demo_pack path byte_init = Some b" "bn_wire b = []"
    "map_option (\<lambda>st. let s = st_send st in
        (map_of (running (us_tasks s)) 0 = Some (Do_send ''b:80'' path_ping), us_mtu_size s, us_wire s,
         ap_default_host (us_address_parser s))) (bn_station b ''a:80'') = Some (True, 1500, [], None)"
    "map_option (\<lambda>st. (w_recv_queue (st_worker st), next_task (pr_owner (st_udp st)))) (bn_station b ''b:80'') =
      Some ([], 0)"
    using path_run by auto
  then show thesis by (auto simp: Let_def intro: that)
qed

lemma byte_run_append:
  "byte_run pk u (evs @ evs') b = (case byte_run pk u evs b of None \<Rightarrow> None | Some b' \<Rightarrow> byte_run pk u evs' b')"
  by (induction evs arbitrary: b) (auto split: option.split)

lemma path_packable: "packable field_pickler demo_pack (replicate 16 7) path_ping"
  and path_pickle: "length (dumps field_pickler (pk_pickle_protocol demo_pack) path_ping) = 15"
proof -
  show l: "length (dumps field_pickler (pk_pickle_protocol demo_pack) path_ping) = 15" by code_simp
  have "loads_back field_pickler demo_pack path_ping"
    by (rule field_pickler_loads) (simp add: path_ping_def packet_sourced_def)
  then show "packable field_pickler demo_pack (replicate 16 7) path_ping"
    using l by (auto simp: packable_def loads_back_def signer_made_def demo_pack_simps)
qed

lemma path_address:
  "address_parse parser ''b:80'' = Inr (Address ''b'' 80)" "address_str (Address ''b'' 80) = ''b:80''"
proof -
  show a: "address_str (Address ''b'' 80) = ''b:80''" by code_simp
  show "address_parse parser ''b:80'' = Inr (Address ''b'' 80)"
    using address_parse_text [of parser "Address ''b'' 80"] by (simp add: a)
qed

definition path_end :: "byte_event list" where
  "path_end = [Send_task ''a:80'' 0 (replicate 16 7) True, Arrive ''b:80'' 0, Udp_turn ''b:80'' 0]"

lemma path_arrives:
  obtains b sb where "byte_run field_pickler demo_pack (path @ path_end) byte_init = Some b"
    and "bn_station b ''b:80'' = Some sb" and "w_recv_queue (st_worker sb) = [path_ping]"
proof (rule path_state)
  fix b sa sb
  assume b: "byte_run field_pickler demo_pack path byte_init = Some b" "bn_wire b = []"
    "bn_station b ''a:80'' = Some sa" "bn_station b ''b:80'' = Some sb"
    and sa: "map_of (running (us_tasks (st_send sa))) 0 = Some (Do_send ''b:80'' path_ping)"
      "us_mtu_size (st_send sa) = 1500" "us_wire (st_send sa) = []"
    and sb: "w_recv_queue (st_worker sb) = []" "next_task (pr_owner (st_udp sb)) = 0"
  obtain d where d: "pack field_pickler demo_pack (replicate 16 7) path_ping = Inr d" "length d = 69"
    and u: "\<And>extra. unpack field_pickler demo_pack (d @ extra) = Inr (Some path_ping)"
    using packable_unpacks [OF path_packable] path_pickle by auto
  have unpack: "unpack field_pickler demo_pack d = Inr (Some path_ping)" using u [of "[]"] by simp
  let ?run = "\<lambda>ev. byte_step field_pickler demo_pack ev"
  let ?s = "(st_send sa)\<lparr>us_tasks := task_done 0 (us_tasks (st_send sa))\<rparr>"
  let ?w = "[Datagram (Address ''b'' 80) d]"
  let ?b1 = "b\<lparr>bn_station := (bn_station b)(''a:80'' \<mapsto> sa\<lparr>st_send := ?s\<lparr>us_wire := []\<rparr>\<rparr>), bn_wire := ?w\<rparr>"
  have 1: "?run (Send_task ''a:80'' 0 (replicate 16 7) True) b = Some ?b1"
    using b(2,3) sa d path_address by (simp add: byte_step_def send_out_def send_task_turn_def do_send_def)
  let ?p = "datagram_received d (st_udp sb)"
  let ?b2 = "?b1\<lparr>bn_station := (bn_station ?b1)(''b:80'' \<mapsto> sb\<lparr>st_udp := ?p\<rparr>)\<rparr>"
  have 2: "?run (Arrive ''b:80'' 0) ?b1 = Some ?b2"
    using b(4) by (simp add: byte_step_def on_station_def path_address)
  obtain p' where p': "protocol_handle (unpack field_pickler demo_pack) 0 ?p [] = Some (p', [path_ping])"
    using udp_codec.started [OF path_packable d(1), of "st_udp sb" "[]"] sb(2) by (auto simp: datagram_received_def)
  let ?b3 = "?b2\<lparr>bn_station := (bn_station ?b2)(''b:80'' \<mapsto>
    sb\<lparr>st_udp := p', st_worker := (st_worker sb)\<lparr>w_recv_queue := [path_ping]\<rparr>\<rparr>)\<rparr>"
  have 3: "?run (Udp_turn ''b:80'' 0) ?b2 = Some ?b3"
    using p' sb(1) by (simp add: byte_step_def on_station_def udp_turn_def)
  have "byte_run field_pickler demo_pack (path @ path_end) byte_init = Some ?b3"
    unfolding byte_run_append path_end_def b(1) by (simp only: byte_run.simps option.case 1 2 3)
  moreover have "bn_station ?b3 ''b:80'' =
      Some (sb\<lparr>st_udp := p', st_worker := (st_worker sb)\<lparr>w_recv_queue := [path_ping]\<rparr>\<rparr>)"
    by simp
  ultimately show thesis by (rule that) simp
qed

subsection \<open>Properties\<close>

text \<open>
  C3: The network of bytes is the network of packets. However the tasks of senders and receivers
  interleave, and however datagrams and connections are delayed, repeated, cut into pieces, broken
  or mixed with bytes that do not unpack: whatever state the processes reach when they share the
  secret, their workers reach in the cluster of packets, by the same starts and the same steps of
  the workers with some packets sent and delivered in between; and what any bytes on the wire
  unpack to was sent by a worker to this address. All names must be texts of addresses, and the
  pickles of packets must load back, where their metadata is some that was published.
\<close>

theorem bytes_refine_cluster:
  assumes "byte_run pk u evs byte_init = Some b"
    and "signer_made u" and "length (pk_prefix_xor u) = 6"
    and "\<And>ev n. ev \<in> set (concat (map outer evs)) \<Longrightarrow> n \<in> introduces ev \<Longrightarrow> canonical n"
    and "\<And>p. packet_sourced (\<lambda>n md. \<exists>ev \<in> set (concat (map outer evs)). publishes n md ev) p \<Longrightarrow> loads_back pk u p"
  shows "\<exists>cevs c. cluster_run cevs cluster_init = Some c \<and> filter outward cevs = concat (map outer evs) \<and>
    (\<forall>n. cl_node c n = map_option st_worker (bn_station b n)) \<and>
    (\<forall>t \<in> set (bn_wire b). \<forall>p. unpack pk u (sent_bytes t) = Inr (Some p) \<longrightarrow>
       (address_str (sent_to t), p) \<in> set (cl_flight c))"
proof -
  let ?S = "\<Union>ev \<in> set (concat (map outer evs)). introduces ev"
  have init: "net_matches pk u byte_init cluster_init"
    by (simp add: net_matches_def byte_init_def cluster_init_def)
  have S: "canonical n" if "n \<in> ?S" for n using that assms(4) by blast
  obtain cevs c where c: "cluster_run cevs cluster_init = Some c" "filter outward cevs = concat (map outer evs)"
    and m: "net_matches pk u b c"
    using byte_run_matches [OF assms(2,3) S assms(5,1) init cluster_init_ok(1) cluster_init_named cluster_init_ok(2)]
    by blast
  show ?thesis
    using c net_matchesD(1,3) [OF m] by (intro exI [of _ cevs] exI [of _ c]) (auto simp: carries_def)
qed

theorem bytes_refine_cluster_witness:
  "\<exists>cevs c w. cluster_run cevs cluster_init = Some c \<and> filter outward cevs = concat (map outer path) \<and>
    cl_node c ''b:80'' = Some w \<and> w_recv_queue w = [path_ping]"
proof (rule path_arrives)
  fix b sb
  assume b: "byte_run field_pickler demo_pack (path @ path_end) byte_init = Some b"
    "bn_station b ''b:80'' = Some sb" "w_recv_queue (st_worker sb) = [path_ping]"
  have o: "concat (map outer (path @ path_end)) = concat (map outer path)"
    by (simp add: path_end_def outer_def)
  have e: "set (concat (map outer path)) =
    {Start ''a:80'' (\<lambda>_. [1]) 0 [''b:80''] {} 1, Start ''b:80'' (\<lambda>_. [2]) 0 [''a:80''] {} 1,
     At ''a:80'' (Detect [0]), At ''a:80'' (Resume 0 [] 1)}"
    by (auto simp: path_def outer_def)
  have names: "canonical n" if "ev \<in> set (concat (map outer path))" "n \<in> introduces ev" for ev n
  proof -
    have "n \<in> {''a:80'', ''b:80''}" using that unfolding e by (auto simp: introduces_def)
    moreover have "canonical ''a:80''" "canonical ''b:80''" by code_simp+
    ultimately show ?thesis by auto
  qed
  have loads: "loads_back field_pickler demo_pack p"
    if "packet_sourced (\<lambda>n md. \<exists>ev \<in> set (concat (map outer path)). publishes n md ev) p" for p
  proof (rule field_pickler_loads)
    show "packet_sourced (\<lambda>n md. md = {}) p"
      using that unfolding e by (auto simp: packet_sourced_def publishes_def)
  qed
  have "signer_made demo_pack" by (auto simp: signer_made_def demo_pack_simps)
  from bytes_refine_cluster [OF b(1) this demo_pack_simps(2), unfolded o, OF names loads] b(2,3)
  show ?thesis by force
qed

end
