(* ===== verification/Swim_Worker_Check.thy ===== *)
theory Swim_Worker_Check
  imports Swim_Worker_Props
begin

text \<open>
  What a failure check concludes. The flag of a suspended wait is followed through an arbitrary
  schedule of the other tasks: it is set exactly when a packet of the target is handled. The
  verdict of the check, the life of the suspicion timer and the effect of gossip on it follow.
\<close>

subsection \<open>The flag of a wait\<close>

text \<open>The step handles a packet from the member \<open>t\<close>.\<close>

definition hears :: "string \<Rightarrow> worker_event \<Rightarrow> worker \<Rightarrow> bool" where
  "hears t ev w = (case ev of
     Handle rnd now \<Rightarrow>
       loop_runs Handler w \<and>
       (case w_recv_queue w of [] \<Rightarrow> False | p # q \<Rightarrow> src_name (packet_source p) = t)
   | _ \<Rightarrow> False)"

fun heard_during :: "string \<Rightarrow> worker_event list \<Rightarrow> worker \<Rightarrow> bool" where
  "heard_during t [] w = False"
| "heard_during t (ev # evs) w =
     (hears t ev w \<or>
      (case worker_step ev w of None \<Rightarrow> False | Some w' \<Rightarrow> heard_during t evs w'))"

definition flag_set :: "string \<Rightarrow> nat \<Rightarrow> worker \<Rightarrow> bool" where
  "flag_set t e w \<longleftrightarrow> (e, True) \<in> set (events_at t w)"

definition resumes :: "nat \<Rightarrow> worker_event \<Rightarrow> bool" where
  "resumes i ev = (case ev of Resume j draws now \<Rightarrow> j = i | _ \<Rightarrow> False)"

lemma flag_cong: "w_waiting w' = w_waiting w \<Longrightarrow> flag_set t e w' = flag_set t e w"
  by (simp add: flag_set_def events_at_def)

text \<open>Subtasks other than the waiting one leave its wait and its flag alone.\<close>

lemma subtask_turn_wait:
  assumes inv: "worker_inv w" and w: "waits_of w i = Some (t, e)" and "j \<noteq> i"
    and run: "subtask_turn j draws now w = Some w'"
  shows "waits_of w' i = Some (t, e) \<and> flag_set t e w' = flag_set t e w"
proof -
  have ei: "event_inv w" using inv by (rule worker_invD)
  have fresh: "e < w_next w" using event_invD(2) [OF ei event_invD(1) [OF ei w]] .
  have begin': "waits_of (wait_begin j u s v) i = Some (t, e) \<and>
      flag_set t e (wait_begin j u s v) = flag_set t e w"
    if "w_owner v = w_owner w" "w_waiting v = w_waiting w" "w_next v = w_next w" for u s v
  proof -
    have "waits_of (wait_begin j u s v) i = waits_of v i"
      using \<open>j \<noteq> i\<close> by (simp add: wait_begin_run waits_of_owner) (simp add: waits_of_def)
    moreover have "waits_of v i = waits_of w i" using that(1) by (rule waits_owner_cong)
    moreover have "flag_set t e (wait_begin j u s v) = flag_set t e v"
      by (cases "t = u") (simp_all add: flag_set_def wait_begin_events)
    ultimately show ?thesis using w flag_cong [OF that(2)] by simp
  qed
  have ended: "waits_of v i = Some (t, e) \<and> flag_set t e v = flag_set t e w"
    if "waits_of w j = Some (u, d)" "w_waiting v = w_waiting (snd (wait_end u d w))"
      "waits_of v i = waits_of w i" for u d v
  proof -
    have "d \<noteq> e" using event_invD(3) [OF ei w, of j u] that(1) \<open>j \<noteq> i\<close> by auto
    then have "flag_set t e (snd (wait_end u d w)) = flag_set t e w"
      by (auto simp: flag_set_def wait_end_events)
    with that(2,3) w show ?thesis by (simp add: flag_cong [of v "snd (wait_end u d w)"])
  qed
  have fin: "waits_of (check_finish j u on now v) i = waits_of v i"
    "w_waiting (check_finish j u on now v) = w_waiting v" for u on v
    using \<open>j \<noteq> i\<close> by (simp_all add: check_finish_run waits_of_owner waits_owner_cong [of "concluded _ _ _ _"])
  obtain s where s: "map_of (running (w_owner w)) j = Some s"
    using run by (cases "map_of (running (w_owner w)) j") (simp_all add: subtask_turn_def)
  show ?thesis
  proof (cases s)
    case (Check_start u)
    with s run begin' show ?thesis
      by (auto simp: subtask_turn_def check_begin_def Let_def send_from_local [OF inv])
  next
    case (Check_ping u d)
    have wj: "waits_of w j = Some (u, d)" using s Check_ping by (simp add: waits_of_def)
    obtain on w1 where we: "wait_end u d w = (on, w1)" by (cases "wait_end u d w")
    then have w1: "w1 = snd (wait_end u d w)" by simp
    have same: "waits_of w1 i = waits_of w i" by (rule waits_owner_cong) (simp add: w1)
    have "w' = check_finish j u on now w1 \<or> w' = finish j w1 \<or> (\<exists>ns. w' = suspend_at j (Check_sending u ns) w1)"
      using run s Check_ping we
      by (auto simp: subtask_turn_def check_pinged_def split: bool.splits option.splits sum.splits if_splits)
    then show ?thesis
      using ended [OF wj, of w'] fin same \<open>j \<noteq> i\<close> w1 by (auto simp: waits_of_owner)
  next
    case (Check_sending u ns)
    show ?thesis
    proof (cases ns)
      case Nil
      with Check_sending s run begin' show ?thesis by (auto simp: subtask_turn_def check_send_def)
    next
      case (Cons n rest)
      with Check_sending s run have w': "w' = suspend_at j (Check_sending u rest)
          (reply n (PingReq (source_at (w_members w) (ms_local (w_members w))) u) w)"
        using send_from_local [OF inv, of n "\<lambda>src. PingReq src u"]
        by (simp add: subtask_turn_def check_send_def Let_def)
      have "waits_of w' i = waits_of w i"
        using \<open>j \<noteq> i\<close> by (simp add: w' waits_of_owner waits_owner_cong [of "reply _ _ _"])
      with w show ?thesis by (simp add: w' flag_set_def events_at_def)
    qed
  next
    case (Check_ping_req u d)
    have wj: "waits_of w j = Some (u, d)" using s Check_ping_req by (simp add: waits_of_def)
    obtain on w1 where we: "wait_end u d w = (on, w1)" by (cases "wait_end u d w")
    then have w1: "w1 = snd (wait_end u d w)" by simp
    have same: "waits_of w1 i = waits_of w i" by (rule waits_owner_cong) (simp add: w1)
    have "w' = check_finish j u on now w1"
      using run s Check_ping_req we by (simp add: subtask_turn_def check_requested_def)
    then show ?thesis using ended [OF wj, of w'] fin same w1 by auto
  next
    case (Disseminate_start u)
    with s run have w': "w' = finish j (snd (disseminate u w))" by (simp add: subtask_turn_def)
    have "waits_of w' i = waits_of w i"
      using \<open>j \<noteq> i\<close> by (simp add: w' waits_of_owner disseminate_run [OF worker_invD(6) [OF inv]]
          waits_owner_cong [of "w_send_queue_update _ _"])
    with w show ?thesis
      by (simp add: w' flag_set_def events_at_def disseminate_run [OF worker_invD(6) [OF inv]])
  qed
qed

lemma spawn_wait:
  assumes "owner_inv (w_owner w)" and "waits_of w i = Some x"
  shows "waits_of (fold (\<lambda>t. spawn (s t)) ts w) i = Some x"
  using assms
proof (induction ts arbitrary: w)
  case (Cons t ts)
  have "map_of (running (w_owner w)) i \<noteq> None"
    using Cons.prems(2) by (auto simp: waits_of_def split: option.splits)
  then have "i \<noteq> next_task (w_owner w)" using owner_fresh [OF Cons.prems(1)] by auto
  then have "waits_of (spawn (s t) w) i = Some x" using Cons.prems(2) by (simp add: waits_of_owner)
  moreover have "owner_inv (w_owner (spawn (s t) w))" using Cons.prems(1) by (auto simp: spawn_def)
  ultimately show ?case using Cons.IH by simp
qed simp

lemma worker_step_wait:
  assumes inv: "worker_inv w" and w: "waits_of w i = Some (t, e)" and "\<not> resumes i ev"
    and run: "worker_step ev w = Some w'"
  shows "waits_of w' i = Some (t, e) \<and> flag_set t e w' = (flag_set t e w \<or> hears t ev w)"
proof (cases ev)
  case (Receive p)
  then have "w' = w\<lparr>w_recv_queue := w_recv_queue w @ [p]\<rparr>" using run by (simp add: worker_step_def)
  with w Receive show ?thesis by (simp add: waits_of_def flag_set_def events_at_def hears_def)
next
  case Transmit
  then obtain q where "w' = w\<lparr>w_send_queue := q\<rparr>"
    using run by (auto simp: worker_step_def split: list.splits)
  with w Transmit show ?thesis by (simp add: waits_of_def flag_set_def events_at_def hears_def)
next
  case (Set_metadata md now)
  then obtain ms where "w' = w\<lparr>w_members := ms\<rparr>"
    using run by (auto simp: worker_step_def with_members_run)
  with w Set_metadata show ?thesis by (simp add: waits_of_def flag_set_def events_at_def hears_def)
next
  case (Expire j now)
  then have "w_owner w' = w_owner w \<and> w_waiting w' = w_waiting w"
    using run by (auto simp: worker_step_def suspect_expire_def py_seq_def py_bind_def with_members_run
        split: option.splits sum.splits)
  with w Expire show ?thesis by (simp add: waits_of_def flag_set_def events_at_def hears_def)
next
  case (Resume j draws now)
  then have "subtask_turn j draws now w = Some w'" "j \<noteq> i"
    using run assms(3) by (simp_all add: worker_step_def resumes_def)
  with subtask_turn_wait [OF inv w] Resume show ?thesis by (simp add: hears_def)
next
  case (Detect draws)
  then have d: "detection_turn draws w = Some w'" using run by (simp add: worker_step_def)
  have "waits_of w' i = Some (t, e) \<and> w_waiting w' = w_waiting w"
    using d w spawn_wait [OF worker_invD(4) [OF inv] w]
    by (auto simp: detection_turn_def py_seq_def py_bind_def waits_owner_cong [of "loop_fails _ _"]
        split: if_splits option.splits sum.splits)
  with Detect show ?thesis by (simp add: flag_set_def events_at_def hears_def)
next
  case (Gossip_round draws)
  then have d: "dissemination_turn draws w = Some w'" using run by (simp add: worker_step_def)
  have "waits_of w' i = Some (t, e) \<and> w_waiting w' = w_waiting w"
    using d w spawn_wait [OF worker_invD(4) [OF inv] w]
    by (auto simp: dissemination_turn_def waits_owner_cong [of "loop_fails _ _"]
        split: if_splits option.splits sum.splits)
  with Gossip_round show ?thesis by (simp add: flag_set_def events_at_def hears_def)
next
  case (Handle rnd now)
  then obtain p q where q: "w_recv_queue w = p # q" "loop_runs Handler w"
    and w': "w' = loop_fails Handler (handle_packet rnd now p (w\<lparr>w_recv_queue := q\<rparr>))"
    using run by (auto simp: worker_step_def handler_turn_def split: if_splits list.splits)
  let ?w = "w\<lparr>w_recv_queue := q\<rparr>" and ?n = "src_name (packet_source p)"
  have "packet_ok p" using worker_invD(5) [OF inv] q(1) by simp
  note f = handle_fields [OF worker_inv_queues(2) [OF inv q(1)] this, of rnd now]
  have "w_waiting w' = w_waiting (w\<lparr>w_waiting := waits_notified ?n w\<rparr>)"
    by (simp add: w' f waits_notified_def split: option.split)
  then have ev: "events_at t w' = (if t = ?n then map (\<lambda>(e, _). (e, True)) (events_at t w) else events_at t w)"
    using waits_notified_events [where t = t and n = ?n and w = w] events_at_cong by metis
  have "e \<in> event_ids t w" using event_invD(1) [OF worker_invD(3) [OF inv] w] .
  then have "flag_set t e w' = (flag_set t e w \<or> t = ?n)"
    by (force simp: flag_set_def ev event_ids_def)
  moreover have "waits_of w' i = Some (t, e)"
    using w by (simp add: w' f waits_of_def)
  ultimately show ?thesis using Handle q by (auto simp: hears_def)
qed

lemma worker_steps_wait:
  assumes "worker_inv w" and "waits_of w i = Some (t, e)"
    and "\<forall>ev \<in> set evs. event_ok ev \<and> \<not> resumes i ev" and "worker_steps evs w = Some w'"
  shows "worker_inv w' \<and> waits_of w' i = Some (t, e) \<and>
    flag_set t e w' = (flag_set t e w \<or> heard_during t evs w)"
  using assms
proof (induction evs arbitrary: w)
  case Nil
  then show ?case by simp
next
  case (Cons ev evs)
  obtain w1 where w1: "worker_step ev w = Some w1" "worker_steps evs w1 = Some w'"
    using Cons.prems(4) by (auto split: option.splits)
  have "worker_inv w1" using Cons.prems(1,3) w1(1) by (auto intro: worker_step_inv)
  moreover have "waits_of w1 i = Some (t, e) \<and> flag_set t e w1 = (flag_set t e w \<or> hears t ev w)"
    using Cons.prems by (intro worker_step_wait [OF _ _ _ w1(1)]) auto
  ultimately show ?case using Cons.IH [of w1] Cons.prems(3) w1 by auto
qed

subsection \<open>The verdict\<close>

text \<open>The status and the timer of the target once the check has ended.\<close>

lemma update_status_at:
  assumes "store_inv ms" and "status_at ms n = Some old" and "settable (Some st)"
  shows "status_at (snd (members_update now n (Some st) None ms)) n = Some (status_after old (Some st))"
proof -
  have inv: "members_inv ms" using assms(1) by (simp add: store_inv_def)
  obtain m where m: "map_of (ms_members ms) n = Some m" "m_status m = old"
    using assms(2) by (auto simp: status_at_def)
  have acc: "accepts None (ms_next_clock ms) m"
    using members_invD(5) [OF inv m(1)] by (simp add: accepts_def)
  show ?thesis
  proof (cases "changes (Some st) None m")
    case False
    then have "status_after old (Some st) = old" using m(2) by (simp add: changes_def)
    with False assms(2,3) m(1) inv show ?thesis
      by (simp add: members_update_common update_unchanged)
  next
    case True
    with acc assms(3) m inv show ?thesis
      by (simp add: members_update_common update_changes status_at_def update_changed_lookup changed_def)
  qed
qed

lemma concluded_outcome:
  assumes inv: "worker_inv w" and "status_at (w_members w) t = Some old" and "settable (Some st)"
  shows "status_at (w_members (concluded t st now w)) t = Some (status_after old (Some st))"
    and "(map_of (w_suspect (concluded t st now w)) t \<noteq> None) = (st = SUSPECT)"
  using status_handled_timers(2) [OF worker_invD(2) [OF inv], of t st]
    update_status_at [OF worker_invD(6) [OF inv] assms(2,3)]
  by (simp_all add: concluded_def)

lemma known_status: "known ms n \<Longrightarrow> \<exists>st. status_at ms n = Some st"
  by (auto simp: known_def status_at_def)

text \<open>
  C12: A check hears its target. If any packet from the target is handled while the check is
  suspended in either of its waits, then after any schedule of the other tasks, and however late
  the check goes on, it ends at once, the target is online and no suspicion timer runs for it.
\<close>

theorem check_hears_target:
  assumes "worker_reachable w" and "waits_of w i = Some (t, e)"
    and "\<forall>ev \<in> set evs. event_ok ev \<and> \<not> resumes i ev"
    and "worker_steps evs w = Some w1" and "heard_during t evs w"
  shows "\<exists>w2. worker_step (Resume i draws now) w1 = Some w2 \<and>
    map_of (running (w_owner w2)) i = None \<and> status_at (w_members w2) t = Some ONLINE \<and>
    map_of (w_suspect w2) t = None"
proof -
  have w1: "worker_inv w1" "waits_of w1 i = Some (t, e)" "flag_set t e w1"
    using worker_steps_wait [OF worker_reachable_inv [OF assms(1)] assms(2-4)] assms(5) by auto
  obtain v where we: "wait_end t e w1 = (True, v)"
    using w1(3) by (simp add: wait_end_def flag_set_def)
  then have v: "v = snd (wait_end t e w1)" by simp
  let ?w2 = "concluded t ONLINE now (finish i v)"
  have step: "worker_step (Resume i draws now) w1 = Some ?w2"
    using w1(2) we
    by (auto simp: worker_step_def subtask_turn_def waits_of_def check_pinged_def check_requested_def
        check_finish_run split: option.splits subtask.splits)
  have fi: "worker_inv (finish i v)" unfolding v using w1(1,2) by (rule wait_end_inv)
  obtain old where "status_at (w_members (finish i v)) t = Some old"
    using known_status [OF wait_target_known [OF w1(1,2)]] by (auto simp: v)
  from concluded_outcome [OF fi this, of ONLINE now]
  have "status_at (w_members ?w2) t = Some ONLINE" "map_of (w_suspect ?w2) t = None"
    by (simp_all add: status_after_def)
  moreover have "map_of (running (w_owner ?w2)) i = None" by (simp add: finish_def)
  ultimately show ?thesis using step by blast
qed

text \<open>A worker that has sent a ping to its only peer and waits for the answer.\<close>

definition demo_pinged :: worker where
  "demo_pinged = the (worker_steps [Detect [0], Resume 0 [] 1] (demo_worker [''a'']))"

lemma demo_run:
  assumes "map_option f (worker_steps evs (demo_worker peers)) = Some x" and "\<forall>ev \<in> set evs. event_ok ev"
  shows "worker_reachable (the (worker_steps evs (demo_worker peers)))"
    and "f (the (worker_steps evs (demo_worker peers))) = x"
  using assms worker_run_steps [OF demo_worker_reachable assms(2)] by auto

lemma demo_pinged_run:
  "map_option (\<lambda>w. (waits_of w 0,
       map_option (\<lambda>w1. True) (worker_steps [Receive (Ack \<lparr>src_name = ''a'', src_validity = []\<rparr>), Handle (\<lambda>_. []) 2] w),
       heard_during ''a'' [Receive (Ack \<lparr>src_name = ''a'', src_validity = []\<rparr>), Handle (\<lambda>_. []) 2] w))
     (worker_steps [Detect [0], Resume 0 [] 1] (demo_worker [''a''])) =
   Some (Some (''a'', 0), Some True, True)"
  by code_simp

theorem check_hears_target_witness:
  "\<exists>w1 w2. worker_steps [Receive (Ack \<lparr>src_name = ''a'', src_validity = []\<rparr>), Handle (\<lambda>_. []) 2] demo_pinged
      = Some w1 \<and>
    worker_step (Resume 0 [] 3) w1 = Some w2 \<and> status_at (w_members w2) ''a'' = Some ONLINE"
proof -
  let ?evs = "[Receive (Ack \<lparr>src_name = ''a'', src_validity = []\<rparr>), Handle (\<lambda>_. []) 2]"
  have r: "worker_reachable demo_pinged"
    unfolding demo_pinged_def by (rule demo_run(1) [OF demo_pinged_run]) simp
  have "waits_of demo_pinged 0 = Some (''a'', 0) \<and>
      map_option (\<lambda>w1. True) (worker_steps ?evs demo_pinged) = Some True \<and> heard_during ''a'' ?evs demo_pinged"
    using demo_run(2) [OF demo_pinged_run] unfolding demo_pinged_def by simp
  then obtain w1 where w: "waits_of demo_pinged 0 = Some (''a'', 0)" "heard_during ''a'' ?evs demo_pinged"
    and w1: "worker_steps ?evs demo_pinged = Some w1" by auto
  have "\<forall>ev \<in> set ?evs. event_ok ev \<and> \<not> resumes 0 ev" by (simp add: resumes_def)
  from check_hears_target [OF r w(1) this w1 w(2), of "[]" 3] w1 show ?thesis by blast
qed

subsection \<open>Suspicion timers\<close>

text \<open>
  A suspicion timer that expires ends its suspicion and declares its member offline, unless the
  member has become online in the meantime under a timer that was not cancelled: then the
  expiry makes it suspect, and no timer is left that would declare it offline.
\<close>

theorem suspicion_expires:
  assumes "worker_reachable w" and "map_of (w_timers w) i = Some t"
    and "status_at (w_members w) t = Some old"
  shows "\<exists>w'. worker_step (Expire i now) w = Some w' \<and>
    map_of (w_suspect w') t = None \<and> map_of (w_timers w') i = None \<and>
    (\<forall>n. n \<noteq> t \<longrightarrow> map_of (w_suspect w') n = map_of (w_suspect w) n) \<and>
    status_at (w_members w') t = Some (if old = ONLINE then SUSPECT else OFFLINE)"
proof -
  have inv: "worker_inv w" using assms(1) by (rule worker_reachable_inv)
  obtain w' where w': "suspect_expire i now w = Some w'"
    using assms(2) by (simp add: suspect_expire_def)
  have f: "w_members w' = snd (members_update now t (Some OFFLINE) None (w_members w))"
    "w_suspect w' = AList.delete t (w_suspect w)" "w_timers w' = AList.delete i (w_timers w)"
    using suspect_expire_inv(2) [OF inv w'] assms(2) by auto
  have "status_at (w_members w') t = Some (status_after old (Some OFFLINE))"
    using update_status_at [OF worker_invD(6) [OF inv] assms(3), of OFFLINE now] f(1) by simp
  with w' f show ?thesis by (simp add: worker_step_def delete_conv' status_after_def)
qed

text \<open>A worker that was told by \<open>a\<close> that it is online, and by \<open>b\<close> that \<open>a\<close> is suspect.\<close>

definition demo_suspect_events :: "worker_event list" where
  "demo_suspect_events =
     [Receive (Gossip \<lparr>src_name = ''a'', src_validity = []\<rparr> ''a'' 1 ONLINE None), Handle (\<lambda>_. []) 1,
      Receive (Gossip \<lparr>src_name = ''b'', src_validity = []\<rparr> ''a'' 2 SUSPECT None), Handle (\<lambda>_. []) 1]"

lemma demo_suspect_run:
  "map_option (\<lambda>w. (map_of (w_timers w) 0, status_at (w_members w) ''a''))
     (worker_steps demo_suspect_events (demo_worker [''a''])) =
   Some (Some ''a'', Some SUSPECT)"
  by code_simp

theorem suspicion_expires_witness:
  "\<exists>w'. worker_step (Expire 0 5) (the (worker_steps demo_suspect_events (demo_worker [''a'']))) = Some w' \<and>
    status_at (w_members w') ''a'' = Some OFFLINE \<and> map_of (w_suspect w') ''a'' = None"
proof -
  let ?w = "the (worker_steps demo_suspect_events (demo_worker [''a'']))"
  have ok: "\<forall>ev \<in> set demo_suspect_events. event_ok ev" by (simp add: demo_suspect_events_def)
  have r: "worker_reachable ?w" by (rule demo_run(1) [OF demo_suspect_run ok])
  have t: "map_of (w_timers ?w) 0 = Some ''a''" "status_at (w_members ?w) ''a'' = Some SUSPECT"
    using demo_run(2) [OF demo_suspect_run ok] by simp_all
  from suspicion_expires [OF r t, of 5] show ?thesis by auto
qed

lemma gossip_turn:
  fixes rnd :: "string \<Rightarrow> bytes" and now :: int
  assumes "worker_reachable w" and "loop_runs Handler w" and "w_recv_queue w = Gossip src n c st md # q"
  defines "ms \<equiv> members_get (rnd (src_name src)) now (src_name src) (Some (src_validity src)) (w_members w)"
  shows "\<exists>w'. handler_turn rnd now w = Some w' \<and> worker_reachable w' \<and>
    settable (Some st) \<and> store_inv ms \<and> ms_local ms = ms_local (w_members w) \<and>
    w_members w' = snd (members_apply now n (src_name src) c st md (members_get (rnd n) now n None ms)) \<and>
    (map_of (w_suspect w') n =
      (if st = SUSPECT then Some (case map_of (w_suspect w) n of None \<Rightarrow> w_next w | Some i \<Rightarrow> i) else None))"
proof -
  have inv: "worker_inv w" using assms(1) by (rule worker_reachable_inv)
  have set: "settable (Some st)" using worker_invD(5) [OF inv, of "Gossip src n c st md"] assms(3) by simp
  let ?w = "w\<lparr>w_recv_queue := q\<rparr>"
  let ?g = "greeted rnd now src ?w"
  have st: "store_inv (w_members w)" using inv by (rule worker_invD)
  let ?w' = "gossiped rnd now (src_name src) n c st md ?g"
  have turn: "handler_turn rnd now w = Some ?w'"
    using assms(2,3) st set by (simp add: handler_turn_run handle_Gossip loop_fails_def)
  then have "worker_reachable ?w'"
    using worker_run [OF assms(1), of "Handle rnd now" ?w'] by (simp add: worker_step_def)
  moreover have "timers_inv ?g"
    using worker_invD(2) [OF inv] by (rule timers_inv_cong) simp_all
  note status_handled_timers(2) [OF this, of n st]
  moreover have "w_suspect ?w' = w_suspect (status_handled n st ?g)"
    by (simp add: gossiped_def Let_def)
  moreover have "w_members ?w' =
      snd (members_apply now n (src_name src) c st md (members_get (rnd n) now n None ms))"
    by (simp add: gossiped_def Let_def ms_def)
  ultimately show ?thesis
    using turn set st by (simp add: ms_def store.lookup_invar store.lookup_local cong: option.case_cong)
qed



text \<open>
  C39: The local member is not exempt from the timers. A gossip that calls the local member suspect
  does not change its status, whatever its clock, but starts a timer for it, and when that timer
  expires the process declares itself suspect, although the local member is documented to be always
  online.
\<close>

theorem local_member_suspects_itself:
  assumes "worker_reachable w" and "loop_runs Handler w"
    and "w_recv_queue w = Gossip src (ms_local (w_members w)) c SUSPECT md # q"
    and "status_at (w_members w) (ms_local (w_members w)) = Some ONLINE"
  shows "\<exists>w1 w2 i. handler_turn rnd now w = Some w1 \<and>
    status_at (w_members w1) (ms_local (w_members w)) = Some ONLINE \<and>
    worker_step (Expire i now') w1 = Some w2 \<and>
    status_at (w_members w2) (ms_local (w_members w)) = Some SUSPECT"
proof -
  let ?s = "src_name src" and ?l = "ms_local (w_members w)"
  let ?ms = "members_get (rnd ?s) now ?s (Some (src_validity src)) (w_members w)"
  let ?ms2 = "members_get (rnd ?l) now ?l None ?ms"
  obtain w1 i where w1: "handler_turn rnd now w = Some w1" "worker_reachable w1" "store_inv ?ms"
    "ms_local ?ms = ?l" "w_members w1 = snd (members_apply now ?l ?s c SUSPECT md ?ms2)"
    "map_of (w_suspect w1) ?l = Some i"
    using gossip_turn [OF assms(1-3), of rnd now] by auto
  have inv: "members_inv ?ms2" and l: "ms_local ?ms2 = ?l"
    using w1(3,4) by (simp_all add: store_inv_def members_get_inv store.lookup_local)
  obtain m where m: "map_of (ms_members (w_members w)) ?l = Some m" "m_status m = ONLINE"
    using assms(4) by (auto simp: status_at_def)
  obtain m2 where m2: "map_of (ms_members ?ms2) ?l = Some m2" "m_status m2 = ONLINE"
    using m by (cases "?s = ?l") (auto simp: members_get_lookup check_validity_def)
  have "status_at (snd (members_apply now ?l ?s c SUSPECT md ?ms2)) ?l = Some ONLINE"
    using apply_local [OF inv _ settable_simps(4), of m2 now ?s c md] m2 l
    by (auto simp: status_at_def)
  then have on: "status_at (w_members w1) ?l = Some ONLINE" by (simp add: w1(5))
  have "map_of (w_timers w1) i = Some ?l"
    using worker_invD(2) [OF worker_reachable_inv [OF w1(2)]] w1(6) by (simp add: timers_inv_def)
  then obtain w2 where w2: "suspect_expire i now' w1 = Some w2"
    by (simp add: suspect_expire_def)
  have "w_members w2 = snd (members_update now' ?l (Some OFFLINE) None (w_members w1))"
    using suspect_expire_inv(2) [OF worker_reachable_inv [OF w1(2)] w2] \<open>map_of (w_timers w1) i = Some ?l\<close>
    by auto
  then have "status_at (w_members w2) ?l = Some SUSPECT"
    using update_status_at [OF worker_invD(6) [OF worker_reachable_inv [OF w1(2)]] on, of OFFLINE now']
    by (simp add: status_after_def)
  with w1(1) on w2 show ?thesis by (auto simp: worker_step_def)
qed

theorem local_member_suspects_itself_witness:
  "\<exists>w1 w2 i. handler_turn (\<lambda>_. []) 5
      (demo_received [''a''] (Gossip \<lparr>src_name = ''a'', src_validity = []\<rparr> ''me'' 0 SUSPECT None)) = Some w1 \<and>
    worker_step (Expire i 9) w1 = Some w2 \<and> status_at (w_members w2) ''me'' = Some SUSPECT"
proof -
  let ?p = "Gossip \<lparr>src_name = ''a'', src_validity = []\<rparr> ''me'' 0 SUSPECT None"
  let ?w = "demo_received [''a''] ?p"
  have l: "ms_local (w_members ?w) = ''me''" by (simp add: demo_received_def demo_fields)
  have w: "loop_runs Handler ?w" "w_recv_queue ?w = [?p]"
    "status_at (w_members ?w) ''me'' = Some ONLINE"
    by (simp_all add: demo_received_def loop_runs_def demo_fields status_at_def)
  have "worker_reachable ?w" by (rule demo_received_reachable) simp
  from local_member_suspects_itself [OF this, unfolded l, OF w, of "\<lambda>_. []" 5 9] show ?thesis by blast
qed

end
