(* ===== verification/Swim_Worker_Silent.thy ===== *)
theory Swim_Worker_Silent
  imports Swim_Worker_Check
begin

text \<open>
  The course of a failure check from its start to its end, through an arbitrary schedule of the
  other tasks, when no packet of the target is handled meanwhile.
\<close>

subsection \<open>The tasks of a worker\<close>

text \<open>A step runs at most the task that it resumes, and new tasks have new numbers.\<close>

definition others_kept :: "nat \<Rightarrow> worker \<Rightarrow> worker \<Rightarrow> bool" where
  "others_kept i w w' \<longleftrightarrow>
     next_task (w_owner w) \<le> next_task (w_owner w') \<and> w_ping_req_count w' = w_ping_req_count w \<and>
     (\<forall>j. j \<noteq> i \<and> j < next_task (w_owner w) \<longrightarrow>
        map_of (running (w_owner w')) j = map_of (running (w_owner w)) j)"

lemma others_kept_same:
  "w_owner w' = w_owner w \<Longrightarrow> w_ping_req_count w' = w_ping_req_count w \<Longrightarrow> others_kept i w w'"
  by (simp add: others_kept_def)

lemma task_owner_next [simp]:
  "next_task (task_suspend i c t) = next_task t" "next_task (task_done i t) = next_task t"
  by (simp_all add: task_suspend_def task_done_def)

lemma count_fields [simp]:
  "w_ping_req_count (suspend_at i s w) = w_ping_req_count w"
  "w_ping_req_count (finish i w) = w_ping_req_count w"
  "w_ping_req_count (spawn s w) = w_ping_req_count w"
  "w_ping_req_count (concluded t st now w) = w_ping_req_count w"
  "w_ping_req_count (reply t p w) = w_ping_req_count w"
  "w_ping_req_count (wait_begin i t f w) = w_ping_req_count w"
  "w_ping_req_count (loop_fails l r) = w_ping_req_count (snd r)"
  by (auto simp: suspend_at_def finish_def spawn_def concluded_def reply_def wait_begin_run
      loop_fails_def split: prod.split sum.split)

lemma owner_fields [simp]:
  "w_owner (suspend_at i s w) = task_suspend i s (w_owner w)"
  "w_owner (finish i w) = task_done i (w_owner w)"
  "w_owner (wait_begin i t f w) = task_suspend i (f (w_next w)) (w_owner w)"
  by (simp_all add: suspend_at_def finish_def wait_begin_run)

lemma spawn_others: "others_kept i w (fold (\<lambda>t. spawn (s t)) ts w)"
proof (induction ts arbitrary: w)
  case Nil
  then show ?case by (simp add: others_kept_def)
next
  case (Cons t ts)
  have "others_kept i w (spawn (s t) w)"
    by (simp add: others_kept_def) (simp add: spawn_def run_subtask_def Let_def update_conv')
  with Cons.IH [of "spawn (s t) w"] show ?case by (auto simp: others_kept_def)
qed

lemma subtask_turn_others:
  assumes inv: "worker_inv w" and "subtask_turn i draws now w = Some w'"
  shows "others_kept i w w'"
proof -
  obtain s where s: "map_of (running (w_owner w)) i = Some s"
    using assms(2) by (cases "map_of (running (w_owner w)) i") (simp_all add: subtask_turn_def)
  show ?thesis
  proof (cases s)
    case (Check_start t)
    with s assms show ?thesis
      by (auto simp: subtask_turn_def check_begin_def Let_def send_from_local [OF inv] others_kept_def)
  next
    case (Check_ping t e)
    obtain online w1 where we: "wait_end t e w = (online, w1)" by (cases "wait_end t e w")
    then have "w1 = snd (wait_end t e w)" by simp
    then have "w_owner w1 = w_owner w" "w_ping_req_count w1 = w_ping_req_count w" by simp_all
    with Check_ping s assms we show ?thesis
      by (auto simp: subtask_turn_def check_pinged_def check_finish_run others_kept_def
          split: bool.splits option.splits sum.splits if_splits)
  next
    case (Check_sending t ns)
    with s assms show ?thesis
      using send_from_local [OF inv, of _ "\<lambda>src. PingReq src t"]
      by (auto simp: subtask_turn_def check_send_def Let_def others_kept_def split: list.splits)
  next
    case (Check_ping_req t e)
    obtain online w1 where we: "wait_end t e w = (online, w1)" by (cases "wait_end t e w")
    then have "w1 = snd (wait_end t e w)" by simp
    then have "w_owner w1 = w_owner w" "w_ping_req_count w1 = w_ping_req_count w" by simp_all
    with Check_ping_req s assms we show ?thesis
      by (auto simp: subtask_turn_def check_requested_def check_finish_run others_kept_def)
  next
    case (Disseminate_start t)
    with s assms show ?thesis
      by (auto simp: subtask_turn_def disseminate_run [OF worker_invD(6) [OF inv]] others_kept_def)
  qed
qed

lemma handle_count:
  assumes "worker_inv w" and "packet_ok p"
  shows "w_ping_req_count (snd (handle_packet rnd now p w)) = w_ping_req_count w"
  using assms worker_invD(6) [OF assms(1)]
  by (cases p) (simp_all add: handle_runs Let_def reply_def relayed_def gossiped_def)

lemma worker_step_others:
  assumes inv: "worker_inv w" and run: "worker_step ev w = Some w'"
  shows "others_kept (case ev of Resume i draws now \<Rightarrow> i | _ \<Rightarrow> next_task (w_owner w)) w w'"
proof (cases ev)
  case (Handle rnd now)
  then obtain p q where q: "w_recv_queue w = p # q"
    and w': "w' = loop_fails Handler (handle_packet rnd now p (w\<lparr>w_recv_queue := q\<rparr>))"
    using run by (auto simp: worker_step_def handler_turn_def split: if_splits list.splits)
  have "packet_ok p" using worker_invD(5) [OF inv] q by simp
  note f = handle_fields(1) [OF worker_inv_queues(2) [OF inv q] this]
    handle_count [OF worker_inv_queues(2) [OF inv q] this]
  show ?thesis by (rule others_kept_same) (simp_all add: w' f)
next
  case (Detect draws)
  then have d: "detection_turn draws w = Some w'" using run by (simp add: worker_step_def)
  then show ?thesis
    using Detect spawn_others [of "next_task (w_owner w)" w Check_start]
    by (auto simp: detection_turn_def py_seq_def py_bind_def others_kept_def
        split: if_splits option.splits sum.splits)
next
  case (Gossip_round draws)
  then have d: "dissemination_turn draws w = Some w'" using run by (simp add: worker_step_def)
  then show ?thesis
    using Gossip_round spawn_others [of "next_task (w_owner w)" w Disseminate_start]
    by (auto simp: dissemination_turn_def others_kept_def split: if_splits option.splits sum.splits)
next
  case (Resume i draws now)
  with run subtask_turn_others [OF inv, of i draws now w'] show ?thesis
    by (simp add: worker_step_def)
next
  case (Expire i now)
  with run show ?thesis
    by (auto simp: worker_step_def suspect_expire_def py_seq_def py_bind_def with_members_run
        split: option.splits sum.splits intro!: others_kept_same)
qed (use run in \<open>auto simp: worker_step_def with_members_run split: list.splits intro!: others_kept_same\<close>)

subsection \<open>The stages of a check\<close>

definition turns_left :: "int \<Rightarrow> subtask \<Rightarrow> nat" where
  "turns_left count s = (case s of
     Check_start t \<Rightarrow> nat count + 4
   | Check_ping t e \<Rightarrow> nat count + 3
   | Check_sending t ns \<Rightarrow> length ns + 2
   | Check_ping_req t e \<Rightarrow> 1
   | Disseminate_start t \<Rightarrow> 1)"

text \<open>The task \<open>i\<close> is a check of \<open>t\<close> that has not heard of its target.\<close>

definition silent_check :: "nat \<Rightarrow> string \<Rightarrow> subtask \<Rightarrow> worker \<Rightarrow> bool" where
  "silent_check i t s w \<longleftrightarrow> map_of (running (w_owner w)) i = Some s \<and>
     (case s of
        Check_start u \<Rightarrow> u = t
      | Check_ping u e \<Rightarrow> u = t \<and> \<not> flag_set t e w
      | Check_sending u ns \<Rightarrow> u = t
      | Check_ping_req u e \<Rightarrow> u = t \<and> \<not> flag_set t e w
      | Disseminate_start u \<Rightarrow> False)"

text \<open>The check is over, and its target is suspect, or still offline.\<close>

definition given_up :: "nat \<Rightarrow> string \<Rightarrow> worker \<Rightarrow> worker \<Rightarrow> bool" where
  "given_up i t w w' \<longleftrightarrow> map_of (running (w_owner w')) i = None \<and>
     map_of (w_suspect w') t \<noteq> None \<and>
     status_at (w_members w') t =
       (if status_at (w_members w) t = Some OFFLINE then Some OFFLINE else Some SUSPECT)"

lemma task_fresh:
  "worker_inv w \<Longrightarrow> map_of (running (w_owner w)) i = Some s \<Longrightarrow> i < next_task (w_owner w)"
  using worker_invD(4) [of w] by (force simp: owner_inv_def dest: map_of_SomeD)

lemma silent_other:
  assumes inv: "worker_inv w" and s: "silent_check i t s w" and "\<not> resumes i ev"
    and "\<not> hears t ev w" and run: "worker_step ev w = Some w'"
  shows "silent_check i t s w'"
proof -
  have at: "map_of (running (w_owner w)) i = Some s" using s by (simp add: silent_check_def)
  then have "i < next_task (w_owner w)" by (rule task_fresh [OF inv])
  then have at': "map_of (running (w_owner w')) i = Some s"
    using worker_step_others [OF inv run] at assms(3)
    by (auto simp: others_kept_def resumes_def split: worker_event.splits)
  have "flag_set t e w' = flag_set t e w" if "s = Check_ping t e \<or> s = Check_ping_req t e" for e
  proof -
    have "waits_of w i = Some (t, e)" using at that by (auto simp: waits_of_def)
    with worker_step_wait [OF inv this assms(3) run] assms(4) show ?thesis by simp
  qed
  with s at' show ?thesis by (auto simp: silent_check_def split: subtask.splits)
qed

lemma check_silent:
  assumes "\<not> flag_set t e w"
  defines "v \<equiv> snd (wait_end t e w)"
  shows "check_pinged i t e draws now w =
      (case members_find draws (w_ping_req_count w) AVAILABLE [t] (w_members w) of
         None \<Rightarrow> None
       | Some (Inl err) \<Rightarrow> Some (finish i v)
       | Some (Inr ns) \<Rightarrow>
           Some (if ns = [] then check_finish i t False now v else suspend_at i (Check_sending t ns) v))"
    and "check_requested i t e now w = check_finish i t False now v"
proof -
  have "wait_end t e w = (False, v)" using assms by (simp add: wait_end_def flag_set_def)
  moreover have "w_ping_req_count v = w_ping_req_count w" "w_members v = w_members w"
    by (simp_all add: v_def)
  ultimately show "check_pinged i t e draws now w =
      (case members_find draws (w_ping_req_count w) AVAILABLE [t] (w_members w) of
         None \<Rightarrow> None
       | Some (Inl err) \<Rightarrow> Some (finish i v)
       | Some (Inr ns) \<Rightarrow>
           Some (if ns = [] then check_finish i t False now v else suspend_at i (Check_sending t ns) v))"
    and "check_requested i t e now w = check_finish i t False now v"
    by (simp_all add: check_pinged_def check_requested_def)
qed

lemma check_gives_up:
  assumes inv: "worker_inv w" and w: "waits_of w i = Some (t, e)"
  shows "given_up i t w (check_finish i t False now (snd (wait_end t e w)))"
proof -
  let ?v = "finish i (snd (wait_end t e w))"
  have fi: "worker_inv ?v" using inv w by (rule wait_end_inv)
  obtain old where old: "status_at (w_members ?v) t = Some old" "status_at (w_members w) t = Some old"
    using known_status [OF wait_target_known [OF inv w]] by auto
  from concluded_outcome [OF fi old(1), of SUSPECT now] old(2) show ?thesis
    by (simp add: given_up_def check_finish_run status_after_def)
qed

lemma wait_begin_silent:
  assumes inv: "worker_inv w" and v: "w_waiting v = w_waiting w" "w_next v = w_next w"
  shows "\<not> flag_set t (w_next w) (wait_begin i t f v)"
proof -
  have "(w_next w, True) \<notin> set (events_at t w)"
    using event_invD(2) [OF worker_invD(3) [OF inv], of "w_next w" t] by (force simp: event_ids_def)
  moreover have "events_at t v = events_at t w" using v(1) by (rule events_at_cong)
  ultimately show ?thesis by (simp add: flag_set_def wait_begin_events)
qed

lemma silent_resume:
  assumes inv: "worker_inv w" and s: "silent_check i t s w"
    and run: "subtask_turn i draws now w = Some w'"
  shows "given_up i t w w' \<or>
    (\<exists>s'. silent_check i t s' w' \<and> turns_left (w_ping_req_count w) s' < turns_left (w_ping_req_count w) s)"
proof (cases s)
  case (Check_start u)
  let ?v = "reply t (Ping (source_at (w_members w) (ms_local (w_members w)))) w"
  have "w' = wait_begin i t (Check_ping t) ?v"
    using Check_start s run
    by (simp add: silent_check_def subtask_turn_def check_begin_def Let_def send_from_local [OF inv])
  with Check_start wait_begin_silent [OF inv, of ?v t i "Check_ping t"] show ?thesis
    by (simp add: silent_check_def turns_left_def)
next
  case (Check_ping u e)
  then have u: "u = t" and at: "map_of (running (w_owner w)) i = Some (Check_ping t e)"
    and flag: "\<not> flag_set t e w" using s by (simp_all add: silent_check_def)
  have w: "waits_of w i = Some (t, e)" using at by (simp add: waits_of_def)
  let ?v = "snd (wait_end t e w)" and ?k = "w_ping_req_count w"
  have pinged: "check_pinged i t e draws now w = Some w'" using run at by (simp add: subtask_turn_def)
  then obtain r where r: "members_find draws ?k AVAILABLE [t] (w_members w) = Some r"
    by (auto simp: check_silent [OF flag] split: option.splits)
  obtain ns where ns: "r = Inr ns"
    and len: "int (length ns) = max 0 (find_bound ?k (shuffle_at AVAILABLE (w_members w)) [t])"
    by (rule find_known [OF worker_invD(6) [OF inv] _ r]) (simp add: all_statuses_def)
  have few: "length ns \<le> nat ?k"
    using len find_bound_le(1) [of ?k "shuffle_at AVAILABLE (w_members w)" "[t]"] by linarith
  have w': "w' = (if ns = [] then check_finish i t False now ?v
      else suspend_at i (Check_sending t ns) ?v)"
    using pinged r ns by (simp add: check_silent [OF flag])
  show ?thesis
  proof (cases "ns = []")
    case True
    with w' check_gives_up [OF inv w] show ?thesis by simp
  next
    case False
    with w' few Check_ping show ?thesis by (simp add: silent_check_def turns_left_def)
  qed
next
  case (Check_sending u ns)
  then have at: "map_of (running (w_owner w)) i = Some (Check_sending t ns)"
    using s by (simp add: silent_check_def)
  show ?thesis
  proof (cases ns)
    case Nil
    then have "w' = wait_begin i t (Check_ping_req t) w"
      using run at by (simp add: subtask_turn_def check_send_def)
    with Check_sending wait_begin_silent [OF inv, of w t i "Check_ping_req t"] show ?thesis
      by (simp add: silent_check_def turns_left_def)
  next
    case (Cons n rest)
    then have "w' = suspend_at i (Check_sending t rest)
        (reply n (PingReq (source_at (w_members w) (ms_local (w_members w))) t) w)"
      using run at send_from_local [OF inv, of n "\<lambda>src. PingReq src t"]
      by (simp add: subtask_turn_def check_send_def Let_def)
    with Check_sending Cons show ?thesis by (simp add: silent_check_def turns_left_def)
  qed
next
  case (Check_ping_req u e)
  then have at: "map_of (running (w_owner w)) i = Some (Check_ping_req t e)"
    and flag: "\<not> flag_set t e w" using s by (simp_all add: silent_check_def)
  have w: "waits_of w i = Some (t, e)" using at by (simp add: waits_of_def)
  have "w' = check_finish i t False now (snd (wait_end t e w))"
    using run at by (simp add: subtask_turn_def check_silent [OF flag])
  with check_gives_up [OF inv w] show ?thesis by simp
next
  case (Disseminate_start u)
  with s show ?thesis by (simp add: silent_check_def)
qed

text \<open>The only turn that may not return is the one that searches for the indirect members.\<close>

lemma silent_turn_returns:
  assumes "silent_check i t s w" and "subtask_turn i draws now w = None"
  shows "(\<exists>e. s = Check_ping t e) \<and>
    members_find draws (w_ping_req_count w) AVAILABLE [t] (w_members w) = None"
proof (cases s)
  case (Check_ping u e)
  then have u: "u = t" and flag: "\<not> flag_set t e w"
    and at: "map_of (running (w_owner w)) i = Some (Check_ping t e)"
    using assms(1) by (simp_all add: silent_check_def)
  have "check_pinged i t e draws now w = None" using assms(2) at by (simp add: subtask_turn_def)
  with Check_ping u show ?thesis by (auto simp: check_silent [OF flag] split: option.splits sum.splits)
qed (use assms in \<open>auto simp: silent_check_def subtask_turn_def\<close>)

lemma gone_stays:
  assumes "worker_inv w" and "\<forall>ev \<in> set evs. event_ok ev" and "worker_steps evs w = Some w'"
    and "map_of (running (w_owner w)) i = None" and "i < next_task (w_owner w)"
  shows "map_of (running (w_owner w')) i = None"
  using assms
proof (induction evs arbitrary: w)
  case (Cons ev evs)
  obtain v where v: "worker_step ev w = Some v" "worker_steps evs v = Some w'"
    using Cons.prems(3) by (auto split: option.splits)
  note kept = worker_step_others [OF Cons.prems(1) v(1)]
  have "\<not> resumes i ev"
    using v(1) Cons.prems(4)
    by (auto simp: worker_step_def subtask_turn_def resumes_def split: worker_event.splits)
  then have "map_of (running (w_owner v)) i = None"
    using kept Cons.prems(4,5) by (auto simp: others_kept_def resumes_def split: worker_event.splits)
  moreover have "i < next_task (w_owner v)" using kept Cons.prems(5) by (simp add: others_kept_def)
  moreover have "worker_inv v" using Cons.prems(1,2) v(1) by (auto intro: worker_step_inv)
  ultimately show ?case using Cons.IH Cons.prems(2) v(2) by simp
qed simp

lemma silent_steps:
  assumes "worker_inv w" and "silent_check i t s w" and "\<forall>ev \<in> set evs. event_ok ev"
    and "worker_steps evs w = Some w'" and "\<not> heard_during t evs w"
    and "map_of (running (w_owner w')) i \<noteq> None"
  shows "worker_inv w' \<and> w_ping_req_count w' = w_ping_req_count w \<and>
    (\<exists>s'. silent_check i t s' w' \<and>
       length (filter (resumes i) evs) + turns_left (w_ping_req_count w) s' \<le>
       turns_left (w_ping_req_count w) s)"
  using assms
proof (induction evs arbitrary: w s)
  case Nil
  then show ?case by auto
next
  case (Cons ev evs)
  obtain v where v: "worker_step ev w = Some v" "worker_steps evs v = Some w'"
    using Cons.prems(4) by (auto split: option.splits)
  have inv: "worker_inv v" using Cons.prems(1,3) v(1) by (auto intro: worker_step_inv)
  have quiet: "\<not> hears t ev w" "\<not> heard_during t evs v" using Cons.prems(5) v(1) by auto
  note kept = worker_step_others [OF Cons.prems(1) v(1)]
  have count: "w_ping_req_count v = w_ping_req_count w" using kept by (simp add: others_kept_def)
  let ?left = "turns_left (w_ping_req_count w)"
  have "\<exists>s1. silent_check i t s1 v \<and> ?left s1 + (if resumes i ev then 1 else 0) \<le> ?left s"
  proof (cases "resumes i ev")
    case False
    with silent_other [OF Cons.prems(1,2) False quiet(1) v(1)] show ?thesis by auto
  next
    case True
    then obtain draws now where run: "subtask_turn i draws now w = Some v"
      using v(1) by (auto simp: resumes_def worker_step_def split: worker_event.splits)
    have at: "map_of (running (w_owner w)) i = Some s" using Cons.prems(2) by (simp add: silent_check_def)
    have "i < next_task (w_owner v)"
      using kept task_fresh [OF Cons.prems(1) at] by (simp add: others_kept_def)
    then have "\<not> given_up i t w v"
      using gone_stays [OF inv _ v(2)] Cons.prems(3,6) by (auto simp: given_up_def)
    then obtain s1 where "silent_check i t s1 v" "?left s1 < ?left s"
      using silent_resume [OF Cons.prems(1,2) run] by blast
    with True show ?thesis by (intro exI [of _ s1]) simp
  qed
  then obtain s1 where s1: "silent_check i t s1 v" "?left s1 + (if resumes i ev then 1 else 0) \<le> ?left s"
    by blast
  from Cons.IH [OF inv s1(1) _ v(2) quiet(2) Cons.prems(6)] Cons.prems(3) obtain s' where
    "worker_inv w'" "w_ping_req_count w' = w_ping_req_count v" "silent_check i t s' w'"
    "length (filter (resumes i) evs) + ?left s' \<le> ?left s1"
    by (auto simp: count)
  with s1(2) count show ?case by (intro conjI exI [of _ s']) auto
qed

subsection \<open>The verdict on a silent target\<close>

text \<open>
  C11: A check gives up on a silent target. Follow a check from its start, through any schedule of
  the other tasks in which no packet of the target is handled. As long as it runs it has had at
  most three turns and one for every ping-req it may send; its next turn leaves it running, or it
  ends with the target suspect (still offline, if it was offline) and a suspicion timer
  running for it. The only turn that may not return is the one after the first wait, and only
  because the search for the members to ask does not.
\<close>

theorem check_suspects_silent:
  assumes "worker_reachable w" and "map_of (running (w_owner w)) i = Some (Check_start t)"
    and "\<forall>ev \<in> set evs. event_ok ev" and "worker_steps evs w = Some w1" and "\<not> heard_during t evs w"
    and "map_of (running (w_owner w1)) i \<noteq> None"
  shows "length (filter (resumes i) evs) \<le> nat (w_ping_req_count w) + 3 \<and>
    (case worker_step (Resume i draws now) w1 of
       Some w2 \<Rightarrow>
         map_of (running (w_owner w2)) i \<noteq> None \<or>
         map_of (w_suspect w2) t \<noteq> None \<and>
         status_at (w_members w2) t =
           (if status_at (w_members w1) t = Some OFFLINE then Some OFFLINE else Some SUSPECT)
     | None \<Rightarrow>
         (\<exists>e. map_of (running (w_owner w1)) i = Some (Check_ping t e)) \<and>
         members_find draws (w_ping_req_count w) AVAILABLE [t] (w_members w1) = None)"
proof -
  let ?left = "turns_left (w_ping_req_count w)"
  have "silent_check i t (Check_start t) w" using assms(2) by (simp add: silent_check_def)
  from silent_steps [OF worker_reachable_inv [OF assms(1)] this assms(3-6)] obtain s
    where inv: "worker_inv w1" and count: "w_ping_req_count w1 = w_ping_req_count w"
      and s: "silent_check i t s w1"
      and left: "length (filter (resumes i) evs) + ?left s \<le> ?left (Check_start t)"
    by blast
  have "0 < ?left s" by (cases s) (simp_all add: turns_left_def)
  with left have "length (filter (resumes i) evs) \<le> nat (w_ping_req_count w) + 3"
    by (simp add: turns_left_def)
  moreover have at: "map_of (running (w_owner w1)) i = Some s" using s by (simp add: silent_check_def)
  ultimately show ?thesis
    using silent_resume [OF inv s, of draws now] silent_turn_returns [OF s, of draws now] count
    by (cases "subtask_turn i draws now w1")
      (auto simp: worker_step_def given_up_def silent_check_def)
qed

text \<open>The check of the only peer, which has come online; there is nobody else to ask.\<close>

definition demo_check_events :: "worker_event list" where
  "demo_check_events =
     [Receive (Gossip \<lparr>src_name = ''a'', src_validity = []\<rparr> ''a'' 1 ONLINE None), Handle (\<lambda>_. []) 1,
      Detect [0]]"

definition demo_check :: worker where
  "demo_check = the (worker_steps demo_check_events (demo_worker [''a'']))"

lemma demo_check_run:
  "map_option (\<lambda>w. (map_of (running (w_owner w)) 0, heard_during ''a'' [Resume 0 [] 1] w,
       map_option (\<lambda>w1. (map_of (running (w_owner w1)) 0 \<noteq> None, status_at (w_members w1) ''a'',
           map_option (\<lambda>w2. map_of (running (w_owner w2)) 0 \<noteq> None) (worker_step (Resume 0 [] 2) w1)))
         (worker_steps [Resume 0 [] 1] w)))
     (worker_steps demo_check_events (demo_worker [''a''])) =
   Some (Some (Check_start ''a''), False, Some (True, Some ONLINE, Some False))"
  by code_simp

theorem check_suspects_silent_witness:
  "\<exists>w1 w2. worker_steps [Resume 0 [] 1] demo_check = Some w1 \<and>
    worker_step (Resume 0 [] 2) w1 = Some w2 \<and>
    status_at (w_members w2) ''a'' = Some SUSPECT \<and> map_of (w_suspect w2) ''a'' \<noteq> None"
proof -
  have ok: "\<forall>ev \<in> set demo_check_events. event_ok ev" by (simp add: demo_check_events_def)
  have r: "worker_reachable demo_check"
    unfolding demo_check_def by (rule demo_run(1) [OF demo_check_run ok])
  obtain w1 w2 where w: "map_of (running (w_owner demo_check)) 0 = Some (Check_start ''a'')"
    "\<not> heard_during ''a'' [Resume 0 [] 1] demo_check"
    and w1: "worker_steps [Resume 0 [] 1] demo_check = Some w1"
    "map_of (running (w_owner w1)) 0 \<noteq> None" "status_at (w_members w1) ''a'' = Some ONLINE"
    and w2: "worker_step (Resume 0 [] 2) w1 = Some w2" "map_of (running (w_owner w2)) 0 = None"
    using demo_run(2) [OF demo_check_run ok] unfolding demo_check_def [symmetric] by auto
  from check_suspects_silent [OF r w(1) _ w1(1) w(2) w1(2), of "[]" 2] w1 w2 show ?thesis by auto
qed

end
