(* ===== verification/Swim_Worker_Relay.thy ===== *)
theory Swim_Worker_Relay
  imports Swim_Worker_Silent Swim_Worker_Table
begin

text \<open>
  What the worker does for others: the relay of a ping-req, followed from the request to the
  answer through an arbitrary schedule.
\<close>

subsection \<open>The members that wait for a target\<close>

definition listens :: "string \<Rightarrow> string \<Rightarrow> worker \<Rightarrow> bool" where
  "listens a t w \<longleftrightarrow> a \<in> set (listeners_of t w)"

lemma listens_cong: "w_listening w' = w_listening w \<Longrightarrow> listens a t w' = listens a t w"
  by (simp add: listens_def listeners_of_def)

text \<open>A packet from another member adds listeners at most; it answers those of its source.\<close>

lemma handle_listens:
  assumes "worker_inv w" and "packet_ok p" and "listens a t w" and "src_name (packet_source p) \<noteq> t"
  shows "listens a t (snd (handle_packet rnd now p w))"
  using assms worker_invD(6) [OF assms(1)]
  by (cases p; simp add: handle_runs Let_def reply_def relayed_def gossiped_def)
    (auto simp: listens_def listeners_of_def delete_conv' update_conv' split: if_splits option.splits)

lemma handle_acks:
  assumes "worker_inv w" and "packet_ok p" and "src_name (packet_source p) \<noteq> ms_local (w_members w)"
    and "listens a (src_name (packet_source p)) w"
  shows "(a, Ack (packet_source p)) \<in> set (w_send_queue (snd (handle_packet rnd now p w)))"
proof -
  have "members_inv (w_members w)" using worker_invD(6) [OF assms(1)] by (simp add: store_inv_def)
  then have "(a, Ack (packet_source p)) \<in> set (w_send_queue (greeted rnd now (packet_source p) w))"
    using greeted_send_queue [of w "packet_source p" rnd now] assms(3,4) by (auto simp: listens_def)
  then show ?thesis
    using assms(1,2) worker_invD(6) [OF assms(1)]
    by (cases p; simp add: handle_runs Let_def reply_def relayed_def gossiped_def del: greeted_fields(1))
qed

lemma worker_step_listens:
  assumes inv: "worker_inv w" and l: "listens a t w" and "\<not> hears t ev w"
    and run: "worker_step ev w = Some w'"
  shows "listens a t w'"
proof (cases ev)
  case (Handle rnd now)
  then obtain p q where q: "w_recv_queue w = p # q" "loop_runs Handler w"
    and w': "w' = loop_fails Handler (handle_packet rnd now p (w\<lparr>w_recv_queue := q\<rparr>))"
    using run by (auto simp: worker_step_def handler_turn_def split: if_splits list.splits)
  have ok: "packet_ok p" using worker_invD(5) [OF inv] q(1) by simp
  have "src_name (packet_source p) \<noteq> t" using assms(3) Handle q by (auto simp: hears_def)
  moreover have "listens a t (w\<lparr>w_recv_queue := q\<rparr>)" using l listens_cong [of "w\<lparr>w_recv_queue := q\<rparr>" w] by simp
  ultimately have "listens a t (snd (handle_packet rnd now p (w\<lparr>w_recv_queue := q\<rparr>)))"
    by (intro handle_listens [OF worker_inv_queues(2) [OF inv q(1)] ok])
  then show ?thesis unfolding w' by (subst listens_cong [of "loop_fails _ _"]) simp_all
next
  case (Resume j draws now)
  then have "turned now w w'" using run by (intro subtask_turned [OF inv]) (simp add: worker_step_def)
  then have "w_listening w' = w_listening w" by (simp add: turned_def)
  with l show ?thesis using listens_cong by blast
next
  case (Detect draws)
  then have "w_listening w' = w_listening w"
    using run by (auto simp: worker_step_def detection_turn_def py_seq_def py_bind_def
        split: if_splits option.splits sum.splits)
  with l show ?thesis using listens_cong by blast
next
  case (Gossip_round draws)
  then have "w_listening w' = w_listening w"
    using run by (auto simp: worker_step_def dissemination_turn_def split: if_splits option.splits sum.splits)
  with l show ?thesis using listens_cong by blast
next
  case (Expire j now)
  then have "w_listening w' = w_listening w"
    using run by (auto simp: worker_step_def suspect_expire_def py_seq_def py_bind_def with_members_run
        split: option.splits sum.splits)
  with l show ?thesis using listens_cong by blast
next
  case (Receive p)
  then have "w_listening w' = w_listening w" using run by (auto simp: worker_step_def)
  with l show ?thesis using listens_cong by blast
next
  case Transmit
  then have "w_listening w' = w_listening w" using run by (auto simp: worker_step_def split: list.splits)
  with l show ?thesis using listens_cong by blast
next
  case (Set_metadata md now)
  then have "w_listening w' = w_listening w" using run by (auto simp: worker_step_def with_members_run)
  with l show ?thesis using listens_cong by blast
qed

lemma worker_steps_listens:
  assumes "worker_inv w" and "listens a t w" and "\<forall>ev \<in> set evs. event_ok ev"
    and "worker_steps evs w = Some w'" and "\<not> heard_during t evs w"
  shows "worker_inv w' \<and> listens a t w'"
  using assms
proof (induction evs arbitrary: w)
  case (Cons ev evs)
  obtain w1 where w1: "worker_step ev w = Some w1" "worker_steps evs w1 = Some w'"
    using Cons.prems(4) by (auto split: option.splits)
  have "\<not> hears t ev w" "\<not> heard_during t evs w1" using Cons.prems(5) w1(1) by auto
  moreover have "worker_inv w1" using Cons.prems(1,3) w1(1) by (auto intro: worker_step_inv)
  ultimately show ?case
    using worker_step_listens [OF Cons.prems(1,2) _ w1(1)] Cons.IH [of w1] Cons.prems(3) w1(2) by simp
qed simp

subsection \<open>The local member stays the same\<close>

lemma worker_step_local:
  assumes "worker_inv w" and "worker_step ev w = Some w'"
  shows "ms_local (w_members w') = ms_local (w_members w)"
  by (rule local_kept.step_good [OF assms refl]) (auto simp: local_kept.told_packet_def split: packet.split)

lemma worker_steps_local:
  "worker_inv w \<Longrightarrow> \<forall>ev \<in> set evs. event_ok ev \<Longrightarrow> worker_steps evs w = Some w' \<Longrightarrow>
     ms_local (w_members w') = ms_local (w_members w)"
proof (induction evs arbitrary: w)
  case (Cons ev evs)
  obtain w1 where w1: "worker_step ev w = Some w1" "worker_steps evs w1 = Some w'"
    using Cons.prems(3) by (auto split: option.splits)
  have "worker_inv w1" using Cons.prems(1,2) w1(1) by (auto intro: worker_step_inv)
  then show ?case
    using Cons.IH [of w1] worker_step_local [OF Cons.prems(1) w1(1)] Cons.prems(2) w1(2) by simp
qed simp

subsection \<open>Properties\<close>

text \<open>
  C13: A ping-req is relayed. When a ping-req of a member \<open>a\<close> for \<open>t\<close> is handled, \<open>t\<close> is pinged;
  and whatever happens until then, when the first packet of \<open>t\<close> after that is handled, \<open>a\<close> is sent
  an acknowledgement in the name and with the validity of \<open>t\<close>.
\<close>

theorem ping_req_relayed:
  assumes "worker_reachable w" and "loop_runs Handler w" and "w_recv_queue w = PingReq src t # q"
    and "t \<noteq> ms_local (w_members w)"
  shows "\<exists>w1. handler_turn rnd now w = Some w1 \<and>
    (t, Ping (source_at (w_members w) (ms_local (w_members w)))) \<in> set (w_send_queue w1) \<and>
    (\<forall>evs w2 p q2 rnd2 now2. (\<forall>ev \<in> set evs. event_ok ev) \<and> worker_steps evs w1 = Some w2 \<and>
       \<not> heard_during t evs w1 \<and> loop_runs Handler w2 \<and> w_recv_queue w2 = p # q2 \<and>
       src_name (packet_source p) = t \<longrightarrow>
       (\<exists>w3. handler_turn rnd2 now2 w2 = Some w3 \<and>
          (src_name src, Ack (packet_source p)) \<in> set (w_send_queue w3)))"
proof -
  have inv: "worker_inv w" using assms(1) by (rule worker_reachable_inv)
  have st: "store_inv (w_members w)" using inv by (rule worker_invD)
  let ?w = "w\<lparr>w_recv_queue := q\<rparr>" and ?l = "ms_local (w_members w)" and ?a = "src_name src"
  let ?g = "greeted rnd now src ?w"
  have run: "handle_packet rnd now (PingReq src t) ?w = (Inr (), relayed rnd now ?a t ?g)"
    using st by (intro handle_PingReq) simp
  let ?w1 = "relayed rnd now ?a t ?g"
  have turn: "handler_turn rnd now w = Some ?w1"
    using handler_turn_run [OF assms(2,3), of rnd now] run by (simp add: loop_fails_def)
  have gst: "store_inv (w_members ?g)" and gl: "ms_local (w_members ?g) = ?l"
    using st by (simp_all add: store.lookup_invar store.lookup_local)
  have "source_at (w_members ?g) ?l = source_at (w_members w) ?l"
    using get_source_local [of "w_members w"] st by (simp add: store_inv_def)
  then have "source_at (members_get (rnd t) now t None (w_members ?g)) ?l = source_at (w_members w) ?l"
    using get_source_local [of "w_members ?g" "rnd t" now t None] gst gl
    by (simp add: store_inv_def del: greeted_fields(1))
  moreover have "ms_local (members_get (rnd t) now t None (w_members ?g)) = ?l"
    using gst gl by (simp add: store.lookup_local del: greeted_fields(1))
  ultimately have ping: "(t, Ping (source_at (w_members w) ?l)) \<in> set (w_send_queue ?w1)"
    by (simp add: relayed_def reply_def Let_def del: greeted_fields(1))
  have l1: "listens ?a t ?w1"
    by (simp add: listens_def listeners_of_def relayed_def Let_def update_conv')
  have inv1: "worker_inv ?w1" using handler_turn_inv [OF inv turn] .
  have "\<exists>w3. handler_turn rnd2 now2 w2 = Some w3 \<and> (?a, Ack (packet_source p)) \<in> set (w_send_queue w3)"
    if evs: "\<forall>ev \<in> set evs. event_ok ev" "worker_steps evs ?w1 = Some w2" "\<not> heard_during t evs ?w1"
      and r: "loop_runs Handler w2" "w_recv_queue w2 = p # q2" "src_name (packet_source p) = t"
    for evs w2 p q2 rnd2 now2
  proof -
    have inv2: "worker_inv w2" and l2: "listens ?a t w2"
      using worker_steps_listens [OF inv1 l1 evs] by auto
    have "ms_local (w_members ?w1) = ?l" using worker_step_local [OF inv, of "Handle rnd now"] turn
      by (simp add: worker_step_def)
    then have loc: "ms_local (w_members w2) = ?l" using worker_steps_local [OF inv1 evs(1,2)] by simp
    let ?v = "w2\<lparr>w_recv_queue := q2\<rparr>"
    have "packet_ok p" using worker_invD(5) [OF inv2] r(2) by simp
    moreover have "listens ?a t ?v" using l2 listens_cong [of ?v w2] by simp
    ultimately have "(?a, Ack (packet_source p)) \<in> set (w_send_queue (snd (handle_packet rnd2 now2 p ?v)))"
      using handle_acks [OF worker_inv_queues(2) [OF inv2 r(2)]] r(3) loc assms(4) by auto
    then show ?thesis using handler_turn_run [OF r(1,2), of rnd2 now2] by simp
  qed
  with turn ping show ?thesis by blast
qed

theorem ping_req_relayed_witness:
  "\<exists>w1. handler_turn (\<lambda>_. []) 5 (demo_received [''a''] (PingReq \<lparr>src_name = ''a'', src_validity = [9]\<rparr> ''b'')) = Some w1 \<and>
    (''b'', Ping (source_at (demo_members [''a'']) ''me'')) \<in> set (w_send_queue w1)"
proof -
  let ?p = "PingReq \<lparr>src_name = ''a'', src_validity = [9]\<rparr> ''b''"
  have "loop_runs Handler (demo_received [''a''] ?p)" "w_recv_queue (demo_received [''a''] ?p) = [?p]"
    "''b'' \<noteq> ms_local (w_members (demo_received [''a''] ?p))"
    by (simp_all add: demo_received_def loop_runs_def demo_fields)
  from ping_req_relayed [OF demo_received_reachable this, of "\<lambda>_. []" 5] show ?thesis
    by (auto simp: demo_received_def demo_fields)
qed

end
