(* ===== verification/Swim_Worker_Acks.thy ===== *)
theory Swim_Worker_Acks
  imports Swim_Worker_Relay
begin

text \<open>
  What dissemination sends, told from the packets that the worker has handled instead of from
  the clocks that it stores: the stored clocks of a member are those that the packets of this
  member have acknowledged since it last changed its validity.
\<close>

subsection \<open>The acknowledgements of a member\<close>

text \<open>The packets that the handler takes from the queue in a run.\<close>

fun handled :: "worker_event list \<Rightarrow> worker \<Rightarrow> packet list" where
  "handled [] w = []"
| "handled (ev # evs) w =
     (case worker_step ev w of
        None \<Rightarrow> []
      | Some w' \<Rightarrow>
          (case ev of Handle rnd now \<Rightarrow> take 1 (w_recv_queue w) | _ \<Rightarrow> []) @ handled evs w')"

text \<open>
  The last validity that the packets of \<open>t\<close> carried, and the last clock that they acknowledged
  about each name since the validity changed.
\<close>

definition greet :: "bytes \<Rightarrow> bytes option \<times> (string \<Rightarrow> int option) \<Rightarrow> bytes option \<times> (string \<Rightarrow> int option)"
  where
  "greet v r = (Some v, if fst r = Some v then snd r else Map.empty)"

definition report ::
    "string \<Rightarrow> packet \<Rightarrow> bytes option \<times> (string \<Rightarrow> int option) \<Rightarrow> bytes option \<times> (string \<Rightarrow> int option)"
  where
  "report t p r =
     (if src_name (packet_source p) = t then
        (let r = greet (src_validity (packet_source p)) r
         in case p of GossipAck s n c \<Rightarrow> (fst r, (snd r)(n \<mapsto> c)) | _ \<Rightarrow> r)
      else r)"

definition reported :: "string \<Rightarrow> packet list \<Rightarrow> string \<Rightarrow> int option" where
  "reported t ps = snd (fold (report t) ps (None, Map.empty))"

subsection \<open>The table agrees with the packets\<close>

definition log_ok :: "string \<Rightarrow> bytes option \<times> (string \<Rightarrow> int option) \<Rightarrow> members \<Rightarrow> bool" where
  "log_ok t r ms \<longleftrightarrow>
     (case map_of (ms_members ms) t of
        None \<Rightarrow> r = (None, Map.empty)
      | Some m \<Rightarrow>
          map_of (m_known_clocks m) = snd r \<and>
          (case fst r of None \<Rightarrow> snd r = Map.empty | Some v \<Rightarrow> m_validity m = v))"

lemma greet_validity [simp]: "fst (greet v r) = Some v"
  by (simp add: greet_def)

lemma log_ok_cong:
  "map_of (ms_members ms') t = map_of (ms_members ms) t \<Longrightarrow> log_ok t r ms' = log_ok t r ms"
  by (simp add: log_ok_def)

lemma log_ok_get:
  assumes "log_ok t r ms" and "n \<noteq> t \<or> v = None"
  shows "log_ok t r (members_get rnd now n v ms)"
  using assms
  by (auto simp: log_ok_def members_get_lookup check_validity_def member_init_def split: option.splits)

lemma log_ok_greet:
  assumes "log_ok t r ms" and inv: "members_inv ms" and "t \<noteq> ms_local ms"
  shows "log_ok t (greet v r) (members_get rnd now t (Some v) ms)"
proof (cases "map_of (ms_members ms) t")
  case None
  with assms(1) show ?thesis
    by (simp add: log_ok_def greet_def members_get_lookup check_validity_def member_init_def)
next
  case (Some m)
  then have "\<not> m_local m" using members_invD(2) [OF inv] assms(3) by simp
  with Some assms(1) show ?thesis
    by (auto simp: log_ok_def greet_def members_get_lookup check_validity_def split: option.splits)
qed

lemma log_ok_update:
  assumes "store_inv ms" and "settable st" and "log_ok t r ms"
  shows "log_ok t r (snd (update_common now n source clock st md ms))"
proof (rule update_common_keeps [where good = "log_ok t r", OF assms])
  fix m assume m: "map_of (ms_members ms) n = Some m"
  have "members_inv ms" using assms(1) by (simp add: store_inv_def)
  let ?e = "changed now source clock (ms_next_clock ms) st md m"
  have same: "m_known_clocks ?e = m_known_clocks m" "m_validity ?e = m_validity m"
    by (simp_all add: changed_def)
  show "log_ok t r (update_changed n ?e ms)"
    using m assms(3) \<open>members_inv ms\<close> by (auto simp: log_ok_def update_changed_lookup same split: option.splits)
qed

lemma log_ok_ack:
  assumes "log_ok t r ms" and "fst (ack_gossip n source c ms) = Inr ()" and "known ms source"
    and "source = t \<Longrightarrow> fst r \<noteq> None"
  shows "log_ok t (if source = t then (fst r, (snd r)(n \<mapsto> c)) else r) (snd (ack_gossip n source c ms))"
proof -
  obtain m where m: "map_of (ms_members ms) source = Some m" using assms(3) by (auto simp: known_def)
  then show ?thesis
    using assms(1,2,4) by (auto simp: log_ok_def ack_gossip_run [OF m] update_conv' split: if_splits option.splits)
qed

lemma log_ok_handle:
  assumes inv: "worker_inv w" and ok: "packet_ok p" and t: "t \<noteq> ms_local (w_members w)"
    and run: "fst (handle_packet rnd now p w) = Inr ()" and "log_ok t r (w_members w)"
  shows "log_ok t (report t p r) (w_members (snd (handle_packet rnd now p w)))"
proof -
  let ?n = "src_name (packet_source p)" and ?g = "w_members (greeted rnd now (packet_source p) w)"
  define r' where "r' = (if ?n = t then greet (src_validity (packet_source p)) r else r)"
  have st: "store_inv (w_members w)" using inv by (rule worker_invD)
  then have "members_inv (w_members w)" by (simp add: store_inv_def)
  then have g: "log_ok t r' ?g"
    using assms(5) t by (auto simp: r'_def log_ok_get log_ok_greet)
  have gst: "store_inv ?g" using st by (simp add: store.lookup_invar)
  have l: "log_ok t r' (members_get rnd now n None ?g)" "store_inv (members_get rnd now n None ?g)"
    for rnd now n
    using g gst by (simp_all add: log_ok_get store.lookup_invar del: greeted_fields(1))
  have "known ?g ?n" by (rule greeted_known)
  then have k: "known (members_get rnd now n None ?g) ?n" for rnd now n
    by (auto simp: known_def members_get_lookup simp del: greeted_fields(1))
  show ?thesis
  proof (cases p)
    case (GossipAck s n c)
    let ?ms = "members_get (rnd n) now n None ?g"
    have "fst (ack_gossip n ?n c ?ms) = Inr ()"
      using run GossipAck by (simp add: handle_GossipAck Let_def del: greeted_fields(1))
    from log_ok_ack [OF l(1) this k] GossipAck show ?thesis
      by (auto simp: handle_GossipAck Let_def report_def r'_def simp del: greeted_fields(1))
  qed (use st ok g l in \<open>auto simp: handle_runs Let_def reply_def relayed_def gossiped_def report_def r'_def
      members_apply_def log_ok_update simp del: greeted_fields(1)\<close>)
qed


subsection \<open>Every run\<close>

lemma log_ok_step:
  assumes inv: "worker_inv w" and t: "t \<noteq> ms_local (w_members w)" and log: "log_ok t r (w_members w)"
    and run: "worker_step ev w = Some w'" and "loop_runs Handler w'"
  shows "log_ok t (fold (report t) (case ev of Handle rnd now \<Rightarrow> take 1 (w_recv_queue w) | _ \<Rightarrow> []) r)
    (w_members w')"
proof (cases ev)
  case (Handle rnd now)
  then obtain p q where q: "w_recv_queue w = p # q"
    and w': "w' = loop_fails Handler (handle_packet rnd now p (w\<lparr>w_recv_queue := q\<rparr>))"
    using run by (auto simp: worker_step_def handler_turn_def split: if_splits list.splits)
  have ok: "packet_ok p" using worker_invD(5) [OF inv] q by simp
  have "fst (handle_packet rnd now p (w\<lparr>w_recv_queue := q\<rparr>)) = Inr ()"
    using assms(5) unfolding w'
    by (cases "handle_packet rnd now p (w\<lparr>w_recv_queue := q\<rparr>)" rule: prod.exhaust)
      (auto simp: loop_fails_def loop_runs_def split: sum.splits)
  with log_ok_handle [OF worker_inv_queues(2) [OF inv q] ok _ this, of t r] t log Handle q
  show ?thesis by (simp add: w')
next
  case (Resume j draws now)
  then have "turned now w w'" using run by (intro subtask_turned [OF inv]) (simp add: worker_step_def)
  then show ?thesis
    using log Resume worker_invD(6) [OF inv] by (auto simp: turned_def members_update_common log_ok_update)
next
  case (Expire j now)
  then have "suspect_expire j now w = Some w'" using run by (simp add: worker_step_def)
  from suspect_expire_inv(2) [OF inv this]
  obtain u where "w_members w' = snd (members_update now u (Some OFFLINE) None (w_members w))" by blast
  then show ?thesis
    using log Expire worker_invD(6) [OF inv] by (simp add: members_update_common log_ok_update)
next
  case (Set_metadata md now)
  then show ?thesis
    using run log worker_invD(6) [OF inv]
    by (auto simp: worker_step_def with_members_run members_update_common log_ok_update)
qed (use run log in \<open>auto simp: worker_step_def detection_turn_def dissemination_turn_def py_seq_def py_bind_def
    split: list.splits if_splits option.splits sum.splits\<close>)

lemma log_ok_steps:
  assumes "worker_inv w" and "t \<noteq> ms_local (w_members w)" and "log_ok t r (w_members w)"
    and "\<forall>ev \<in> set evs. event_ok ev" and "worker_steps evs w = Some w'" and "loop_runs Handler w'"
  shows "log_ok t (fold (report t) (handled evs w) r) (w_members w')"
  using assms
proof (induction evs arbitrary: w r)
  case (Cons ev evs)
  obtain v where v: "worker_step ev w = Some v" "worker_steps evs v = Some w'"
    using Cons.prems(5) by (auto split: option.splits)
  have inv: "worker_inv v" using Cons.prems(1,4) v(1) by (auto intro: worker_step_inv)
  have "loop_runs Handler v"
  proof (rule ccontr)
    assume "\<not> loop_runs Handler v"
    then obtain e where "map_of (w_failed v) Handler = Some e" by (auto simp: loop_runs_def)
    from worker_steps_dead [OF inv this _ v(2)] Cons.prems(4,6) show False
      by (simp add: loop_runs_def)
  qed
  from log_ok_step [OF Cons.prems(1-3) v(1) this]
  have "log_ok t (fold (report t) (handled evs v)
      (fold (report t) (case ev of Handle rnd now \<Rightarrow> take 1 (w_recv_queue w) | _ \<Rightarrow> []) r)) (w_members w')"
    using Cons.prems(2,4,6) worker_step_local [OF Cons.prems(1) v(1)]
    by (intro Cons.IH [OF inv _ _ _ v(2)]) simp_all
  with v(1) show ?case by simp
qed simp

lemma log_ok_init:
  assumes "members_init rnd now name peers md = (Inr (), ms)"
  shows "log_ok t (None, Map.empty) ms"
proof -
  note start = members_peers_state [of rnd now name peers]
  then have "log_ok t (None, Map.empty) (members_peers rnd now name peers)"
    by (simp add: log_ok_def member_init_def)
  then have "log_ok t (None, Map.empty) (snd (update_common now name None 1 (Some ONLINE) (Some md)
      (members_peers rnd now name peers)))"
    using start by (intro log_ok_update) (simp_all add: store_inv_def members_peers_slots)
  with assms start show ?thesis by (simp add: members_init_peers members_update_common)
qed

lemma worker_start_local:
  "members_init rnd now name peers md = (Inr (), ms) \<Longrightarrow> ms_local ms = name"
  using update_common_store [of "members_peers rnd now name peers" "Some ONLINE" now name None 1 "Some md"]
    members_peers_state [of rnd now name peers]
  by (simp add: members_init_peers members_update_common store_inv_def members_peers_slots)

subsection \<open>What dissemination sends\<close>

lemma get_gossip_distinct: "members_inv ms \<Longrightarrow> distinct (get_gossip t ms)"
  by (simp add: get_gossip_def members_inv_def split: option.split)

lemma get_gossip_reported:
  assumes "members_inv ms" and "known ms t" and log: "log_ok t (v, reports) ms"
  shows "set (get_gossip t ms) =
    {n. \<exists>m. map_of (ms_members ms) n = Some m \<and> (n = ms_local ms \<or> m_metadata_dict m \<noteq> None) \<and>
       (\<forall>c. reports n = Some c \<longrightarrow> c < m_clock m)}"
proof -
  obtain mt where mt: "map_of (ms_members ms) t = Some mt" using assms(2) by (auto simp: known_def)
  have r: "map_of (m_known_clocks mt) = reports" using log mt by (simp add: log_ok_def)
  have "n \<in> set (get_gossip t ms) \<longleftrightarrow>
      (\<exists>m. map_of (ms_members ms) n = Some m \<and> (n = ms_local ms \<or> m_metadata_dict m \<noteq> None) \<and>
         (\<forall>c. reports n = Some c \<longrightarrow> c < m_clock m))" for n
  proof (cases "map_of (ms_members ms) n")
    case None
    then show ?thesis by (simp add: get_gossip_iff [OF assms(1) mt])
  next
    case (Some m)
    then show ?thesis
      using members_invD(4) [OF assms(1) Some]
      by (cases "reports n") (simp_all add: get_gossip_iff [OF assms(1) mt] r clock_at_def metadata_at_def)
  qed
  then show ?thesis by blast
qed

lemma disseminate_turn:
  assumes inv: "worker_inv w" and task: "map_of (running (w_owner w)) i = Some (Disseminate_start t)"
  shows "\<exists>w'. worker_step (Resume i draws now) w = Some w' \<and>
    w_send_queue w' = w_send_queue w @ map (\<lambda>n. let m = the (map_of (ms_members (w_members w)) n) in
      (t, Gossip (source_at (w_members w) (ms_local (w_members w))) n (m_clock m) (m_status m) (m_metadata_dict m)))
      (get_gossip t (w_members w)) \<and>
    w_members w' = w_members w \<and> map_of (running (w_owner w')) i = None"
proof -
  let ?ms = "w_members w" and ?ns = "get_gossip t (w_members w)"
  have st: "store_inv ?ms" using inv by (rule worker_invD)
  then have mi: "members_inv ?ms" by (simp add: store_inv_def)
  have "m_name (the (map_of (ms_members ?ms) n)) = n" if "n \<in> set ?ns" for n
    using get_gossip_known [OF that] members_invD(1) [OF mi] by (auto simp: known_def)
  then have q: "map (\<lambda>n. (t, gossip_packet ?ms n)) ?ns = map (\<lambda>n. let m = the (map_of (ms_members ?ms) n) in
      (t, Gossip (source_at ?ms (ms_local ?ms)) n (m_clock m) (m_status m) (m_metadata_dict m))) ?ns"
    by (simp add: gossip_packet_def Let_def)
  let ?w' = "finish i (w\<lparr>w_send_queue := w_send_queue w @ map (\<lambda>n. (t, gossip_packet ?ms n)) ?ns\<rparr>)"
  have "worker_step (Resume i draws now) w = Some ?w'"
    using task by (simp add: worker_step_def subtask_turn_def disseminate_run [OF st])
  with q show ?thesis by (intro exI [of _ ?w']) (simp add: finish_def)
qed

text \<open>
  C14: Dissemination sends what its target has not acknowledged. Take any run of a worker whose
  handler has not failed, and a task that disseminates to another member \<open>t\<close>. In one step it sends
  \<open>t\<close> exactly one gossip about every member whose clock exceeds the clock that the packets of \<open>t\<close>
  have last acknowledged about it, or about which they have acknowledged nothing, since \<open>t\<close> last
  changed its validity; of the members other than the local one only those with known metadata. Each
  gossip carries the clock, status and metadata that the sender holds. Nothing is marked as sent: the
  same gossip is sent again until it is acknowledged.
\<close>

theorem dissemination_sends_due:
  fixes evs :: "worker_event list" and count :: int and t :: string
  assumes "members_init rnd start name peers md = (Inr (), ms)" and "\<forall>ev \<in> set evs. event_ok ev"
    and "worker_steps evs (worker_init count ms) = Some w" and "loop_runs Handler w"
    and "map_of (running (w_owner w)) i = Some (Disseminate_start t)" and "t \<noteq> name"
  defines "acked \<equiv> reported t (handled evs (worker_init count ms))"
  shows "\<exists>w' ns. worker_step (Resume i draws now) w = Some w' \<and> distinct ns \<and>
    set ns = {n. \<exists>m. map_of (ms_members (w_members w)) n = Some m \<and>
      (n = name \<or> m_metadata_dict m \<noteq> None) \<and> (\<forall>c. acked n = Some c \<longrightarrow> c < m_clock m)} \<and>
    w_send_queue w' = w_send_queue w @ map (\<lambda>n. let m = the (map_of (ms_members (w_members w)) n) in
      (t, Gossip (source_at (w_members w) name) n (m_clock m) (m_status m) (m_metadata_dict m))) ns \<and>
    w_members w' = w_members w \<and> map_of (running (w_owner w')) i = None"
proof -
  let ?w0 = "worker_init count ms"
  have "worker_reachable ?w0" using assms(1) by (rule worker_start)
  then have inv0: "worker_inv ?w0" by (rule worker_reachable_inv)
  have inv: "worker_inv w"
    using worker_run_steps [OF \<open>worker_reachable ?w0\<close> assms(2,3)] by (rule worker_reachable_inv)
  then have mi: "members_inv (w_members w)" using worker_invD(6) by (auto simp: store_inv_def)
  have loc0: "ms_local (w_members ?w0) = name"
    using worker_start_local [OF assms(1)] by (simp add: worker_init_def)
  have loc: "ms_local (w_members w) = name" using worker_steps_local [OF inv0 assms(2,3)] loc0 by simp
  have "log_ok t (None, Map.empty) (w_members ?w0)"
    using log_ok_init [OF assms(1)] by (simp add: worker_init_def)
  then have log: "log_ok t (fold (report t) (handled evs ?w0) (None, Map.empty)) (w_members w)"
    using loc0 assms(6) by (intro log_ok_steps [OF inv0 _ _ assms(2-4)]) simp_all
  then have "log_ok t (fst (fold (report t) (handled evs ?w0) (None, Map.empty)), acked) (w_members w)"
    by (simp add: acked_def reported_def)
  moreover have "known (w_members w) t" using inv assms(5) by (rule task_target_known) simp
  ultimately show ?thesis
    using disseminate_turn [OF inv assms(5), of draws now] get_gossip_distinct [OF mi, of t]
      get_gossip_reported [OF mi, of t] loc by fastforce
qed

text \<open>
  A worker whose only peer is online and has acknowledged its entry, which then changes: the entry
  is the one member that is sent.
\<close>

definition demo_acked_events :: "worker_event list" where
  "demo_acked_events =
     [Receive (Gossip \<lparr>src_name = ''a'', src_validity = []\<rparr> ''a'' 1 ONLINE None), Handle (\<lambda>_. []) 1,
      Receive (GossipAck \<lparr>src_name = ''a'', src_validity = []\<rparr> ''me'' 1), Handle (\<lambda>_. []) 1,
      Set_metadata {(''k'', [2])} 1, Gossip_round [0]]"

lemma demo_acked_run:
  "map_option (\<lambda>w. (map_of (running (w_owner w)) 0, loop_runs Handler w, map fst (ms_members (w_members w)),
       map_option (\<lambda>m. (m_clock m, m_metadata_dict m)) (map_of (ms_members (w_members w)) ''me''),
       map_option m_metadata_dict (map_of (ms_members (w_members w)) ''a''),
       length (w_send_queue w)))
     (worker_steps demo_acked_events (worker_init 1 (demo_members [''a'']))) =
   Some (Some (Disseminate_start ''a''), True, [''me'', ''a''], Some (2, Some {(''k'', [2])}), Some None, 1)"
  by code_simp

lemma demo_acked_log:
  "reported ''a'' (handled demo_acked_events (worker_init 1 (demo_members [''a'']))) ''me'' = Some 1"
  by code_simp

theorem dissemination_sends_due_witness:
  "\<exists>w w' s st. worker_steps demo_acked_events (worker_init 1 (demo_members [''a''])) = Some w \<and>
    worker_step (Resume 0 [] 2) w = Some w' \<and>
    w_send_queue w' = w_send_queue w @ [(''a'', Gossip s ''me'' 2 st (Some {(''k'', [2])}))]"
proof -
  obtain w m where w: "worker_steps demo_acked_events (worker_init 1 (demo_members [''a''])) = Some w"
      "loop_runs Handler w" "map_of (running (w_owner w)) 0 = Some (Disseminate_start ''a'')"
    and names: "map fst (ms_members (w_members w)) = [''me'', ''a'']"
    and m: "map_of (ms_members (w_members w)) ''me'' = Some m" "m_clock m = 2" "m_metadata_dict m = Some {(''k'', [2])}"
    and a: "map_option m_metadata_dict (map_of (ms_members (w_members w)) ''a'') = Some None"
    using demo_acked_run by auto
  have "\<forall>ev \<in> set demo_acked_events. event_ok ev" by (simp add: demo_acked_events_def)
  from dissemination_sends_due [OF demo_members_init this w, of "[]" 2] obtain w' ns where
    step: "worker_step (Resume 0 [] 2) w = Some w'" and "distinct ns" and
    ns: "set ns = {n. \<exists>m. map_of (ms_members (w_members w)) n = Some m \<and>
      (n = ''me'' \<or> m_metadata_dict m \<noteq> None) \<and>
      (\<forall>c. reported ''a'' (handled demo_acked_events (worker_init 1 (demo_members [''a'']))) n = Some c \<longrightarrow>
         c < m_clock m)}" and
    q: "w_send_queue w' = w_send_queue w @ map (\<lambda>n. let m = the (map_of (ms_members (w_members w)) n) in
      (''a'', Gossip (source_at (w_members w) ''me'') n (m_clock m) (m_status m) (m_metadata_dict m))) ns"
    by auto
  have "set (map fst (ms_members (w_members w))) = {''me'', ''a''}" by (simp only: names) simp
  then have "n = ''me'' \<or> n = ''a''" if "map_of (ms_members (w_members w)) n = Some e" for n e
    using map_of_SomeD [OF that] by force
  then have "n = ''me''" if "n \<in> set ns" for n
    using that a unfolding ns by fastforce
  moreover have "''me'' \<in> set ns" unfolding ns using m demo_acked_log by simp
  ultimately have "set ns = {''me''}" by blast
  with \<open>distinct ns\<close> have "ns = [''me'']" by (simp add: distinct_singleton)
  with step q w(1) m show ?thesis by (auto simp: Let_def)
qed

end
