(* ===== verification/Swim_Exchange.thy ===== *)
theory Swim_Exchange
  imports Swim_Cluster Swim_Worker_Acks
begin

text \<open>
  One exchange of gossip between two processes of the cluster, from the handling of the gossip to the
  handling of its acknowledgement, with anything in between.
\<close>

lemma started_app: "started (evs @ evs') = started evs @ started evs'"
  by (simp add: started_def)

lemma run_ok_live:
  assumes "cluster_run evs cluster_init = Some c" and "distinct (started evs)"
  shows "cluster_ok c" and "cluster_live c"
proof -
  show "cluster_ok c" using cluster_run_sourced [OF assms(1), of "\<lambda>n md. True"] by simp
  have "cluster_live cluster_init" by (simp add: cluster_live_def) (simp add: cluster_init_def)
  then show "cluster_live c"
    using assms by (intro cluster_run_live [OF assms(1) cluster_init_ok(1)]) (simp_all add: cluster_init_def)
qed

text \<open>A step of the handler of a process of the cluster.\<close>

lemma handle_at:
  assumes "cluster_live c" and "cl_node c n = Some w" and "w_recv_queue w = p # q"
  shows "cluster_step (At n (Handle rnd now)) c =
    Some (put_node n (loop_fails Handler (handle_packet rnd now p (w\<lparr>w_recv_queue := q\<rparr>))) c)"
proof -
  have "loop_runs Handler w" using assms(1,2) by (simp add: cluster_live_def)
  from handler_turn_run [OF this assms(3)] assms(2) show ?thesis
    by (simp add: cluster_step_def at_node_def worker_step_def)
qed

text \<open>A gossip of a member about itself is applied, whatever its clock.\<close>

lemma apply_self:
  assumes "store_inv ms" and "known ms n" and "n \<noteq> ms_local ms" and "settable (Some st)"
  shows "metadata_at (snd (members_apply now n n clock st (Some md) ms)) n = Some md"
proof -
  have inv: "members_inv ms" using assms(1) by (simp add: store_inv_def)
  obtain m where m: "map_of (ms_members ms) n = Some m" using assms(2) by (auto simp: known_def)
  have acc: "accepts (Some n) clock m" using members_invD(1) [OF inv m] by (simp add: accepts_def)
  show ?thesis
  proof (cases "changes (Some st) (Some md) m")
    case True
    obtain ms' m' where "members_apply now n n clock st (Some md) ms = (Inr (), ms')"
      and "map_of (ms_members ms') = (map_of (ms_members ms))(n \<mapsto> m')" and "m_metadata_dict m' = Some md"
      by (rule apply_changed [OF inv m assms(4,3) acc True, of now]) simp
    then show ?thesis by simp
  next
    case False
    then obtain d where "m_metadata_dict m = Some d" "md = m_metadata m" by (auto simp: changes_def)
    with settled_metadata [OF members_invD(3) [OF inv m]] have "m_metadata_dict m = Some md" by simp
    moreover have "members_apply now n n clock st (Some md) ms = (Inr (), ms)"
      using apply_unchanged [OF inv m assms(4)] False by simp
    ultimately show ?thesis using m by simp
  qed
qed

lemma handle_own_gossip:
  fixes rnd :: "string \<Rightarrow> bytes" and now k :: int and md :: metadata
  assumes "worker_inv w" and "settable (Some st)" and "src_name s \<noteq> ms_local (w_members w)"
  defines "w' \<equiv> snd (handle_packet rnd now (Gossip s (src_name s) k st (Some md)) w)"
  shows "metadata_at (w_members w') (src_name s) = Some md"
    and "(src_name s, GossipAck (source_at (w_members w') (ms_local (w_members w))) (src_name s) k) \<in> set (w_send_queue w')"
proof -
  have st: "store_inv (w_members w)" using assms(1) by (rule worker_invD)
  let ?g = "greeted rnd now s w"
  let ?ms = "members_get (rnd (src_name s)) now (src_name s) None (w_members ?g)"
  have g: "store_inv (w_members ?g)" "ms_local (w_members ?g) = ms_local (w_members w)"
    using st by (simp_all add: store.lookup_invar store.lookup_local)
  have ms: "store_inv ?ms" "known ?ms (src_name s)" "ms_local ?ms = ms_local (w_members w)"
    using g by (simp_all add: store.lookup_invar store.lookup_knows store.lookup_local del: greeted_fields(1))
  have w': "w' = gossiped rnd now (src_name s) (src_name s) k st (Some md) ?g"
    unfolding w'_def handle_Gossip [OF st assms(2)] by simp
  show "metadata_at (w_members w') (src_name s) = Some md"
    using apply_self [OF ms(1,2) _ assms(2)] assms(3) ms(3) by (simp add: w' gossiped_def Let_def)
  show "(src_name s, GossipAck (source_at (w_members w') (ms_local (w_members w))) (src_name s) k) \<in> set (w_send_queue w')"
    using store.gossip_local [OF ms(1) assms(2)] ms(3) by (simp add: w' gossiped_def Let_def)
qed

text \<open>The acknowledgement of a clock of the local entry: it is due again once the clock is newer.\<close>

lemma handle_own_ack:
  fixes rnd :: "string \<Rightarrow> bytes" and now :: int and s :: source
  assumes inv: "worker_inv w" and a: "a = ms_local (w_members w)" and "k \<le> ms_next_clock (w_members w)"
  defines "w' \<equiv> snd (handle_packet rnd now (GossipAck s a k) w)"
  shows "a \<in> set (get_gossip (src_name s) (w_members w')) \<longleftrightarrow> k < clock_at (w_members w) a"
proof -
  let ?ms = "members_get (rnd a) now a None (w_members (greeted rnd now s w))"
  have st: "store_inv (w_members w)" using inv by (rule worker_invD)
  then have st': "store_inv (w_members w')"
    using handle_packet_inv [OF inv, of "GossipAck s a k" rnd now] worker_invD(6) by (simp add: w'_def)
  obtain m where m: "map_of (ms_members (w_members w)) a = Some m"
    using store.knows_local [OF st] a by (auto simp: known_def)
  have "map_of (ms_members ?ms) (src_name s) \<noteq> None" by (simp add: members_get_lookup)
  then obtain e where e: "map_of (ms_members ?ms) (src_name s) = Some e" by blast
  have n: "\<exists>d. map_of (ms_members ?ms) a = Some d \<and> m_clock d = m_clock m"
    using m by (cases "a = src_name s") (auto simp: members_get_lookup)
  let ?e = "e\<lparr>m_known_clocks := AList.update a k (m_known_clocks e)\<rparr>"
  have "ms_next_clock ?ms = ms_next_clock (w_members w)" by (simp add: members_get_fields)
  with e assms(3) have w': "w_members w' = put_member (src_name s) ?e ?ms"
    by (simp add: w'_def handle_GossipAck Let_def ack_gossip_run del: greeted_fields(1))
  have t: "map_of (ms_members (w_members w')) (src_name s) = Some ?e" by (simp add: w')
  have at: "clock_at (w_members w') a = clock_at (w_members w) a" "map_of (ms_members (w_members w')) a \<noteq> None"
    using n m e by (auto simp: w' clock_at_def simp del: greeted_fields(1))
  have "ms_local (w_members w') = a" using a by (simp add: w' members_get_fields put_member_def)
  with get_gossip_iff [OF _ t, of a] st' at show ?thesis by (simp add: store_inv_def update_conv')
qed

text \<open>
  C9: One exchange of gossip. In a cluster without restarts, let the process \<open>b\<close> come to
  handle a gossip of another process \<open>a\<close> about itself. Then \<open>b\<close> holds the metadata of the
  gossip and queues an acknowledgement of its clock to \<open>a\<close>. Whatever the cluster does until \<open>a\<close>
  handles an acknowledgement of this clock from \<open>b\<close>, after that \<open>a\<close> selects its own entry for \<open>b\<close>
  if and only if the clock of the entry has become newer meanwhile.
\<close>

theorem gossip_exchange:
  assumes "cluster_run evs cluster_init = Some c" and "distinct (started evs)" and "cl_node c b = Some wb"
    and "w_recv_queue wb = Gossip s a k st (Some md) # q" and "src_name s = a" and "a \<noteq> b"
  shows "\<exists>c1 w1. cluster_step (At b (Handle rnd now)) c = Some c1 \<and> cl_node c1 b = Some w1 \<and>
    metadata_at (w_members w1) a = Some md \<and>
    (a, GossipAck (source_at (w_members w1) b) a k) \<in> set (w_send_queue w1) \<and>
    (\<forall>evs' c2 wa s' q'. cluster_run evs' c1 = Some c2 \<and> distinct (started (evs @ evs')) \<and>
       cl_node c2 a = Some wa \<and> w_recv_queue wa = GossipAck s' a k # q' \<and> src_name s' = b \<longrightarrow>
       (\<exists>c3 w3. cluster_step (At a (Handle rnd' now')) c2 = Some c3 \<and> cl_node c3 a = Some w3 \<and>
          (a \<in> set (get_gossip b (w_members w3)) \<longleftrightarrow> k < clock_at (w_members wa) a)))"
proof -
  note ok = run_ok_live [OF assms(1,2)]
  let ?h = "handle_packet rnd now (Gossip s a k st (Some md)) (wb\<lparr>w_recv_queue := q\<rparr>)"
  let ?w1 = "loop_fails Handler ?h"
  have step: "cluster_step (At b (Handle rnd now)) c = Some (put_node b ?w1 c)"
    by (rule handle_at [OF ok(2) assms(3,4)])
  note inv = cluster_okD(1) [OF ok(1) assms(3)] and loc = cluster_okD(2) [OF ok(1) assms(3)]
  have "packet_ok (Gossip s a k st (Some md))"
    using worker_invD(5) [OF inv, of "Gossip s a k st (Some md)"] assms(4) by simp
  then have st: "settable (Some st)" by simp
  have "src_name s \<noteq> ms_local (w_members (wb\<lparr>w_recv_queue := q\<rparr>))" using loc assms(5,6) by simp
  note h = handle_own_gossip [OF worker_inv_queues(2) [OF inv assms(4)] st this, of rnd now k md, unfolded assms(5)]
  have later: "\<exists>c3 w3. cluster_step (At a (Handle rnd' now')) c2 = Some c3 \<and> cl_node c3 a = Some w3 \<and>
      (a \<in> set (get_gossip b (w_members w3)) \<longleftrightarrow> k < clock_at (w_members wa) a)"
    if r: "cluster_run evs' (put_node b ?w1 c) = Some c2" "distinct (started (evs @ evs'))"
      and a: "cl_node c2 a = Some wa" "w_recv_queue wa = GossipAck s' a k # q'" "src_name s' = b" for evs' c2 wa s' q'
  proof -
    have "cluster_run (evs @ At b (Handle rnd now) # evs') cluster_init = Some c2"
      using assms(1) step r(1) by (simp add: cluster_run_append)
    moreover have "distinct (started (evs @ At b (Handle rnd now) # evs'))"
      using r(2) started_append [of "At b (Handle rnd now)" evs'] by (simp add: started_app) (simp add: started_def)
    ultimately have ok2: "cluster_ok c2" "cluster_live c2" by (rule run_ok_live)+
    note inva = cluster_okD(1) [OF ok2(1) a(1)] and loca = cluster_okD(2) [OF ok2(1) a(1)]
    let ?v = "wa\<lparr>w_recv_queue := q'\<rparr>"
    let ?w3 = "loop_fails Handler (handle_packet rnd' now' (GossipAck s' a k) ?v)"
    have step3: "cluster_step (At a (Handle rnd' now')) c2 = Some (put_node a ?w3 c2)"
      by (rule handle_at [OF ok2(2) a(1,2)])
    have "(a, GossipAck s' a k) \<in> around c2" using aroundI(3) [OF a(1), of "GossipAck s' a k"] a(2) by simp
    then have "packet_bounded c2 (a, GossipAck s' a k)" using ok2(2) by (simp add: cluster_live_def)
    then have "k \<le> ms_next_clock (w_members wa)" using a(1) by (simp add: packet_bounded_def bounded_def)
    then have "a \<in> set (get_gossip b (w_members ?w3)) \<longleftrightarrow> k < clock_at (w_members wa) a"
      using handle_own_ack [OF worker_inv_queues(2) [OF inva a(2)], where a = a and k = k
          and rnd = rnd' and now = now' and s = s'] loca a(3) by simp
    with step3 show ?thesis by (intro exI [of _ "put_node a ?w3 c2"] exI [of _ ?w3]) simp
  qed
  show ?thesis
  proof (rule exI [of _ "put_node b ?w1 c"], rule exI [of _ ?w1], intro conjI allI impI)
    fix evs' c2 wa s' q'
    assume "cluster_run evs' (put_node b ?w1 c) = Some c2 \<and> distinct (started (evs @ evs')) \<and>
      cl_node c2 a = Some wa \<and> w_recv_queue wa = GossipAck s' a k # q' \<and> src_name s' = b"
    then show "\<exists>c3 w3. cluster_step (At a (Handle rnd' now')) c2 = Some c3 \<and> cl_node c3 a = Some w3 \<and>
      (a \<in> set (get_gossip b (w_members w3)) \<longleftrightarrow> k < clock_at (w_members wa) a)" by (elim conjE) (rule later)
  qed (use step h loc in simp_all)
qed

lemma before_gossip_run:
  "map_option (\<lambda>c. map_option (\<lambda>w. (map_option (\<lambda>w. metadata_at (w_members w) ''a'') (cl_node c ''b''),
       case w_recv_queue w of Gossip s n k st md # q \<Rightarrow> Some (src_name s, n, k, md) | _ \<Rightarrow> None)) (cl_node c ''b''))
     (cluster_run (take 17 exchange) cluster_init) =
   Some (Some (Some None, Some (''a'', ''a'', 4, Some {(''k'', [3])})))"
  by code_simp

theorem gossip_exchange_witness:
  "\<exists>c c1 w w1. cluster_run (take 17 exchange) cluster_init = Some c \<and> cl_node c ''b'' = Some w \<and>
    metadata_at (w_members w) ''a'' = None \<and>
    cluster_step (At ''b'' (Handle (\<lambda>_. [5]) 3)) c = Some c1 \<and> cl_node c1 ''b'' = Some w1 \<and>
    metadata_at (w_members w1) ''a'' = Some {(''k'', [3])}"
proof -
  obtain c w where c: "cluster_run (take 17 exchange) cluster_init = Some c" "cl_node c ''b'' = Some w"
    "metadata_at (w_members w) ''a'' = None"
    and "(case w_recv_queue w of Gossip s n k st md # q \<Rightarrow> Some (src_name s, n, k, md) | _ \<Rightarrow> None) =
      Some (''a'', ''a'', 4, Some {(''k'', [3])})"
    using before_gossip_run by auto
  then obtain s st q where s: "src_name s = ''a''"
    and q: "w_recv_queue w = Gossip s ''a'' 4 st (Some {(''k'', [3])}) # q"
    by (cases "w_recv_queue w"; cases "hd (w_recv_queue w)") auto
  have "distinct (started (take 17 exchange))" by (simp add: started_def exchange_def)
  from gossip_exchange [OF c(1) this c(2) q s, of "\<lambda>_. [5]" 3 "\<lambda>_. []" 0] c show ?thesis by auto
qed

end
