(* ===== verification/Swim_Sync.thy ===== *)
theory Swim_Sync
  imports Swim_Members_Gossip Swim_Transport
begin

text \<open>
  The tool \<open>swimprotocol/sync.py\<close>, which mirrors the metadata of every member as files in a
  directory of its name. Paths are lists of components below \<open>base_path\<close>, which is the empty
  list; the names of members and of metadata fields are single components (no separator in
  them, and not a dot or two).
\<close>

subsection \<open>The file system\<close>

text \<open>
  A symbolic link holds the components of its relative target. \<open>touched\<close> are the paths of
  which the modification time was set, in order, \<open>hooks\<close> the runs of \<open>on-update\<close> with their
  arguments, and \<open>same_device\<close> says whether the temporary directory is on the file system of
  \<open>base_path\<close>: \<open>os.rename\<close> fails across file systems.
\<close>

datatype node = Dir | File bytes | Link "string list"

record files =
  nodes :: "(string list \<times> node) list"
  touched :: "string list list"
  hooks :: "(string \<times> string \<times> string list) list"
  same_device :: bool

definition lookup :: "files \<Rightarrow> string list \<Rightarrow> node option" where
  "lookup fs = map_of (nodes fs)"

definition put_node :: "string list \<Rightarrow> node \<Rightarrow> files \<Rightarrow> files" where
  "put_node p n fs = fs\<lparr>nodes := AList.update p n (nodes fs)\<rparr>"

definition drop_node :: "string list \<Rightarrow> files \<Rightarrow> files" where
  "drop_node p fs = fs\<lparr>nodes := AList.delete p (nodes fs)\<rparr>"

definition component :: "string \<Rightarrow> bool" where
  "component c \<longleftrightarrow> c \<noteq> [] \<and> c \<noteq> ''.'' \<and> c \<noteq> ''..'' \<and> CHR ''/'' \<notin> set c"

text \<open>
  From the directory \<open>d\<close> along some components, over at most \<open>n\<close> links: the path without links to
  what is there, or to what could be made there. There is nothing outside the base directory here.
\<close>

function walk :: "nat \<Rightarrow> files \<Rightarrow> string list \<Rightarrow> string list \<Rightarrow> py_error + string list" where
  "walk n fs d [] = Inr d"
| "walk n fs d (c # cs) =
     (if c = ''..'' then (if d = [] then Inl FileNotFoundError else walk n fs (butlast d) cs)
      else case lookup fs (d @ [c]) of
        Some (Link t) \<Rightarrow> (if n = 0 then Inl OSError else walk (n - 1) fs d (t @ cs))
      | Some Dir \<Rightarrow> walk n fs (d @ [c]) cs
      | Some (File b) \<Rightarrow> if cs = [] then Inr (d @ [c]) else Inl NotADirectoryError
      | None \<Rightarrow> if cs = [] then Inr (d @ [c]) else Inl FileNotFoundError)"
  by pat_completeness auto

termination
  by (relation "measures [\<lambda>(n, fs, d, cs). n, \<lambda>(n, fs, d, cs). length cs]") auto

text \<open>Linux follows at most 40 links. The directory that a path is in, and the path in it.\<close>

definition max_links :: nat where
  "max_links = 40"

definition entry :: "files \<Rightarrow> string list \<Rightarrow> py_error + string list" where
  "entry fs p =
     (if p = [] then Inr []
      else result_bind (walk max_links fs [] (butlast p)) (\<lambda>d.
        case lookup fs d of
          Some Dir \<Rightarrow> Inr (d @ [last p])
        | None \<Rightarrow> Inl FileNotFoundError
        | Some _ \<Rightarrow> Inl NotADirectoryError))"

text \<open>What a path leads to when a link at its end is followed as well.\<close>

definition resolve :: "files \<Rightarrow> string list \<Rightarrow> py_error + string list" where
  "resolve fs p = result_bind (entry fs p) (\<lambda>q.
     case lookup fs q of
       Some (Link t) \<Rightarrow> walk max_links fs (butlast q) t
     | _ \<Rightarrow> Inr q)"

definition node_at :: "files \<Rightarrow> string list \<Rightarrow> node option" where
  "node_at fs p = (case resolve fs p of Inl _ \<Rightarrow> None | Inr q \<Rightarrow> lookup fs q)"

text \<open>\<open>Path.mkdir\<close> with \<open>exist_ok=True\<close>: what exists has to be a directory, or a link to one.\<close>

definition mkdir :: "string list \<Rightarrow> (files, unit) py" where
  "mkdir p = (\<lambda>fs. case entry fs p of
     Inl e \<Rightarrow> (Inl e, fs)
   | Inr q \<Rightarrow>
       (case lookup fs q of
          None \<Rightarrow> (Inr (), put_node q Dir fs)
        | Some _ \<Rightarrow> if node_at fs p = Some Dir then (Inr (), fs) else (Inl FileExistsError, fs)))"

text \<open>The operations on an entry of a directory, which do not follow it.\<close>

definition symlink :: "string list \<Rightarrow> string list \<Rightarrow> (files, unit) py" where
  "symlink target p = (\<lambda>fs. case entry fs p of
     Inl e \<Rightarrow> (Inl e, fs)
   | Inr q \<Rightarrow>
       (case lookup fs q of
          Some _ \<Rightarrow> (Inl FileExistsError, fs)
        | None \<Rightarrow> (Inr (), put_node q (Link target) fs)))"

definition unlink :: "string list \<Rightarrow> (files, unit) py" where
  "unlink p = (\<lambda>fs. case entry fs p of
     Inl e \<Rightarrow> (Inl e, fs)
   | Inr q \<Rightarrow>
       (case lookup fs q of
          None \<Rightarrow> (Inl FileNotFoundError, fs)
        | Some Dir \<Rightarrow> (Inl OSError, fs)
        | Some _ \<Rightarrow> (Inr (), drop_node q fs)))"

text \<open>A file of the temporary directory is moved to \<open>p\<close>.\<close>

definition rename_temporary :: "bytes \<Rightarrow> string list \<Rightarrow> (files, unit) py" where
  "rename_temporary b p = (\<lambda>fs. case entry fs p of
     Inl e \<Rightarrow> (Inl e, fs)
   | Inr q \<Rightarrow>
       if \<not> same_device fs \<or> lookup fs q = Some Dir then (Inl OSError, fs) else (Inr (), put_node q (File b) fs))"

text \<open>The operations on what a path leads to.\<close>

definition iterdir :: "string list \<Rightarrow> (files, string list) py" where
  "iterdir p = (\<lambda>fs. case resolve fs p of
     Inl e \<Rightarrow> (Inl e, fs)
   | Inr d \<Rightarrow>
       (case lookup fs d of
          Some Dir \<Rightarrow> (Inr [last q. (q, n) \<leftarrow> nodes fs, q \<noteq> [] \<and> butlast q = d], fs)
        | None \<Rightarrow> (Inl FileNotFoundError, fs)
        | Some _ \<Rightarrow> (Inl NotADirectoryError, fs)))"

definition read_bytes :: "string list \<Rightarrow> (files, bytes) py" where
  "read_bytes p = (\<lambda>fs. case resolve fs p of
     Inl e \<Rightarrow> (Inl e, fs)
   | Inr q \<Rightarrow>
       (case lookup fs q of
          Some (File b) \<Rightarrow> (Inr b, fs)
        | None \<Rightarrow> (Inl FileNotFoundError, fs)
        | Some _ \<Rightarrow> (Inl OSError, fs)))"

definition is_file :: "files \<Rightarrow> string list \<Rightarrow> bool" where
  "is_file fs p = (case node_at fs p of Some (File _) \<Rightarrow> True | _ \<Rightarrow> False)"

text \<open>\<open>Path.touch\<close> of a path that exists.\<close>

definition touch :: "string list \<Rightarrow> (files, unit) py" where
  "touch p = py_modify (\<lambda>fs. fs\<lparr>touched := touched fs @ [p]\<rparr>)"

text \<open>\<open>try m except e: return False else: return True\<close>.\<close>

definition py_try :: "(files, unit) py \<Rightarrow> py_error \<Rightarrow> (files, bool) py" where
  "py_try m e = (\<lambda>fs. case m fs of
     (Inr _, fs') \<Rightarrow> (Inr True, fs')
   | (Inl e', fs') \<Rightarrow> if e' = e then (Inr False, fs') else (Inl e', fs'))"

subsection \<open>Links\<close>

text \<open>\<open>os.path.relpath\<close>: up from the common ancestor, then down.\<close>

fun relpath :: "string list \<Rightarrow> string list \<Rightarrow> string list" where
  "relpath (p # ps) (q # qs) = (if p = q then relpath ps qs else replicate (Suc (length qs)) ''..'' @ p # ps)"
| "relpath ps qs = replicate (length qs) ''..'' @ ps"

definition try_link :: "string list \<Rightarrow> string list \<Rightarrow> (files, bool) py" where
  "try_link from_path to_path =
     (let rel_path = relpath (butlast from_path) (butlast to_path)
      in py_try (symlink (rel_path @ [last from_path]) to_path) FileExistsError)"

definition try_unlink :: "string list \<Rightarrow> (files, bool) py" where
  "try_unlink p = py_try (unlink p) FileNotFoundError"

definition sync_statuses :: "(string \<times> status) list" where
  "sync_statuses = [(''.online'', ONLINE), (''.offline'', OFFLINE), (''.suspect'', SUSPECT),
     (''.available'', AVAILABLE), (''.unavailable'', UNAVAILABLE)]"

definition update_status :: "string list \<Rightarrow> string list \<Rightarrow> string \<Rightarrow> bool \<Rightarrow> (files, unit) py" where
  "update_status from_path status_path name has_status =
     (let to_path = status_path @ [name]
      in py_bind (if has_status then try_link from_path to_path else try_unlink to_path)
           (\<lambda>changed. if changed then touch status_path else py_return ()))"

subsection \<open>The tool\<close>

text \<open>The directories that \<open>main\<close> makes.\<close>

definition sync_setup :: "(files, unit) py" where
  "sync_setup = py_seq (mkdir []) (py_for sync_statuses (\<lambda>(sub_path, _). mkdir [sub_path]))"

text \<open>
  \<open>_read_local\<close>: the files of the local member become its metadata.
\<close>

fun read_files :: "string list \<Rightarrow> string list \<Rightarrow> (files, metadata) py" where
  "read_files p [] = py_return {}"
| "read_files p (name # names) =
     py_bind (read_bytes (p @ [name])) (\<lambda>b.
     py_bind (read_files p names) (\<lambda>md. py_return (insert (name, b) md)))"

definition read_local :: "int \<Rightarrow> (files \<times> members, unit) py" where
  "read_local now =
     py_bind (py_read (\<lambda>(fs, ms). ms_local ms)) (\<lambda>local.
     py_bind (py_on fst (\<lambda>fs s. (fs, snd s))
       (py_seq (mkdir [local])
       (py_bind (try_link [local] [''.local'']) (\<lambda>_.
        py_bind (iterdir [local]) (read_files [local]))))) (\<lambda>local_metadata.
     py_on snd (\<lambda>ms s. (fst s, ms)) (members_update now local None (Some local_metadata))))"

text \<open>
  \<open>_write_member\<close>. \<open>items\<close> are the fields of the metadata in the order of its dictionary. The
  name of the status raises AssertionError if it is not one.
\<close>

definition write_member :: "member \<Rightarrow> (string \<times> bytes) list \<Rightarrow> (files, unit) py" where
  "write_member member items =
     (if m_local member then py_return ()
      else
        (let member_path = [m_name member]
         in py_seq (mkdir member_path) (
            py_seq (py_for sync_statuses (\<lambda>(sub_path, st).
              update_status member_path [sub_path] (m_name member) (overlaps (m_status member) st))) (
            py_bind (iterdir member_path) (\<lambda>existing_names.
            py_seq (py_for (filter (\<lambda>n. n \<notin> fst ` set items) existing_names) (\<lambda>name.
              py_bind (try_unlink (member_path @ [name])) (\<lambda>_. py_return ()))) (
            py_seq (py_for items (\<lambda>(name, val). rename_temporary val (member_path @ [name]))) (
            py_seq (touch member_path) (
            py_bind (py_read (\<lambda>fs. is_file fs [''on-update''])) (\<lambda>hook.
            if hook
            then py_bind (py_lift (status_name (m_status member))) (\<lambda>st.
              py_modify (\<lambda>fs. fs\<lparr>hooks := hooks fs @ [(m_name member, st, member_path)]\<rparr>))
            else py_return ())))))))))"

definition cleanup :: "members \<Rightarrow> (files, unit) py" where
  "cleanup ms =
     py_seq (unlink [''.local'']) (
     py_seq (py_for (ms_non_local ms) (\<lambda>member.
       py_bind (iterdir [member]) (\<lambda>names. py_for names (\<lambda>name. unlink [member, name])))) (
     py_for sync_statuses (\<lambda>(sub_path, _).
       py_bind (iterdir [sub_path]) (\<lambda>names. py_for names (\<lambda>name. unlink [sub_path, name])))))"

end
