(* ===== verification/Swim_Sync_Props.thy ===== *)
theory Swim_Sync_Props
  imports Swim_Sync
begin

text \<open>
  What the mirrored directories hold, stated on \<open>lookup\<close>, and what the clean-up at the end
  does.
\<close>

subsection \<open>Runs of the file operations\<close>

named_theorems file_runs

lemma lookup_put [simp]: "lookup (put_node p n fs) = (lookup fs)(p \<mapsto> n)"
  by (simp add: lookup_def put_node_def update_conv')

lemma lookup_drop [simp]: "lookup (drop_node p fs) = (lookup fs)(p := None)"
  by (simp add: lookup_def drop_node_def delete_conv')

lemma lookup_log [simp]:
  "lookup (fs\<lparr>touched := t\<rparr>) = lookup fs" "lookup (fs\<lparr>hooks := h\<rparr>) = lookup fs"
  by (simp_all add: lookup_def fun_eq_iff)

lemma device_keeps [simp]:
  "same_device (put_node p n fs) = same_device fs" "same_device (drop_node p fs) = same_device fs"
  by (simp_all add: put_node_def drop_node_def)

text \<open>
  A statement runs normally and has this effect on the nodes; the rest of the state is the logs.
\<close>

definition effect :: "(files, 'a) py \<Rightarrow> files \<Rightarrow> 'a \<Rightarrow> (string list \<Rightarrow> node option) \<Rightarrow> bool" where
  "effect m fs x view \<longleftrightarrow>
     (\<exists>fs'. m fs = (Inr x, fs') \<and> lookup fs' = view \<and> same_device fs' = same_device fs)"

lemma effectI: "m fs = (Inr x, fs') \<Longrightarrow> lookup fs' = view \<Longrightarrow> same_device fs' = same_device fs \<Longrightarrow> effect m fs x view"
  by (auto simp: effect_def)

lemma effect_return: "effect (py_return x) fs x (lookup fs)"
  by (simp add: effect_def)

lemma effect_bind:
  assumes "effect m fs x view"
    and "\<And>fs'. lookup fs' = view \<Longrightarrow> same_device fs' = same_device fs \<Longrightarrow> effect (k x) fs' y view'"
  shows "effect (py_bind m k) fs y view'"
  using assms by (fastforce simp: effect_def py_bind_def)

lemma effect_seq:
  assumes "effect m fs () view"
    and "\<And>fs'. lookup fs' = view \<Longrightarrow> same_device fs' = same_device fs \<Longrightarrow> effect k fs' y view'"
  shows "effect (py_seq m k) fs y view'"
  unfolding py_seq_def using assms by (rule effect_bind)

lemma effect_touch: "effect (touch p) fs () (lookup fs)"
  by (simp add: effect_def touch_def)

text \<open>Paths of the tool: at most two components, the first of them a directory.\<close>

lemma entry_top: "lookup fs [] = Some Dir \<Longrightarrow> entry fs [c] = Inr [c]"
  by (simp add: entry_def)

lemma walk_dir: "component d \<Longrightarrow> lookup fs [d] = Some Dir \<Longrightarrow> walk n fs [] [d] = Inr [d]"
  by (simp add: component_def)

lemma entry_in: "component d \<Longrightarrow> lookup fs [d] = Some Dir \<Longrightarrow> entry fs [d, c] = Inr [d, c]"
  by (simp add: entry_def walk_dir del: walk.simps)

lemma resolve_entry: "entry fs p = Inr q \<Longrightarrow> (\<And>t. lookup fs q \<noteq> Some (Link t)) \<Longrightarrow> resolve fs p = Inr q"
  by (auto simp: resolve_def split: option.split node.split)

lemma sync_components: "d \<in> fst ` set sync_statuses \<Longrightarrow> component d"
  by (auto simp: sync_statuses_def component_def)

lemma effect_mkdir:
  assumes "entry fs p = Inr p" and "lookup fs p = Some Dir \<or> lookup fs p = None"
  shows "effect (mkdir p) fs () ((lookup fs)(p \<mapsto> Dir))"
proof (cases "lookup fs p")
  case None
  then show ?thesis using assms(1) by (simp add: effect_def mkdir_def)
next
  case (Some n)
  then have "node_at fs p = Some Dir"
    using assms resolve_entry [OF assms(1)] by (simp add: node_at_def)
  then show ?thesis using assms Some by (auto simp: effect_def mkdir_def fun_upd_idem)
qed

lemma effect_try_unlink:
  assumes "entry fs p = Inr p" and "lookup fs p \<noteq> Some Dir"
  shows "\<exists>b. effect (try_unlink p) fs b ((lookup fs)(p := None))"
  using assms
  by (cases "lookup fs p") (auto simp: effect_def try_unlink_def py_try_def unlink_def fun_upd_idem
      split: node.split)

lemma effect_iterdir:
  assumes "entry fs p = Inr p" and "lookup fs p = Some Dir"
  obtains names where "effect (iterdir p) fs names (lookup fs)"
    and "\<And>n. n \<in> set names \<longleftrightarrow> lookup fs (p @ [n]) \<noteq> None"
proof
  let ?names = "[last q. (q, n) \<leftarrow> nodes fs, q \<noteq> [] \<and> butlast q = p]"
  show "effect (iterdir p) fs ?names (lookup fs)"
    using assms resolve_entry [OF assms(1)] by (simp add: effect_def iterdir_def)
  show "n \<in> set ?names \<longleftrightarrow> lookup fs (p @ [n]) \<noteq> None" for n
  proof -
    have "n \<in> set ?names \<longleftrightarrow> (\<exists>q x. (q, x) \<in> set (nodes fs) \<and> q \<noteq> [] \<and> butlast q = p \<and> n = last q)"
      by auto
    also have "\<dots> \<longleftrightarrow> (\<exists>x. (p @ [n], x) \<in> set (nodes fs))"
      by (metis append_butlast_last_id butlast_snoc last_snoc snoc_eq_iff_butlast)
    also have "\<dots> \<longleftrightarrow> lookup fs (p @ [n]) \<noteq> None"
      by (force simp: lookup_def map_of_eq_None_iff)
    finally show ?thesis .
  qed
qed

text \<open>The link of a member in a status directory.\<close>

definition member_link :: "string \<Rightarrow> node" where
  "member_link name = Link [''..'', name]"

lemma effect_update_status:
  assumes "component d" and "lookup fs [d] = Some Dir"
    and "lookup fs [d, name] = None \<or> lookup fs [d, name] = Some (member_link name)"
  shows "effect (update_status [name] [d] name b) fs ()
    ((lookup fs)([d, name] := if b then Some (member_link name) else None))"
proof (cases b)
  case True
  note e = entry_in [OF assms(1,2)]
  show ?thesis
  proof (cases "lookup fs [d, name]")
    case None
    have "effect (try_link [name] [d, name]) fs True ((lookup fs)([d, name] \<mapsto> member_link name))"
      using None e by (simp add: effect_def try_link_def py_try_def symlink_def member_link_def)
    then have "effect (py_bind (try_link [name] [d, name]) (\<lambda>changed. if changed then touch [d] else py_return ()))
        fs () ((lookup fs)([d, name] \<mapsto> member_link name))"
      by (rule effect_bind) (auto intro: effect_touch simp: effect_def touch_def)
    with True None show ?thesis by (simp add: update_status_def)
  next
    case (Some n)
    then have "try_link [name] [d, name] fs = (Inr False, fs)"
      using e by (simp add: try_link_def py_try_def symlink_def)
    with True Some assms(3) show ?thesis
      by (simp add: effect_def update_status_def py_bind_def fun_upd_idem)
  qed
next
  case False
  have "lookup fs [d, name] \<noteq> Some Dir" using assms(3) by (auto simp: member_link_def)
  then obtain c where "effect (try_unlink [d, name]) fs c ((lookup fs)([d, name] := None))"
    using effect_try_unlink [OF entry_in [OF assms(1,2)]] by blast
  then have "effect (py_bind (try_unlink [d, name]) (\<lambda>changed. if changed then touch [d] else py_return ()))
      fs () ((lookup fs)([d, name] := None))"
    by (rule effect_bind) (simp add: effect_def touch_def)
  with False show ?thesis by (simp add: update_status_def)
qed

text \<open>The loops.\<close>

definition status_dir :: "string \<Rightarrow> files \<Rightarrow> string \<Rightarrow> bool" where
  "status_dir name fs d \<longleftrightarrow> component d \<and> lookup fs [d] = Some Dir \<and>
     (lookup fs [d, name] = None \<or> lookup fs [d, name] = Some (member_link name))"

lemma effect_statuses:
  assumes "distinct (map fst sts)" and "\<forall>d \<in> fst ` set sts. status_dir name fs d"
  shows "\<exists>view. effect (py_for sts (\<lambda>(d, st). update_status [name] [d] name (overlaps s st))) fs () view \<and>
    (\<forall>d st. (d, st) \<in> set sts \<longrightarrow> view [d, name] = (if overlaps s st then Some (member_link name) else None)) \<and>
    (\<forall>p. (\<forall>d \<in> fst ` set sts. p \<noteq> [d, name]) \<longrightarrow> view p = lookup fs p)"
  using assms
proof (induction sts arbitrary: fs)
  case Nil
  show ?case by (rule exI [of _ "lookup fs"]) (simp add: effect_def)
next
  case (Cons x sts)
  obtain d st where x: "x = (d, st)" by force
  define view1 where "view1 = (lookup fs)([d, name] := if overlaps s st then Some (member_link name) else None)"
  have 1: "effect (update_status [name] [d] name (overlaps s st)) fs () view1"
    unfolding view1_def using Cons.prems(2) x by (intro effect_update_status) (auto simp: status_dir_def)
  then obtain fs1 where fs1: "update_status [name] [d] name (overlaps s st) fs = (Inr (), fs1)"
    "lookup fs1 = view1" "same_device fs1 = same_device fs"
    by (auto simp: effect_def)
  have d: "distinct (map fst sts)" "d \<notin> fst ` set sts" using Cons.prems(1) x by auto
  have h: "\<forall>e \<in> fst ` set sts. status_dir name fs1 e"
    using Cons.prems(2) x d(2) by (auto simp: fs1(2) view1_def status_dir_def)
  obtain view where v: "effect (py_for sts (\<lambda>(d, st). update_status [name] [d] name (overlaps s st))) fs1 () view"
    "\<And>d st. (d, st) \<in> set sts \<Longrightarrow> view [d, name] = (if overlaps s st then Some (member_link name) else None)"
    "\<And>p. \<forall>d \<in> fst ` set sts. p \<noteq> [d, name] \<Longrightarrow> view p = lookup fs1 p"
    using Cons.IH [OF d(1) h] by blast
  show ?case
  proof (intro exI [of _ view] conjI allI impI)
    show "effect (py_for (x # sts) (\<lambda>(d, st). update_status [name] [d] name (overlaps s st))) fs () view"
      using v(1) fs1 by (auto simp: effect_def x py_seq_def py_bind_def)
    have "view [d, name] = view1 [d, name]" using v(3) [of "[d, name]"] d(2) fs1(2) by auto
    then have h: "view [d, name] = (if overlaps s st then Some (member_link name) else None)"
      by (simp add: view1_def)
    fix e t assume "(e, t) \<in> set (x # sts)"
    with h v(2) [of e t] x show "view [e, name] = (if overlaps s t then Some (member_link name) else None)" by auto
  next
    fix p assume "\<forall>e \<in> fst ` set (x # sts). p \<noteq> [e, name]"
    with v(3) [of p] show "view p = lookup fs p" by (auto simp: x fs1(2) view1_def)
  qed
qed

lemma effect_removals:
  assumes "component d" and "lookup fs [d] = Some Dir" and "\<forall>n \<in> set names. lookup fs [d, n] \<noteq> Some Dir"
  shows "effect (py_for names (\<lambda>name. py_bind (try_unlink ([d] @ [name])) (\<lambda>_. py_return ()))) fs ()
    (\<lambda>q. if \<exists>n \<in> set names. q = [d, n] then None else lookup fs q)"
  using assms(2,3)
proof (induction names arbitrary: fs)
  case Nil
  then show ?case by (simp add: effect_def)
next
  case (Cons n names)
  obtain b where b: "effect (try_unlink ([d] @ [n])) fs b ((lookup fs)([d, n] := None))"
    using effect_try_unlink [OF entry_in [OF assms(1) Cons.prems(1)], of n] Cons.prems(2) by auto
  have "effect (py_bind (try_unlink ([d] @ [n])) (\<lambda>_. py_return ())) fs () ((lookup fs)([d, n] := None))"
    using b by (rule effect_bind) (simp add: effect_def)
  then show ?case
    unfolding py_for.simps
  proof (rule effect_seq)
    fix fs' assume l: "lookup fs' = (lookup fs)([d, n] := None)"
    have "effect (py_for names (\<lambda>name. py_bind (try_unlink ([d] @ [name])) (\<lambda>_. py_return ()))) fs' ()
        (\<lambda>q. if \<exists>n \<in> set names. q = [d, n] then None else lookup fs' q)"
      by (rule Cons.IH) (use Cons.prems l in auto)
    moreover have "(\<lambda>q. if \<exists>n \<in> set names. q = [d, n] then None else lookup fs' q) =
        (\<lambda>q. if \<exists>m \<in> set (n # names). q = [d, m] then None else lookup fs q)"
      by (auto simp: l fun_eq_iff)
    ultimately show "effect (py_for names (\<lambda>name. py_bind (try_unlink ([d] @ [name])) (\<lambda>_. py_return ()))) fs' ()
        (\<lambda>q. if \<exists>m \<in> set (n # names). q = [d, m] then None else lookup fs q)" by simp
  qed
qed

text \<open>The files that a list of fields gives.\<close>

definition with_fields :: "string \<Rightarrow> (string \<times> bytes) list \<Rightarrow> (string list \<Rightarrow> node option) \<Rightarrow> string list \<Rightarrow> node option" where
  "with_fields d items view = (\<lambda>q. if \<exists>n b. (n, b) \<in> set items \<and> q = [d, n]
     then map_option File (map_of items (last q)) else view q)"

lemma with_fields_Cons:
  "n \<notin> fst ` set items \<Longrightarrow>
     with_fields d items (view([d, n] \<mapsto> File b)) = with_fields d ((n, b) # items) view"
  by (rule ext) (auto simp: with_fields_def rev_image_eqI)

lemma effect_writes:
  assumes "component d" and "distinct (map fst items)" and "same_device fs" and "lookup fs [d] = Some Dir"
    and "\<forall>n. lookup fs [d, n] \<noteq> Some Dir"
  shows "effect (py_for items (\<lambda>(name, val). rename_temporary val ([d] @ [name]))) fs () (with_fields d items (lookup fs))"
  using assms(2-)
proof (induction items arbitrary: fs)
  case Nil
  then show ?case by (simp add: effect_def with_fields_def)
next
  case (Cons x items)
  obtain n b where x: "x = (n, b)" by force
  have 1: "effect (rename_temporary b ([d] @ [n])) fs () ((lookup fs)([d, n] \<mapsto> File b))"
    using Cons.prems entry_in [OF assms(1) Cons.prems(3), of n] by (simp add: effect_def rename_temporary_def)
  have n: "n \<notin> fst ` set items" "distinct (map fst items)" using Cons.prems(1) by (auto simp: x)
  show ?case
    unfolding py_for.simps x prod.case using 1
  proof (rule effect_seq)
    fix fs' assume l: "lookup fs' = (lookup fs)([d, n] \<mapsto> File b)" and s: "same_device fs' = same_device fs"
    have "effect (py_for items (\<lambda>(name, val). rename_temporary val ([d] @ [name]))) fs' ()
        (with_fields d items (lookup fs'))"
      by (rule Cons.IH) (use Cons.prems n l s in auto)
    then show "effect (py_for items (\<lambda>(name, val). rename_temporary val ([d] @ [name]))) fs' ()
        (with_fields d ((n, b) # items) (lookup fs))"
      unfolding l with_fields_Cons [OF n(1)] .
  qed
qed

lemma effect_read_files:
  assumes "component d" and "lookup fs [d] = Some Dir"
  shows "\<forall>n \<in> set names. lookup fs [d, n] = Some (File (f n)) \<Longrightarrow>
     effect (read_files [d] names) fs ((\<lambda>n. (n, f n)) ` set names) (lookup fs)"
proof (induction names)
  case (Cons n names)
  then have "resolve fs [d, n] = Inr [d, n]" by (intro resolve_entry [OF entry_in [OF assms]]) simp
  then show ?case using Cons by (auto simp: effect_def read_bytes_def py_bind_def)
qed (simp add: effect_def)

subsection \<open>The mirrored directory\<close>

text \<open>
  The directories around the one of a member: its name can be that of a directory, the status
  directories exist and hold, under its name, its link or nothing; the member's own directory, if it
  exists, holds files and links only, and is none of theirs. The temporary directory is on the same
  file system.
\<close>

definition sync_layout :: "string \<Rightarrow> files \<Rightarrow> bool" where
  "sync_layout name fs \<longleftrightarrow> same_device fs \<and> component name \<and> lookup fs [] = Some Dir \<and>
     (\<forall>d \<in> fst ` set sync_statuses. status_dir name fs d \<and> d \<noteq> name) \<and>
     (lookup fs [name] = None \<or> lookup fs [name] = Some Dir) \<and> (\<forall>n. lookup fs [name, n] \<noteq> Some Dir)"

lemma sync_statuses_distinct: "distinct (map fst sync_statuses)"
  by (simp add: sync_statuses_def)

text \<open>The end of \<open>write_member\<close>: the touch and the hook.\<close>

definition member_hook :: "member \<Rightarrow> string list \<Rightarrow> (files, unit) py" where
  "member_hook m p = py_seq (touch p) (
      py_bind (py_read (\<lambda>fs. is_file fs [''on-update''])) (\<lambda>hook.
      if hook
      then py_bind (py_lift (status_name (m_status m))) (\<lambda>st.
        py_modify (\<lambda>fs. fs\<lparr>hooks := hooks fs @ [(m_name m, st, p)]\<rparr>))
      else py_return ()))"

lemma member_hook_keeps:
  "lookup (snd (member_hook m p fs)) = lookup fs" "same_device (snd (member_hook m p fs)) = same_device fs"
  "real_status (m_status m) \<Longrightarrow> fst (member_hook m p fs) = Inr ()"
proof -
  show "lookup (snd (member_hook m p fs)) = lookup fs" "same_device (snd (member_hook m p fs)) = same_device fs"
    by (cases "status_name (m_status m)"; simp add: member_hook_def touch_def py_seq_def py_bind_def)+
  show "fst (member_hook m p fs) = Inr ()" if "real_status (m_status m)"
  proof -
    have "\<exists>st. status_name (m_status m) = Inr st"
      using that by (auto simp: real_status_def status_name_def)
    then show ?thesis by (auto simp: member_hook_def touch_def py_seq_def py_bind_def)
  qed
qed

text \<open>The whole of \<open>write_member\<close>.\<close>

lemma write_member_mirrors:
  assumes "sync_layout (m_name m) fs" and "\<not> m_local m" and "distinct (map fst items)"
  shows "\<exists>fs'. snd (write_member m items fs) = fs' \<and>
    (real_status (m_status m) \<longrightarrow> write_member m items fs = (Inr (), fs')) \<and> sync_layout (m_name m) fs' \<and>
    lookup fs' [m_name m] = Some Dir \<and>
    (\<forall>n. lookup fs' [m_name m, n] = map_option File (map_of items n)) \<and>
    (\<forall>(d, st) \<in> set sync_statuses.
       lookup fs' [d, m_name m] = (if overlaps (m_status m) st then Some (member_link (m_name m)) else None)) \<and>
    (\<forall>p. p \<noteq> [m_name m] \<and> (\<forall>n. p \<noteq> [m_name m, n]) \<and> (\<forall>d \<in> fst ` set sync_statuses. p \<noteq> [d, m_name m]) \<longrightarrow>
       lookup fs' p = lookup fs p) \<and>
    fst (py_bind (iterdir [m_name m]) (read_files [m_name m]) fs') = Inr (set items)"
proof -
  let ?n = "m_name m" and ?dirs = "fst ` set sync_statuses"
  note lay = assms(1) [unfolded sync_layout_def]
  define v1 where "v1 = (lookup fs)([?n] \<mapsto> Dir)"
  obtain fs1 where fs1: "mkdir [?n] fs = (Inr (), fs1)" "lookup fs1 = v1" "same_device fs1"
    using effect_mkdir [OF entry_top, of fs ?n] lay by (auto simp: effect_def v1_def)
  have h1: "\<forall>d \<in> ?dirs. status_dir ?n fs1 d"
    using lay by (auto simp: fs1(2) v1_def status_dir_def)
  obtain v2 where e2: "effect (py_for sync_statuses (\<lambda>(d, st). update_status [?n] [d] ?n (overlaps (m_status m) st))) fs1 () v2"
    and v2: "\<And>d st. (d, st) \<in> set sync_statuses \<Longrightarrow>
        v2 [d, ?n] = (if overlaps (m_status m) st then Some (member_link ?n) else None)"
      "\<And>p. \<forall>d \<in> ?dirs. p \<noteq> [d, ?n] \<Longrightarrow> v2 p = lookup fs1 p"
    using effect_statuses [OF sync_statuses_distinct h1, of "m_status m"] by blast
  obtain fs2 where fs2: "py_for sync_statuses (\<lambda>(d, st). update_status [?n] [d] ?n (overlaps (m_status m) st)) fs1 = (Inr (), fs2)"
    "lookup fs2 = v2" "same_device fs2" using e2 fs1(3) by (auto simp: effect_def)
  have ne: "d \<noteq> ?n" if "d \<in> ?dirs" for d using lay that by blast
  have own2: "lookup fs2 [?n] = Some Dir" "lookup fs2 [?n, n] \<noteq> Some Dir" for n
  proof -
    show "lookup fs2 [?n] = Some Dir" using v2(2) [of "[?n]"] by (simp add: fs2(2) fs1(2) v1_def)
    have "v2 [?n, n] = lookup fs1 [?n, n]" using ne by (intro v2(2)) auto
    then show "lookup fs2 [?n, n] \<noteq> Some Dir" using lay by (simp add: fs2(2) fs1(2) v1_def)
  qed
  have top: "lookup fs2 [] = Some Dir" using v2(2) [of "[]"] lay by (simp add: fs2(2) fs1(2) v1_def)
  have comp: "component ?n" using lay by simp
  obtain names where names: "effect (iterdir [?n]) fs2 names (lookup fs2)"
    "\<And>n. n \<in> set names \<longleftrightarrow> lookup fs2 ([?n] @ [n]) \<noteq> None"
    by (rule effect_iterdir [OF entry_top [OF top] own2(1)]) auto
  then obtain fs3 where fs3: "iterdir [?n] fs2 = (Inr names, fs3)" "lookup fs3 = lookup fs2" "same_device fs3"
    using fs2(3) by (auto simp: effect_def)
  let ?old = "filter (\<lambda>n. n \<notin> fst ` set items) names"
  have "effect (py_for ?old (\<lambda>name. py_bind (try_unlink ([?n] @ [name])) (\<lambda>_. py_return ()))) fs3 ()
    (\<lambda>q. if \<exists>n \<in> set ?old. q = [?n, n] then None else lookup fs3 q)"
    by (rule effect_removals [OF comp]) (use own2 fs3(2) in auto)
  then obtain fs4 where fs4: "py_for ?old (\<lambda>name. py_bind (try_unlink ([?n] @ [name])) (\<lambda>_. py_return ())) fs3 = (Inr (), fs4)"
    "lookup fs4 = (\<lambda>q. if \<exists>n \<in> set ?old. q = [?n, n] then None else lookup fs3 q)" "same_device fs4"
    using fs3(3) by (auto simp: effect_def)
  have own4: "lookup fs4 [?n] = Some Dir" "\<forall>n. lookup fs4 [?n, n] \<noteq> Some Dir"
    using own2 by (auto simp: fs4(2) fs3(2))
  obtain fs5 where fs5: "py_for items (\<lambda>(name, val). rename_temporary val ([?n] @ [name])) fs4 = (Inr (), fs5)"
    "lookup fs5 = (\<lambda>q. if \<exists>n b. (n, b) \<in> set items \<and> q = [?n, n] then map_option File (map_of items (last q))
       else lookup fs4 q)" "same_device fs5"
    using effect_writes [OF comp assms(3) fs4(3) own4] fs4(3) by (auto simp: effect_def with_fields_def)
  define fs6 where "fs6 = snd (member_hook m [?n] fs5)"
  have fs6: "lookup fs6 = lookup fs5" "same_device fs6"
    using member_hook_keeps [of m "[?n]" fs5] fs5(3) by (simp_all add: fs6_def)
  have tail: "write_member m items fs = member_hook m [?n] fs5"
    using assms(2) fs1(1) fs2(1) fs3(1) fs4(1) fs5(1)
    by (simp add: write_member_def member_hook_def py_seq_Inr py_bind_Inr Let_def)
  have run: "snd (write_member m items fs) = fs6"
    "real_status (m_status m) \<longrightarrow> write_member m items fs = (Inr (), fs6)"
    using member_hook_keeps(3) [of m "[?n]" fs5] unfolding tail fs6_def by (simp_all add: prod_eq_iff)
  have own: "lookup fs6 [?n, n] = map_option File (map_of items n)" for n
  proof (cases "map_of items n")
    case None
    then have "n \<notin> fst ` set items" by (simp add: map_of_eq_None_iff)
    then have "lookup fs6 [?n, n] = lookup fs4 [?n, n]" by (auto simp: fs6(1) fs5(2) rev_image_eqI)
    also have "\<dots> = None" using names(2) [of n] \<open>n \<notin> fst ` set items\<close> by (auto simp: fs4(2) fs3(2))
    finally show ?thesis using None by simp
  next
    case (Some b)
    then have "(n, b) \<in> set items" by (rule map_of_SomeD)
    then show ?thesis by (auto simp: fs6(1) fs5(2))
  qed
  have other: "lookup fs6 p = v2 p" if "\<forall>n. p \<noteq> [?n, n]" for p
    using that by (simp add: fs6(1) fs5(2) fs4(2) fs3(2) fs2(2))
  have links: "lookup fs6 [d, ?n] = (if overlaps (m_status m) st then Some (member_link ?n) else None)"
    if "(d, st) \<in> set sync_statuses" for d st
  proof -
    have "d \<noteq> ?n" using ne that by force
    with other [of "[d, ?n]"] v2(1) [OF that] show ?thesis by simp
  qed
  have rest: "lookup fs6 p = lookup fs p"
    if "p \<noteq> [?n]" "\<forall>n. p \<noteq> [?n, n]" "\<forall>d \<in> ?dirs. p \<noteq> [d, ?n]" for p
    using that other [of p] v2(2) [of p] by (simp add: fs1(2) v1_def)
  have own6: "lookup fs6 [?n] = Some Dir" using other [of "[?n]"] v2(2) [of "[?n]"] by (simp add: fs1(2) v1_def)
  have top6: "lookup fs6 [] = Some Dir" using rest [of "[]"] lay by simp
  have layout: "sync_layout ?n fs6"
  proof -
    have "lookup fs6 [d] = Some Dir" if "d \<in> ?dirs" for d
      using rest [of "[d]"] ne [OF that] lay that by (auto simp: status_dir_def)
    then have "status_dir ?n fs6 d" if "d \<in> ?dirs" for d
      using links that sync_components [OF that] by (fastforce simp: status_dir_def)
    then show ?thesis using ne own6 top6 fs6(2) own comp by (auto simp: sync_layout_def)
  qed
  have "fst (py_bind (iterdir [?n]) (read_files [?n]) fs6) = Inr (set items)"
  proof -
    obtain ns where ns: "effect (iterdir [?n]) fs6 ns (lookup fs6)"
      "\<And>n. n \<in> set ns \<longleftrightarrow> lookup fs6 ([?n] @ [n]) \<noteq> None"
      by (rule effect_iterdir [OF entry_top [OF top6] own6]) auto
    then obtain fs7 where fs7: "iterdir [?n] fs6 = (Inr ns, fs7)" "lookup fs7 = lookup fs6" by (auto simp: effect_def)
    let ?f = "\<lambda>n. the (map_of items n)"
    have dom: "set ns = fst ` set items" using ns(2) own by (auto simp: map_of_eq_None_iff)
    have own7: "lookup fs7 [?n] = Some Dir" by (simp add: fs7(2) own6)
    have "effect (read_files [?n] ns) fs7 ((\<lambda>n. (n, ?f n)) ` set ns) (lookup fs7)"
    proof (rule effect_read_files [OF comp own7], rule ballI)
      fix n assume "n \<in> set ns"
      then obtain b where "map_of items n = Some b" using dom by (metis map_of_eq_None_iff not_None_eq)
      then show "lookup fs7 [?n, n] = Some (File (?f n))" using own [of n] by (simp add: fs7(2))
    qed
    moreover have "(\<lambda>n. (n, ?f n)) ` set ns = set items"
      unfolding dom image_image using assms(3) by (force simp: image_iff)
    ultimately show ?thesis using fs7(1) by (auto simp: py_bind_def effect_def)
  qed
  with run layout own6 own links rest show ?thesis by (intro exI [of _ fs6]) auto
qed

lemma member_link_resolves:
  assumes "sync_layout n fs" and "lookup fs [n] = Some Dir" and "d \<in> fst ` set sync_statuses"
    and "lookup fs [d, n] = Some (member_link n)"
  shows "resolve fs [d, n] = Inr [n]"
proof -
  have "component d" "lookup fs [d] = Some Dir" "component n"
    using assms(1,3) by (auto simp: sync_layout_def status_dir_def)
  then show ?thesis
    using entry_in [of d fs n] assms(2,4)
    by (simp add: resolve_def member_link_def component_def max_links_def)
qed

text \<open>
  C31: The mirror of a member. After a notification of a member its directory holds exactly the fields
  of its metadata, as files of their contents, and in each status directory there is, under its name,
  a link that leads to its directory if the status matches, and nothing if not; nothing else changed.
  Reading the directory back, as the owner of the metadata reads its own, gives the same metadata. The
  temporary files must be on the same file system, and there must have been nothing but such links
  under the name of the member in the status directories.
\<close>

theorem sync_mirrors_member:
  assumes "sync_layout (m_name m) fs" and "\<not> m_local m" and "real_status (m_status m)"
    and "distinct (map fst items)"
  shows "\<exists>fs'. write_member m items fs = (Inr (), fs') \<and> sync_layout (m_name m) fs' \<and>
    (\<forall>n. lookup fs' [m_name m, n] = map_option File (map_of items n)) \<and>
    (\<forall>(d, st) \<in> set sync_statuses.
       if overlaps (m_status m) st
       then lookup fs' [d, m_name m] = Some (Link [''..'', m_name m]) \<and> resolve fs' [d, m_name m] = Inr [m_name m]
       else lookup fs' [d, m_name m] = None) \<and>
    (\<forall>p. p \<noteq> [m_name m] \<and> (\<forall>n. p \<noteq> [m_name m, n]) \<and> (\<forall>d \<in> fst ` set sync_statuses. p \<noteq> [d, m_name m]) \<longrightarrow> lookup fs' p = lookup fs p) \<and>
    fst (py_bind (iterdir [m_name m]) (read_files [m_name m]) fs') = Inr (set items)"
proof -
  obtain fs' where w: "write_member m items fs = (Inr (), fs')" "sync_layout (m_name m) fs'" "lookup fs' [m_name m] = Some Dir"
    and files: "\<forall>n. lookup fs' [m_name m, n] = map_option File (map_of items n)"
    and links: "\<forall>(d, st) \<in> set sync_statuses.
       lookup fs' [d, m_name m] = (if overlaps (m_status m) st then Some (member_link (m_name m)) else None)"
    and rest: "\<forall>p. p \<noteq> [m_name m] \<and> (\<forall>n. p \<noteq> [m_name m, n]) \<and> (\<forall>d \<in> fst ` set sync_statuses. p \<noteq> [d, m_name m]) \<longrightarrow>
       lookup fs' p = lookup fs p" "fst (py_bind (iterdir [m_name m]) (read_files [m_name m]) fs') = Inr (set items)"
    using write_member_mirrors [OF assms(1,2,4)] assms(3) by (elim exE conjE) simp
  have "if overlaps (m_status m) st
       then lookup fs' [d, m_name m] = Some (Link [''..'', m_name m]) \<and> resolve fs' [d, m_name m] = Inr [m_name m]
       else lookup fs' [d, m_name m] = None" if "(d, st) \<in> set sync_statuses" for d st
  proof -
    have l: "lookup fs' [d, m_name m] = (if overlaps (m_status m) st then Some (member_link (m_name m)) else None)"
      using links that by blast
    have "d \<in> fst ` set sync_statuses" using that by force
    from member_link_resolves [OF w(2,3) this] l show ?thesis by (simp add: member_link_def)
  qed
  with w(1,2) files rest show ?thesis by blast
qed

text \<open>A base directory as \<open>main\<close> makes it, with the link to the local member.\<close>

definition demo_files :: files where
  "demo_files = \<lparr>nodes = [([], Dir), ([''.online''], Dir), ([''.offline''], Dir), ([''.suspect''], Dir),
     ([''.available''], Dir), ([''.unavailable''], Dir), ([''me''], Dir), ([''.local''], Link [''me''])],
     touched = [], hooks = [], same_device = True\<rparr>"

lemma demo_layout: "sync_layout ''b'' demo_files"
proof -
  have "status_dir ''b'' demo_files d" if "d \<in> fst ` set sync_statuses" for d
    using that sync_components [OF that]
    by (auto simp: status_dir_def demo_files_def lookup_def sync_statuses_def)
  then show ?thesis
    by (auto simp: sync_layout_def component_def) (auto simp: demo_files_def lookup_def sync_statuses_def)
qed

theorem sync_mirrors_member_witness:
  "\<exists>fs'. write_member (member_init ''b'' False [] 0) [(''k'', [1])] demo_files = (Inr (), fs') \<and>
     lookup fs' [''b'', ''k''] = Some (File [1]) \<and> resolve fs' [''.offline'', ''b''] = Inr [''b''] \<and>
     lookup fs' [''.online'', ''b''] = None"
proof -
  have n: "m_name (member_init ''b'' False [] 0) = ''b''" "\<not> m_local (member_init ''b'' False [] 0)"
    and s: "m_status (member_init ''b'' False [] 0) = OFFLINE"
    by (simp_all add: member_init_def)
  have l: "sync_layout ''b'' demo_files" by (rule demo_layout)
  have o: "overlaps OFFLINE OFFLINE" "\<not> overlaps OFFLINE ONLINE"
    by (simp_all add: overlaps_def status_defs)
  show ?thesis
    using sync_mirrors_member [of "member_init ''b'' False [] 0" demo_files "[(''k'', [1])]"] n s l o
    by (auto simp: real_status_def sync_statuses_def)
qed

subsection \<open>The clean-up\<close>

text \<open>
  A statement that removes files below the directory of one member only, and fails at most because
  something does not exist.
\<close>

definition only_removes :: "string \<Rightarrow> (files, unit) py \<Rightarrow> files \<Rightarrow> bool" where
  "only_removes d m fs \<longleftrightarrow> (fst (m fs) = Inr () \<or> fst (m fs) = Inl FileNotFoundError) \<and>
     (\<forall>q. lookup (snd (m fs)) q \<noteq> lookup fs q \<longrightarrow> lookup (snd (m fs)) q = None \<and> (\<exists>k. q = [d, k]))"

lemma unlinks_only_remove:
  assumes "component d"
  shows "lookup fs [d] = Some Dir \<Longrightarrow> \<forall>k. lookup fs [d, k] \<noteq> Some Dir \<Longrightarrow>
     only_removes d (py_for names (\<lambda>name. unlink [d, name])) fs"
proof (induction names arbitrary: fs)
  case Nil
  then show ?case by (simp add: only_removes_def)
next
  case (Cons n names)
  note e = entry_in [OF assms Cons.prems(1), of n]
  show ?case
  proof (cases "lookup fs [d, n]")
    case None
    then have "py_for (n # names) (\<lambda>name. unlink [d, name]) fs = (Inl FileNotFoundError, fs)"
      using e by (simp add: unlink_def py_seq_def py_bind_def)
    then show ?thesis by (simp add: only_removes_def)
  next
    case (Some x)
    let ?fs = "drop_node [d, n] fs"
    have "unlink [d, n] fs = (Inr (), ?fs)" using Some e Cons.prems by (auto simp: unlink_def split: node.split)
    then have e: "py_for (n # names) (\<lambda>name. unlink [d, name]) fs = py_for names (\<lambda>name. unlink [d, name]) ?fs"
      by (simp add: py_seq_Inr)
    have "only_removes d (py_for names (\<lambda>name. unlink [d, name])) ?fs"
      by (rule Cons.IH) (use Cons.prems in simp_all)
    then show ?thesis unfolding only_removes_def e by (auto split: if_splits)
  qed
qed

text \<open>The directory of a member, or nothing, in the base directory.\<close>

definition member_dir :: "files \<Rightarrow> string \<Rightarrow> bool" where
  "member_dir fs d \<longleftrightarrow> component d \<and> (lookup fs [d] = None \<or> lookup fs [d] = Some Dir)"

lemma clear_only_removes:
  assumes "lookup fs [] = Some Dir" and "member_dir fs d" and "\<forall>k. lookup fs [d, k] \<noteq> Some Dir"
  shows "only_removes d (py_bind (iterdir [d]) (\<lambda>names. py_for names (\<lambda>name. unlink [d, name]))) fs"
    and "lookup fs [d] = None \<Longrightarrow>
      fst (py_bind (iterdir [d]) (\<lambda>names. py_for names (\<lambda>name. unlink [d, name])) fs) = Inl FileNotFoundError"
proof -
  have r: "resolve fs [d] = Inr [d]"
    using assms(2) by (intro resolve_entry [OF entry_top [OF assms(1)]]) (auto simp: member_dir_def)
  show none: "fst (py_bind (iterdir [d]) (\<lambda>names. py_for names (\<lambda>name. unlink [d, name])) fs) = Inl FileNotFoundError"
    if "lookup fs [d] = None"
    using that r by (simp add: iterdir_def py_bind_def)
  show "only_removes d (py_bind (iterdir [d]) (\<lambda>names. py_for names (\<lambda>name. unlink [d, name]))) fs"
  proof (cases "lookup fs [d]")
    case None
    then show ?thesis using r by (simp add: only_removes_def iterdir_def py_bind_def)
  next
    case (Some n)
    then have d: "component d" "lookup fs [d] = Some Dir" using assms(2) by (auto simp: member_dir_def)
    from unlinks_only_remove [OF d assms(3)] show ?thesis
      using r d(2) by (simp add: only_removes_def iterdir_def py_bind_def)
  qed
qed

lemma clear_members:
  assumes "n \<in> set ns" and "lookup fs [n] = None" and "\<forall>d k. lookup fs [d, k] \<noteq> Some Dir"
    and "lookup fs [] = Some Dir" and "\<forall>d \<in> set ns. member_dir fs d"
  shows "\<exists>fs'. py_for ns (\<lambda>d. py_bind (iterdir [d]) (\<lambda>names. py_for names (\<lambda>name. unlink [d, name]))) fs =
      (Inl FileNotFoundError, fs') \<and>
    (\<forall>q. lookup fs' q \<noteq> lookup fs q \<longrightarrow> (\<exists>d \<in> set ns. \<exists>k. q = [d, k]))"
  using assms
proof (induction ns arbitrary: fs)
  case (Cons d ns)
  let ?clear = "\<lambda>d. py_bind (iterdir [d]) (\<lambda>names. py_for names (\<lambda>name. unlink [d, name]))"
  have c: "only_removes d (?clear d) fs"
    using clear_only_removes(1) [OF Cons.prems(4), of d] Cons.prems(3,5) by auto
  show ?case
  proof (cases "fst (?clear d fs) = Inr ()")
    case False
    with c have "?clear d fs = (Inl FileNotFoundError, snd (?clear d fs))"
      by (auto simp: only_removes_def prod_eq_iff)
    with c show ?thesis by (auto simp: only_removes_def py_seq_Inl)
  next
    case True
    let ?fs = "snd (?clear d fs)"
    have r: "?clear d fs = (Inr (), ?fs)" using True by (simp add: prod_eq_iff)
    have "n \<noteq> d"
      using clear_only_removes(2) [OF Cons.prems(4), of d] Cons.prems(2,3,5) True by auto
    then have "n \<in> set ns" using Cons.prems(1) by simp
    moreover have same: "lookup ?fs p = lookup fs p" if "\<And>k. p \<noteq> [d, k]" for p
      using c that unfolding only_removes_def by metis
    then have "lookup ?fs [n] = None" "lookup ?fs [] = Some Dir" using Cons.prems(2,4) by simp_all
    moreover have "\<forall>e k. lookup ?fs [e, k] \<noteq> Some Dir"
      using c Cons.prems(3) unfolding only_removes_def by (metis option.distinct(1))
    moreover have "\<forall>e \<in> set ns. member_dir ?fs e"
      using same Cons.prems(5) by (simp add: member_dir_def)
    ultimately obtain fs' where "py_for ns ?clear ?fs = (Inl FileNotFoundError, fs')"
      "\<forall>q. lookup fs' q \<noteq> lookup ?fs q \<longrightarrow> (\<exists>d \<in> set ns. \<exists>k. q = [d, k])"
      using Cons.IH [of ?fs] by blast
    note f = this
    have "py_for (d # ns) ?clear fs = (Inl FileNotFoundError, fs')" using r f(1) by (simp add: py_seq_Inr)
    moreover have "\<exists>e \<in> set (d # ns). \<exists>k. q = [e, k]" if "lookup fs' q \<noteq> lookup fs q" for q
    proof (cases "lookup fs' q = lookup ?fs q")
      case True
      with that c show ?thesis unfolding only_removes_def by (metis list.set_intros(1))
    next
      case False
      with f(2) show ?thesis by (meson list.set_intros(2))
    qed
    ultimately show ?thesis by blast
  qed
qed simp

text \<open>
  C40: The clean-up at the end of the tool fails whenever some member has no directory, as is the case
  until the first notification of that member: the tool ends with FileNotFoundError instead of its
  exit code, and the links in the status directories are left behind. Where a member has something of
  its name it is taken to be a directory.
\<close>

theorem cleanup_without_directory:
  assumes "n \<in> set (ms_non_local ms)" and "lookup fs [n] = None"
    and "lookup fs [''.local''] = Some (Link t)" and "\<forall>d k. lookup fs [d, k] \<noteq> Some Dir"
    and "lookup fs [] = Some Dir" and "\<forall>d \<in> set (ms_non_local ms). member_dir fs d"
  shows "\<exists>fs'. cleanup ms fs = (Inl FileNotFoundError, fs') \<and>
    (\<forall>(d, st) \<in> set sync_statuses. d \<notin> set (ms_non_local ms) \<longrightarrow>
       (\<forall>k. lookup fs' [d, k] = lookup fs [d, k]))"
proof -
  let ?fs = "drop_node [''.local''] fs"
  have u: "unlink [''.local''] fs = (Inr (), ?fs)" using assms(3) entry_top [OF assms(5)] by (simp add: unlink_def)
  have f: "lookup ?fs [n] = None" "\<forall>d k. lookup ?fs [d, k] \<noteq> Some Dir" "lookup ?fs [] = Some Dir"
    "\<forall>d \<in> set (ms_non_local ms). member_dir ?fs d"
    using assms(2,4,5,6) by (auto simp: member_dir_def)
  obtain fs' where "py_for (ms_non_local ms) (\<lambda>d. py_bind (iterdir [d]) (\<lambda>names. py_for names (\<lambda>name. unlink [d, name]))) ?fs =
      (Inl FileNotFoundError, fs')"
    "\<forall>q. lookup fs' q \<noteq> lookup ?fs q \<longrightarrow> (\<exists>d \<in> set (ms_non_local ms). \<exists>k. q = [d, k])"
    using clear_members [OF assms(1) f] by blast
  note r = this
  have "cleanup ms fs = (Inl FileNotFoundError, fs')"
    using r(1) by (simp add: cleanup_def py_seq_def py_bind_def u)
  moreover have "lookup fs' [d, k] = lookup fs [d, k]" if "d \<notin> set (ms_non_local ms)" for d k
    using r(2) [rule_format, of "[d, k]"] that by auto
  ultimately show ?thesis by blast
qed

theorem cleanup_without_directory_witness:
  "\<exists>fs'. cleanup (snd (members_init (\<lambda>_. []) 0 ''me'' [''b''] {})) demo_files = (Inl FileNotFoundError, fs')"
proof -
  have n: "ms_non_local (snd (members_init (\<lambda>_. []) 0 ''me'' [''b''] {})) = [''b'']"
    by code_simp
  have d: "member_dir demo_files ''b''" by (auto simp: member_dir_def component_def demo_files_def lookup_def)
  show ?thesis
    using cleanup_without_directory [of "''b''" "snd (members_init (\<lambda>_. []) 0 ''me'' [''b''] {})" demo_files "[''me'']"]
      n d by (auto simp: demo_files_def lookup_def split: if_splits)
qed

end
