(* ===== verification/Swim_Demo.thy ===== *)
theory Swim_Demo
  imports Swim_Members_Gossip Swim_Transport "HOL-Library.Product_Lexorder"
begin

text \<open>
  The demo program: \<open>swimprotocol/demo/changes.py\<close>, which changes a metadata field of the local
  member at random, and \<open>swimprotocol/demo/screen.py\<close>, which shows the members and puts what is
  typed into another field. The screen runs in a thread of its own; what it does with the
  members is one step here. Drawing and colours of the terminal are the list of what is written where;
  \<open>decode\<close> is the decoder of \<open>bytes\<close>, with \<open>None\<close> for UnicodeDecodeError.
\<close>

text \<open>\<open>members.local.metadata\<close> as a dictionary, and \<open>dict(md) | {k: v}\<close>.\<close>

definition local_dict :: "members \<Rightarrow> metadata option" where
  "local_dict ms = (case map_of (ms_members ms) (ms_local ms) of
     None \<Rightarrow> None | Some m \<Rightarrow> m_metadata_dict m)"

definition with_field :: "string \<Rightarrow> bytes \<Rightarrow> metadata \<Rightarrow> metadata" where
  "with_field k v md = insert (k, v) (Set.filter (\<lambda>x. fst x \<noteq> k) md)"

definition set_field :: "int \<Rightarrow> string \<Rightarrow> bytes \<Rightarrow> (members, unit) py" where
  "set_field now k v =
     py_bind (py_read (\<lambda>ms. (ms_local ms, case local_dict ms of None \<Rightarrow> {} | Some md \<Rightarrow> md)))
       (\<lambda>(local, md). members_update now local None (Some (with_field k v md)))"

subsection \<open>Changes\<close>

text \<open>
  \<open>_randomize_local\<close> up to its loop, and one turn of the loop with the token drawn.
  \<open>change_metadata\<close> starts it just in case an interval is given.
\<close>

definition randomize_begin :: "(members, unit) py" where
  "randomize_begin = py_bind (py_read local_dict)
     (\<lambda>metadata. py_assert (metadata \<noteq> None \<and> metadata \<noteq> Some {}))"

definition randomize_turn :: "int \<Rightarrow> bytes \<Rightarrow> (members, unit) py" where
  "randomize_turn now new_token = set_field now ''token'' new_token"

definition change_metadata :: "rat option \<Rightarrow> (members, unit) py" where
  "change_metadata interval = (case interval of None \<Rightarrow> py_return () | Some _ \<Rightarrow> randomize_begin)"

subsection \<open>Typing\<close>

text \<open>
  \<open>string.printable\<close> are the characters from space to tilde and five control characters.
\<close>

definition is_printable :: "int \<Rightarrow> bool" where
  "is_printable ch \<longleftrightarrow> ch \<ge> 0 \<and> ch < 256 \<and>
     (32 \<le> ch \<and> ch \<le> 126 \<or> ch \<in> {9, 10, 13, 11, 12}) \<and> ch \<notin> {9, 13, 10, 11, 12}"

text \<open>\<open>xs[-n:]\<close>.\<close>

definition last_n :: "nat \<Rightarrow> 'a list \<Rightarrow> 'a list" where
  "last_n n xs = drop (length xs - n) xs"

text \<open>One key that \<open>getch\<close> returns; the state is \<open>typed\<close> and the members.\<close>

definition type_key :: "int \<times> int \<Rightarrow> (bytes \<times> members, unit) py" where
  "type_key nk = (\<lambda>(typed, ms).
     case nk of (now, ch) \<Rightarrow>
       if is_printable ch then
         (let typed = last_n 30 (typed @ [word_of_int ch])
          in case set_field now ''typed'' typed ms of (r, ms') \<Rightarrow> (r, (typed, ms')))
       else (Inr (), (typed, ms)))"

subsection \<open>Drawing\<close>

datatype draw = Move int int | Addstr string

text \<open>\<open>bytes.hex\<close>: two digits for each byte.\<close>

definition bytes_hex :: "bytes \<Rightarrow> string" where
  "bytes_hex val = concat (map (\<lambda>b. [hex_digit (unat b div 16), hex_digit (unat b mod 16)]) val)"

definition decode_value :: "(bytes \<Rightarrow> string option) \<Rightarrow> bytes \<Rightarrow> string" where
  "decode_value decode val = (case decode val of Some s \<Rightarrow> s | None \<Rightarrow> bytes_hex val)"

definition draw_metadata :: "(bytes \<Rightarrow> string option) \<Rightarrow> member \<Rightarrow> draw list" where
  "draw_metadata decode m = (case m_metadata_dict m of
     None \<Rightarrow> [Addstr '' unknown'']
   | Some metadata \<Rightarrow> concat (map (\<lambda>(key, v).
       [Addstr '' '', Addstr key, Addstr ''='', Addstr (decode_value decode v)]) (sorted_list_of_set metadata)))"

definition draw_member :: "(bytes \<Rightarrow> string option) \<Rightarrow> int \<Rightarrow> nat \<times> member \<Rightarrow> py_error + draw list" where
  "draw_member decode cols im = (case im of (i, m) \<Rightarrow>
     map_sum id (\<lambda>st.
       [Move (int i) 4, Addstr (m_name m), Addstr '' is '', Addstr st,
        Move (int i) 30, Addstr (CHR '' '' # show_int (m_clock m)), Move (int i) 38] @
       draw_metadata decode m @
       (if m_local m
        then [Move (int i) 0, Addstr ''>>> '', Move (int i) (cols - 4), Addstr '' <<<''] else []))
     (status_name (m_status m)))"

fun draw_all :: "('a \<Rightarrow> py_error + draw list) \<Rightarrow> 'a list \<Rightarrow> py_error + draw list" where
  "draw_all f [] = Inr []"
| "draw_all f (x # xs) = result_bind (f x) (\<lambda>d. map_sum id (\<lambda>ds. d @ ds) (draw_all f xs))"

definition render :: "(bytes \<Rightarrow> string option) \<Rightarrow> int \<Rightarrow> int \<Rightarrow> members \<Rightarrow> (py_error + draw list) \<times> members" where
  "render decode lines cols ms =
     (let sorted_members = map (\<lambda>n. the (map_of (ms_members ms) n)) (sort (map fst (ms_members ms)))
      in case draw_all (draw_member decode cols) (enumerate 0 sorted_members) of
           Inl e \<Rightarrow> (Inl e, ms)
         | Inr ds \<Rightarrow>
             (case get_status AVAILABLE ms of (shuffle, ms') \<Rightarrow>
                (Inr (ds @ [Move (lines - 1) (cols - 18), Addstr '' Available: '',
                   Addstr (show_int (int (shuffle_len shuffle) + 1))]), ms')))"

subsection \<open>Properties\<close>

lemma last_n_snoc: "last_n (Suc n) (last_n (Suc n) xs @ [x]) = last_n (Suc n) (xs @ [x])"
proof (cases "Suc n \<le> length xs")
  case True
  then have "Suc (length xs - Suc n) = length xs - n" by simp
  with True show ?thesis by (simp add: last_n_def)
next
  case False
  then show ?thesis by (simp add: last_n_def)
qed

lemma length_last_n: "length (last_n n xs) \<le> n"
  by (simp add: last_n_def)

lemma set_field_run:
  assumes "members_inv ms" and "local_dict ms = Some md"
  shows "\<exists>ms'. set_field now k v ms = (Inr (), ms') \<and> members_inv ms' \<and>
    local_dict ms' = Some (with_field k v md)"
proof -
  let ?l = "ms_local ms" and ?md = "with_field k v md"
  obtain m where m: "map_of (ms_members ms) ?l = Some m" "m_metadata_dict m = Some md"
    using assms(2) by (auto simp: local_dict_def split: option.splits)
  have run: "set_field now k v ms = members_update now ?l None (Some ?md) ms"
    using assms(2) by (simp add: set_field_def py_bind_def)
  show ?thesis
  proof (cases "changes None (Some ?md) m")
    case False
    then have "?md = m_metadata m" using m(2) by (simp add: changes_def)
    then have "?md = md" using settled_metadata [OF members_invD(3) [OF assms(1) m(1)] m(2)] by simp
    moreover have "members_update now ?l None (Some ?md) ms = (Inr (), ms)"
      using False assms(1) m(1) by (simp add: members_update_common update_unchanged)
    ultimately show ?thesis using run assms by simp
  next
    case True
    let ?m = "changed now None (ms_next_clock ms) (ms_next_clock ms) None (Some ?md) m"
    have "accepts None (ms_next_clock ms) m"
      using members_invD(5) [OF assms(1) m(1)] by (simp add: accepts_def)
    with True assms(1) m(1) have u: "members_update now ?l None (Some ?md) ms = (Inr (), update_changed ?l ?m ms)"
      by (simp add: members_update_common update_changes)
    have "members_inv (snd (members_update now ?l None (Some ?md) ms))"
      unfolding members_update_common
      using update_inv [OF assms(1) m(1), of None now None "ms_next_clock ms" "Some ?md"] by auto
    moreover have "local_dict (update_changed ?l ?m ms) = Some ?md"
      by (simp add: local_dict_def update_changed_fields [OF members_invD(9) [OF assms(1)]] update_conv' changed_def)
    ultimately show ?thesis using run u by simp
  qed
qed

text \<open>The effect of a sequence of keys, each with its time.\<close>

lemma type_keys_run:
  assumes "members_inv ms" and "local_dict ms = Some md"
  shows "\<exists>ms'. py_for keys type_key (typed, ms) =
      (Inr (), (fold (\<lambda>ch t. last_n 30 (t @ [word_of_int ch])) (filter is_printable (map snd keys)) typed, ms')) \<and>
    members_inv ms' \<and>
    local_dict ms' = Some (if filter is_printable (map snd keys) = [] then md
      else with_field ''typed'' (fold (\<lambda>ch t. last_n 30 (t @ [word_of_int ch])) (filter is_printable (map snd keys)) typed) md)"
  using assms
proof (induction keys arbitrary: typed ms md)
  case Nil
  then show ?case by simp
next
  case (Cons k keys)
  obtain now ch where k: "k = (now, ch)" by force
  show ?case
  proof (cases "is_printable ch")
    case False
    then have "type_key k (typed, ms) = (Inr (), (typed, ms))" by (simp add: type_key_def k)
    then have r: "py_for (k # keys) type_key (typed, ms) = py_for keys type_key (typed, ms)"
      by (simp add: py_seq_Inr)
    have e: "filter is_printable (map snd (k # keys)) = filter is_printable (map snd keys)"
      using False k by simp
    show ?thesis unfolding r e by (rule Cons.IH [OF Cons.prems])
  next
    case True
    let ?t = "last_n 30 (typed @ [word_of_int ch])"
    obtain ms1 where ms1: "set_field now ''typed'' ?t ms = (Inr (), ms1)" "members_inv ms1"
      "local_dict ms1 = Some (with_field ''typed'' ?t md)"
      using set_field_run [OF Cons.prems] by blast
    have "type_key k (typed, ms) = (Inr (), (?t, ms1))"
      using True ms1(1) by (simp add: type_key_def k)
    then have r: "py_for (k # keys) type_key (typed, ms) = py_for keys type_key (?t, ms1)"
      by (simp add: py_seq_Inr)
    have e: "filter is_printable (map snd (k # keys)) = ch # filter is_printable (map snd keys)"
      using True k by simp
    have w: "with_field ''typed'' u (with_field ''typed'' v md) = with_field ''typed'' u md" for u v
      by (auto simp: with_field_def)
    show ?thesis
      using Cons.IH [OF ms1(2,3), of ?t] unfolding r e w by (auto split: if_splits)
  qed
qed

lemma last_n_Nil [simp]: "last_n n [] = []"
  by (simp add: last_n_def)

lemma fold_last_n:
  "fold (\<lambda>ch t. last_n (Suc n) (t @ [f ch])) chs (last_n (Suc n) xs) = last_n (Suc n) (xs @ map f chs)"
  by (induction chs arbitrary: xs) (simp_all add: last_n_snoc)

text \<open>
  What is typed ends up in the metadata. After any keys, from a state in which nothing was typed yet,
  the typed text is made of the last 30 of the printable ones, which are the characters from space to
  tilde; no update raises, and if there was a printable key the field \<open>typed\<close> of the local member
  holds exactly this text while its other fields are unchanged.
\<close>

theorem typed_text:
  assumes "members_reachable ms" and "local_dict ms = Some md"
  shows "\<exists>typed ms' md'. py_for keys type_key ([], ms) = (Inr (), (typed, ms')) \<and>
    typed = last_n 30 (map word_of_int (filter (\<lambda>ch. 32 \<le> ch \<and> ch \<le> 126) (map snd keys))) \<and>
    length typed \<le> 30 \<and> local_dict ms' = Some md' \<and>
    (\<forall>k v. k \<noteq> ''typed'' \<longrightarrow> ((k, v) \<in> md') = ((k, v) \<in> md)) \<and>
    (typed \<noteq> [] \<longrightarrow> (\<forall>v. ((''typed'', v) \<in> md') = (v = typed)))"
proof -
  have p: "is_printable = (\<lambda>ch. 32 \<le> ch \<and> ch \<le> 126)" by (auto simp: is_printable_def fun_eq_iff)
  let ?chs = "filter is_printable (map snd keys)"
  have f: "fold (\<lambda>ch t. last_n 30 (t @ [word_of_int ch])) ?chs [] = last_n 30 (map word_of_int ?chs)"
    using fold_last_n [of 29 word_of_int ?chs "[]"] by (simp add: last_n_def)
  obtain ms' where r: "py_for keys type_key ([], ms) = (Inr (), (last_n 30 (map word_of_int ?chs), ms'))"
    "local_dict ms' = Some (if ?chs = [] then md else with_field ''typed'' (last_n 30 (map word_of_int ?chs)) md)"
    using type_keys_run [OF reachable_members_inv [OF assms(1)] assms(2), of keys "[]"] unfolding f by blast
  have "last_n 30 (map word_of_int ?chs) \<noteq> [] \<Longrightarrow> ?chs \<noteq> []"
    by (metis last_n_Nil list.simps(8))
  with r show ?thesis
    unfolding p [symmetric]
    by (auto simp: length_last_n with_field_def intro!: exI [of _ ms'])
qed

theorem typed_text_witness:
  "\<exists>ms' md'. py_for [(1, 104), (2, 10), (3, 105)] type_key ([], demo_members [''a'']) = (Inr (), ([104, 105], ms')) \<and>
     local_dict ms' = Some md' \<and> (''typed'', [104, 105]) \<in> md'"
proof -
  have "local_dict (demo_members [''a'']) = Some {(''k'', [1])}"
    by (simp add: local_dict_def demo_fields demo_me_def changed_def)
  from typed_text [OF demo_reachable [of "[''a'']"] this, of "[(1, 104), (2, 10), (3, 105)]"]
  show ?thesis by (auto simp: last_n_def)
qed

text \<open>
  The demo never changes its token. Its configuration has no initial metadata, whatever the command
  line, so that the task that is to change the token fails its assertion at once.
\<close>

theorem token_never_changes:
  assumes "parse_options (udp_arguments prefix) given = Inr args"
    and "udp_from_args node E args [] = Inr c"
    and "members_init rnd now (cf_local_name c) (cf_peers c) (cf_local_metadata c) = (r, ms)"
  shows "change_metadata (Some interval) ms = (Inl AssertionError, ms)"
proof -
  have "cf_local_metadata c = {}"
    using from_args_typed [OF assms(1), where node = node and E = E] assms(2) by simp
  then have "local_dict ms = Some {}"
    using assms(3) update_changed_fields [OF members_invD(9)] members_peers_state
    by (auto simp: members_init_result local_dict_def update_conv' changed_def)
  then show ?thesis by (simp add: change_metadata_def randomize_begin_def py_bind_def)
qed

theorem token_never_changes_witness:
  "\<exists>args c. parse_options (udp_arguments ''--'') [(''--name'', ''a:1'')] = Inr args \<and>
     udp_from_args 0 demo_environment args [] = Inr c \<and>
     change_metadata (Some 10) (snd (members_init (\<lambda>_. []) 0 (cf_local_name c) (cf_peers c) (cf_local_metadata c))) =
       (Inl AssertionError, snd (members_init (\<lambda>_. []) 0 (cf_local_name c) (cf_peers c) (cf_local_metadata c)))"
proof -
  let ?ns = "[(''swim_secret'', PNone), (''swim_name'', PStr ''a:1''), (''swim_peers'', PList []),
    (''swim_udp_bind'', PNone), (''swim_udp_bind_port'', PNone), (''swim_udp_host'', PNone),
    (''swim_udp_port'', PNone), (''swim_udp_discovery'', PBool False)]"
  have a: "parse_options (udp_arguments ''--'') [(''--name'', ''a:1'')] = Inr ?ns"
    by (simp add: parse_options_def udp_arguments_def base_arguments_def store_option_def)
  have "\<exists>c. udp_from_args 0 demo_environment ?ns [] = Inr c"
    by (simp add: udp_from_args_def from_args_def udp_parse_args_def parse_args_def py_or_def get_env_def
        get_env_list_def opt_value_def demo_environment_def dict_merge_def udp_config_init_def udp_keywords_def
        base_config_init_def base_required_def base_keywords_def config_validate_def Let_def)
  then obtain c where c: "udp_from_args 0 demo_environment ?ns [] = Inr c" by blast
  have "members_init (\<lambda>_. []) 0 (cf_local_name c) (cf_peers c) (cf_local_metadata c) =
    (fst (members_init (\<lambda>_. []) 0 (cf_local_name c) (cf_peers c) (cf_local_metadata c)),
     snd (members_init (\<lambda>_. []) 0 (cf_local_name c) (cf_peers c) (cf_local_metadata c)))" by simp
  from token_never_changes [OF a c this, of 10] a c show ?thesis by blast
qed

end
