(* ===== verification/Swim_Contexts.thy ===== *)
theory Swim_Contexts
  imports Swim_Prelude
begin

text \<open>
  The exit stacks of \<open>contextlib\<close>, through which the programs enter and leave their components. A
  coroutine that waits for something that never comes is \<open>None\<close>.
\<close>

type_synonym ('s, 'a) coro = "'s \<Rightarrow> ((py_error + 'a) \<times> 's) option"

definition ready :: "('s, 'a) py \<Rightarrow> ('s, 'a) coro" where
  "ready m = (\<lambda>s. Some (m s))"

lemma ready_run [simp]: "ready m s = Some (m s)"
  by (simp add: ready_def)

text \<open>
  \<open>__aexit__\<close> of an exit stack calls the callbacks from the last pushed to the first, whether or not
  they raise; an exception takes the place of the one before it. None of the callbacks of the
  programs suppresses an exception.
\<close>

fun unwind :: "('s, unit) coro list \<Rightarrow> py_error option \<Rightarrow> 's \<Rightarrow> (py_error option \<times> 's) option" where
  "unwind [] exc s = Some (exc, s)"
| "unwind (callback # stack) exc s =
     (case callback s of
        None \<Rightarrow> None
      | Some (Inr _, s') \<Rightarrow> unwind stack exc s'
      | Some (Inl e, s') \<Rightarrow> unwind stack (Some e) s')"

definition leave :: "('s, unit) coro list \<Rightarrow> py_error + 'a \<Rightarrow> ('s, 'a) coro" where
  "leave stack r = (\<lambda>s.
     case unwind stack (case r of Inl e \<Rightarrow> Some e | Inr _ \<Rightarrow> None) s of
       None \<Rightarrow> None
     | Some (None, s') \<Rightarrow> Some (r, s')
     | Some (Some e, s') \<Rightarrow> Some (Inl e, s'))"

text \<open>
  \<open>async with AsyncExitStack()\<close>: the contexts (what entering does, what leaving does) are entered in
  order, each pushed once it is entered, then the body runs.
\<close>

fun with_contexts ::
    "(('s, unit) coro \<times> ('s, unit) coro) list \<Rightarrow> ('s, unit) coro list \<Rightarrow> ('s, 'a) coro \<Rightarrow> ('s, 'a) coro"
  where
  "with_contexts [] stack body s =
     (case body s of None \<Rightarrow> None | Some (r, s') \<Rightarrow> leave stack r s')"
| "with_contexts ((enter, exit) # contexts) stack body s =
     (case enter s of
        None \<Rightarrow> None
      | Some (Inl e, s') \<Rightarrow> leave stack (Inl e) s'
      | Some (Inr _, s') \<Rightarrow> with_contexts contexts (exit # stack) body s')"

text \<open>If nothing waits for ever, every context that was entered is left.\<close>

lemma unwind_ready: "\<exists>exc' s'. unwind (map ready ms) exc s = Some (exc', s')"
proof (induction ms arbitrary: exc s)
  case (Cons m ms)
  then show ?case by (cases "m s"; cases "fst (m s)") auto
qed simp

end
