(* ===== verification/Swim_Program.thy ===== *)
theory Swim_Program
  imports Swim_Sync_Props Swim_Demo Swim_Worker_Props Swim_Transport Swim_Contexts
begin

text \<open>
  The program \<open>main\<close> and \<open>run\<close> of \<open>swimprotocol/sync.py\<close>, and what it shares with the demo program. It
  makes the components, enters them, waits for a signal and leaves them. What happens while it
  waits is a list of events.
\<close>

subsection \<open>The components\<close>

text \<open>
  The transport, the worker with its members, and the task of the worker. \<open>from_args\<close> leaves the
  default of \<open>ping_req_count\<close>, which is an integer.
\<close>

record app =
  ap_transport :: udp_transport
  ap_worker :: worker
  ap_worker_task :: daemon_task

fun int_value :: "py_value \<Rightarrow> int" where
  "int_value (PInt i) = i"
| "int_value _ = 0"

definition make_app ::
    "nat \<Rightarrow> environment \<Rightarrow> (string \<Rightarrow> bytes) \<Rightarrow> int \<Rightarrow> kwargs \<Rightarrow> py_error + app" where
  "make_app node E rnd now args =
     result_bind (udp_from_args node E args []) (\<lambda>config.
     case members_init rnd now (cf_local_name config) (cf_peers config) (cf_local_metadata config) of
       (r, ms) \<Rightarrow>
         result_bind r (\<lambda>_.
         result_bind (udp_transport_init config) (\<lambda>transport.
         Inr \<lparr>ap_transport = transport, ap_worker = worker_init (int_value (cf_ping_req_count config)) ms,
              ap_worker_task = daemon_init\<rparr>)))"

text \<open>
  A step of the worker. If one of its loops fails, \<open>gather\<close> passes the exception on to its task;
  nobody awaits the task.
\<close>

definition task_fails :: "worker \<Rightarrow> daemon_task \<Rightarrow> daemon_task" where
  "task_fails w d = (case run_result w of
     None \<Rightarrow> d
   | Some e \<Rightarrow> if daemon d = Some Running then d\<lparr>daemon := Some (Failed e)\<rparr> else d)"

definition app_work :: "worker_event \<Rightarrow> 'a app_scheme \<Rightarrow> 'a app_scheme" where
  "app_work ev a = (case worker_step ev (ap_worker a) of
     None \<Rightarrow> a
   | Some w \<Rightarrow> a\<lparr>ap_worker := w, ap_worker_task := task_fails w (ap_worker_task a)\<rparr>)"

text \<open>\<open>except ConfigError\<close> of \<open>main\<close>: \<open>parser.error\<close> exits.\<close>

definition config_exits :: "py_error + 'a \<Rightarrow> py_error + 'a" where
  "config_exits r = (case r of
     Inl e \<Rightarrow> Inl (if e = ConfigError \<or> e = TransientConfigError then SystemExit else e)
   | Inr x \<Rightarrow> Inr x)"

subsection \<open>Contexts\<close>

definition on_transport :: "(udp_transport, 'x) py \<Rightarrow> ('a app_scheme, 'x) py" where
  "on_transport = py_on ap_transport (\<lambda>t a. a\<lparr>ap_transport := t\<rparr>)"

definition transport_context ::
    "(string \<Rightarrow> py_value \<Rightarrow> py_error + unit) \<Rightarrow> (string \<Rightarrow> py_value \<Rightarrow> py_error + unit) \<Rightarrow>
     ('a app_scheme, unit) py \<times> ('a app_scheme, unit) py" where
  "transport_context server endpoint =
     (on_transport (transport_enter server endpoint), on_transport (py_modify transport_exit))"

definition worker_context :: "('a app_scheme, unit) py \<times> ('a app_scheme, unit) py" where
  "worker_context =
     (py_modify (\<lambda>a. a\<lparr>ap_worker_task := daemon_enter (ap_worker_task a)\<rparr>),
      py_modify (\<lambda>a. a\<lparr>ap_worker_task := daemon_exit (ap_worker_task a)\<rparr>))"

subsection \<open>The tool\<close>

text \<open>
  \<open>sa_poll\<close> is the \<open>CallbackPoll\<close> once its task has had its first turn, and \<open>sa_pending\<close> are the calls
  of \<open>_write_member\<close> that it made subtasks of and that have not run.
\<close>

record sync_app = app +
  sa_poll :: "callback_poll option"
  sa_poll_task :: daemon_task
  sa_pending :: "string list"
  sa_files :: files

text \<open>\<open>read_local\<close> of the running program.\<close>

definition sync_read :: "int \<Rightarrow> (sync_app, unit) py" where
  "sync_read now =
     py_on (\<lambda>a. (sa_files a, w_members (ap_worker a)))
       (\<lambda>(fs, ms) a. a\<lparr>sa_files := fs, ap_worker := (ap_worker a)\<lparr>w_members := ms\<rparr>\<rparr>) (read_local now)"

text \<open>\<open>run\<close> up to the exit stack.\<close>

definition sync_make ::
    "nat \<Rightarrow> environment \<Rightarrow> (string \<Rightarrow> bytes) \<Rightarrow> int \<Rightarrow> kwargs \<Rightarrow> files \<Rightarrow> py_error + sync_app" where
  "sync_make node E rnd now args fs =
     result_bind (make_app node E rnd now args) (\<lambda>a.
     Inr (app.extend a
       \<lparr>sa_poll = None, sa_poll_task = daemon_init, sa_pending = [], sa_files = fs\<rparr>))"

text \<open>
  What happens while the tool waits: a step of the worker; SIGHUP, with the time (an exception of
  the signal handler is only logged); a turn of the \<open>CallbackPoll\<close>; one of the calls of
  \<open>_write_member\<close> (its metadata in the order of the dictionary), whose exception ends that subtask
  only.
\<close>

datatype sync_event = Work worker_event | Reload int | Poll_turn | Write nat "(string \<times> bytes) list"

definition poll_turn :: "sync_app \<Rightarrow> sync_app" where
  "poll_turn a =
     (let ms = w_members (ap_worker a)
      in case sa_poll a of
           None \<Rightarrow>
             (case callback_start (ms_listener ms) of (c, l) \<Rightarrow>
                a\<lparr>sa_poll := Some c, ap_worker := (ap_worker a)\<lparr>w_members := ms\<lparr>ms_listener := l\<rparr>\<rparr>\<rparr>)
         | Some c \<Rightarrow>
             (case callback_round c (ms_listener ms) of (items, c', l) \<Rightarrow>
                a\<lparr>sa_poll := Some c', sa_pending := sa_pending a @ items,
                  ap_worker := (ap_worker a)\<lparr>w_members := ms\<lparr>ms_listener := l\<rparr>\<rparr>\<rparr>))"

definition write_turn :: "nat \<Rightarrow> (string \<times> bytes) list \<Rightarrow> sync_app \<Rightarrow> sync_app" where
  "write_turn k items a =
     (if k < length (sa_pending a)
      then
        (case map_of (ms_members (w_members (ap_worker a))) (sa_pending a ! k) of
           None \<Rightarrow> a
         | Some m \<Rightarrow>
             if set items = (case m_metadata_dict m of None \<Rightarrow> {} | Some md \<Rightarrow> md) \<and> distinct (map fst items)
             then a\<lparr>sa_files := snd (write_member m items (sa_files a)),
                    sa_pending := take k (sa_pending a) @ drop (Suc k) (sa_pending a)\<rparr>
             else a)
      else a)"

definition sync_step :: "sync_event \<Rightarrow> sync_app \<Rightarrow> sync_app" where
  "sync_step ev a = (case ev of
     Work wev \<Rightarrow> app_work wev a
   | Reload now \<Rightarrow> snd (sync_read now a)
   | Poll_turn \<Rightarrow> if daemon (sa_poll_task a) = Some Running then poll_turn a else a
   | Write k items \<Rightarrow> write_turn k items a)"

definition poll_context :: "(sync_app, unit) py \<times> (sync_app, unit) py" where
  "poll_context =
     (py_modify (\<lambda>a. a\<lparr>sa_poll_task := daemon_enter (sa_poll_task a)\<rparr>),
      py_modify (\<lambda>a. a\<lparr>sa_poll_task := daemon_exit (sa_poll_task a)\<rparr>))"

definition sync_serve ::
    "(string \<Rightarrow> py_value \<Rightarrow> py_error + unit) \<Rightarrow> (string \<Rightarrow> py_value \<Rightarrow> py_error + unit) \<Rightarrow>
     sync_event list \<Rightarrow> (sync_app, int) coro" where
  "sync_serve server endpoint evs a =
     (case with_contexts
        (map (map_prod ready ready) [transport_context server endpoint, worker_context, poll_context]) []
        (ready (py_modify (fold sync_step evs))) a of
        None \<Rightarrow> None
      | Some (Inl e, a') \<Rightarrow> Some (Inl e, a')
      | Some (Inr _, a') \<Rightarrow>
          Some (py_seq (py_on sa_files (\<lambda>fs a. a\<lparr>sa_files := fs\<rparr>) (cleanup (w_members (ap_worker a'))))
            (py_return 0) a'))"

text \<open>\<open>run\<close>, with the files that are left.\<close>

definition sync_run ::
    "nat \<Rightarrow> environment \<Rightarrow> (string \<Rightarrow> bytes) \<Rightarrow> int \<Rightarrow> (string \<Rightarrow> py_value \<Rightarrow> py_error + unit) \<Rightarrow>
     (string \<Rightarrow> py_value \<Rightarrow> py_error + unit) \<Rightarrow> sync_event list \<Rightarrow> kwargs \<Rightarrow> (files, int) coro" where
  "sync_run node E rnd now server endpoint evs args fs =
     (case sync_make node E rnd now args fs of
        Inl e \<Rightarrow> Some (Inl e, fs)
      | Inr a \<Rightarrow>
          (case sync_read now a of
             (Inl e, a') \<Rightarrow> Some (Inl e, sa_files a')
           | (Inr _, a') \<Rightarrow>
               map_option (\<lambda>(r, a). (r, sa_files a)) (sync_serve server endpoint evs a')))"

text \<open>
  \<open>main\<close>. The command line is the options with their values and the other words, of which there must
  be exactly one: \<open>default='.'\<close> has no effect on a positional argument of \<open>argparse\<close>. The directory is
  the root of the file model. Of the entry points only the UDP transport is known here.
\<close>

definition sync_arguments :: "(string \<times> string) list \<Rightarrow> string list \<Rightarrow> py_error + kwargs" where
  "sync_arguments options words = (case words of
     [directory] \<Rightarrow> parse_options (udp_arguments ''--'') options
   | _ \<Rightarrow> Inl SystemExit)"

definition sync_main ::
    "(string \<Rightarrow> string \<Rightarrow> (py_error + unit) list) \<Rightarrow> nat \<Rightarrow> environment \<Rightarrow> (string \<Rightarrow> bytes) \<Rightarrow> int \<Rightarrow>
     (string \<Rightarrow> py_value \<Rightarrow> py_error + unit) \<Rightarrow> (string \<Rightarrow> py_value \<Rightarrow> py_error + unit) \<Rightarrow>
     sync_event list \<Rightarrow> (string \<times> string) list \<Rightarrow> string list \<Rightarrow> (files, int) coro" where
  "sync_main entry_points node E rnd now server endpoint evs options words fs =
     (case result_bind (load_transport entry_points ''udp'' ''swimprotocol.transport'')
         (\<lambda>_. sync_arguments options words) of
        Inl e \<Rightarrow> Some (Inl e, fs)
      | Inr args \<Rightarrow>
          (case sync_setup fs of
             (Inl e, fs') \<Rightarrow> Some (Inl e, fs')
           | (Inr _, fs') \<Rightarrow>
               map_option (map_prod config_exits id) (sync_run node E rnd now server endpoint evs args fs')))"

lemma sync_needs_directory:
  assumes "load_transport entry_points ''udp'' ''swimprotocol.transport'' = Inr ()"
  shows "sync_main entry_points node E rnd now server endpoint evs options [] fs = Some (Inl SystemExit, fs)"
  using assms by (simp add: sync_main_def sync_arguments_def)

subsection \<open>The tool closes what it opened\<close>

text \<open>The task of the worker runs as long as none of its loops has failed.\<close>

definition task_follows :: "'a app_scheme \<Rightarrow> bool" where
  "task_follows a \<longleftrightarrow> (daemon (ap_worker_task a) = Some Running \<and> run_result (ap_worker a) = None) \<or>
     (\<exists>e. daemon (ap_worker_task a) = Some (Failed e))"

lemma app_work_fields [simp]:
  "ap_transport (app_work ev a) = ap_transport a"
  "sa_poll_task (app_work ev b) = sa_poll_task b"
  by (simp_all add: app_work_def split: option.split)

lemma app_work_follows: "task_follows a \<Longrightarrow> task_follows (app_work ev a)"
  by (auto simp: task_follows_def app_work_def task_fails_def split: option.split)

lemma follows_cong:
  "ap_worker_task b = ap_worker_task a \<Longrightarrow> w_failed (ap_worker b) = w_failed (ap_worker a) \<Longrightarrow>
     task_follows a \<Longrightarrow> task_follows b"
  by (simp add: task_follows_def run_result_def)

lemma sync_step_fields:
  "ap_transport (sync_step ev a) = ap_transport a \<and> sa_poll_task (sync_step ev a) = sa_poll_task a \<and>
   (task_follows a \<longrightarrow> task_follows (sync_step ev a))"
proof (cases ev)
  case (Work wev)
  then show ?thesis using app_work_follows [of a wev] by (simp add: sync_step_def)
next
  case (Reload now)
  then show ?thesis
    using follows_cong [of "snd (sync_read now a)" a] by (simp add: sync_step_def sync_read_def py_on_def split_beta)
next
  case Poll_turn
  then show ?thesis
    using follows_cong [of "poll_turn a" a]
    by (simp add: sync_step_def poll_turn_def Let_def split: option.split prod.split)
next
  case (Write k items)
  then show ?thesis
    using follows_cong [of "write_turn k items a" a] by (simp add: sync_step_def write_turn_def split: option.split)
qed

lemma sync_steps_fields:
  "ap_transport (fold sync_step evs a) = ap_transport a \<and> sa_poll_task (fold sync_step evs a) = sa_poll_task a \<and>
   (task_follows a \<longrightarrow> task_follows (fold sync_step evs a))"
proof (induction evs arbitrary: a)
  case (Cons ev evs)
  then show ?case using sync_step_fields [of ev a] by (metis fold_simps(2))
qed simp

lemma transport_enter_run:
  fixes t :: udp_transport
  assumes "ut_open t = []" and "ut_stack t = []"
  defines "h \<equiv> bind_host t" and "n \<equiv> bind_port t"
  shows "server h n = Inr () \<Longrightarrow> endpoint h n = Inr () \<Longrightarrow> transport_enter server endpoint t =
      (Inr (), t\<lparr>ut_open := [Send_task, Udp_endpoint, Tcp_server, Thread_pool],
         ut_stack := [Tcp_server, Udp_endpoint, Send_task, Thread_pool]\<rparr>)"
    and "server h n = Inl e \<Longrightarrow> transport_enter server endpoint t =
      (Inl e, t\<lparr>ut_open := [Thread_pool], ut_stack := [Thread_pool]\<rparr>)"
    and "server h n = Inr () \<Longrightarrow> endpoint h n = Inl e \<Longrightarrow> transport_enter server endpoint t =
      (Inl e, t\<lparr>ut_open := [Tcp_server, Thread_pool], ut_stack := [Thread_pool]\<rparr>)"
  using assms by (simp_all add: transport_enter_def open_resource_def push_def py_seq_def py_bind_def)

lemma transport_exit_all:
  "ut_open t = [Send_task, Udp_endpoint, Tcp_server, Thread_pool] \<Longrightarrow>
     ut_stack t = [Tcp_server, Udp_endpoint, Send_task, Thread_pool] \<Longrightarrow> ut_open (transport_exit t) = []"
  by (simp add: transport_exit_def)

lemma on_transport_run:
  "on_transport m a = (fst (m (ap_transport a)), a\<lparr>ap_transport := snd (m (ap_transport a))\<rparr>)"
  by (simp add: on_transport_def py_on_run)

text \<open>The tool once all its contexts are entered.\<close>

definition sync_entered ::
    "(string \<Rightarrow> py_value \<Rightarrow> py_error + unit) \<Rightarrow> (string \<Rightarrow> py_value \<Rightarrow> py_error + unit) \<Rightarrow> sync_app \<Rightarrow> sync_app"
  where
  "sync_entered server endpoint a =
     a\<lparr>ap_transport := snd (transport_enter server endpoint (ap_transport a)),
       ap_worker_task := daemon_enter (ap_worker_task a), sa_poll_task := daemon_enter (sa_poll_task a)\<rparr>"

lemma sync_serve_entered:
  fixes evs :: "sync_event list"
  assumes "fst (transport_enter server endpoint (ap_transport a)) = Inr ()"
  defines "b \<equiv> fold sync_step evs (sync_entered server endpoint a)"
  shows "sync_serve server endpoint evs a =
    (let c = b\<lparr>ap_transport := transport_exit (ap_transport b), ap_worker_task := daemon_exit (ap_worker_task b),
              sa_poll_task := daemon_exit (sa_poll_task b)\<rparr>
     in case cleanup (w_members (ap_worker b)) (sa_files b) of
          (Inl e, fs) \<Rightarrow> Some (Inl e, c\<lparr>sa_files := fs\<rparr>)
        | (Inr _, fs) \<Rightarrow> Some (Inr 0, c\<lparr>sa_files := fs\<rparr>))"
proof -
  have e: "sync_entered server endpoint a = a\<lparr>ap_transport := snd (transport_enter server endpoint (ap_transport a)),
      ap_worker_task := daemon_enter (ap_worker_task a), sa_poll_task := daemon_enter (sa_poll_task a)\<rparr>"
    by (simp add: sync_entered_def)
  show ?thesis
    using assms(1)
    by (simp add: sync_serve_def transport_context_def worker_context_def poll_context_def on_transport_run
        leave_def py_on_def py_seq_def py_bind_def b_def e Let_def split: prod.split sum.split)
qed

lemma sync_serve_refused:
  assumes "fst (transport_enter server endpoint (ap_transport a)) = Inl e"
  shows "sync_serve server endpoint evs a =
    Some (Inl e, a\<lparr>ap_transport := snd (transport_enter server endpoint (ap_transport a))\<rparr>)"
  using assms by (simp add: sync_serve_def transport_context_def on_transport_run leave_def)

text \<open>
  C30: The tool closes what it opened. Whatever happens while it waits: if the server and the socket
  could be opened then in the end nothing of the transport is open, the task of the poll is cancelled,
  and the task of the worker is cancelled or has failed before; the other loops and the subtasks of
  a worker are left to \<open>asyncio.run\<close>. The result is that of the clean-up, 0 if it succeeds
  and its exception otherwise, whatever has become of the worker. If the server or the socket cannot
  be opened the exception goes on to the caller, the worker has not been started and no file is
  cleaned up, but the thread pool, and in the second case the server, stay open.
\<close>

theorem tool_closes:
  assumes "ut_open (ap_transport a) = []" and "ut_stack (ap_transport a) = []"
    and "ap_worker_task a = daemon_init" and "sa_poll_task a = daemon_init" and "run_result (ap_worker a) = None"
  defines "t \<equiv> ap_transport a"
  shows "(server (bind_host t) (bind_port t) = Inr () \<and> endpoint (bind_host t) (bind_port t) = Inr () \<longrightarrow>
      (\<exists>c. let b = fold sync_step evs (sync_entered server endpoint a);
               r = cleanup (w_members (ap_worker b)) (sa_files b)
           in sync_serve server endpoint evs a = Some (map_sum id (\<lambda>_. 0) (fst r), c) \<and>
             ap_worker c = ap_worker b \<and> sa_files c = snd r \<and> ut_open (ap_transport c) = [] \<and>
             daemon (sa_poll_task c) = Some Cancelled \<and>
             (daemon (ap_worker_task c) = Some Cancelled \<and> run_result (ap_worker c) = None \<or>
              (\<exists>e. daemon (ap_worker_task c) = Some (Failed e))))) \<and>
    (\<forall>e. server (bind_host t) (bind_port t) = Inl e \<longrightarrow>
      (\<exists>c. sync_serve server endpoint evs a = Some (Inl e, c) \<and> ut_open (ap_transport c) = [Thread_pool] \<and>
        ap_worker_task c = daemon_init \<and> ap_worker c = ap_worker a \<and> sa_files c = sa_files a)) \<and>
    (\<forall>e. server (bind_host t) (bind_port t) = Inr () \<and> endpoint (bind_host t) (bind_port t) = Inl e \<longrightarrow>
      (\<exists>c. sync_serve server endpoint evs a = Some (Inl e, c) \<and>
        ut_open (ap_transport c) = [Tcp_server, Thread_pool] \<and>
        ap_worker_task c = daemon_init \<and> ap_worker c = ap_worker a \<and> sa_files c = sa_files a))"
proof (intro conjI allI impI; (elim conjE)?)
  note enter = transport_enter_run [where server = server and endpoint = endpoint, OF assms(1,2), folded t_def]
  show "\<exists>c. sync_serve server endpoint evs a = Some (Inl e, c) \<and> ut_open (ap_transport c) = [Thread_pool] \<and>
      ap_worker_task c = daemon_init \<and> ap_worker c = ap_worker a \<and> sa_files c = sa_files a"
    if "server (bind_host t) (bind_port t) = Inl e" for e
    using sync_serve_refused [of server endpoint a e evs] enter(2) [OF that] assms(3) by (simp add: t_def)
  show "\<exists>c. sync_serve server endpoint evs a = Some (Inl e, c) \<and>
      ut_open (ap_transport c) = [Tcp_server, Thread_pool] \<and>
      ap_worker_task c = daemon_init \<and> ap_worker c = ap_worker a \<and> sa_files c = sa_files a"
    if "server (bind_host t) (bind_port t) = Inr ()" "endpoint (bind_host t) (bind_port t) = Inl e" for e
    using sync_serve_refused [of server endpoint a e evs] enter(3) [OF that] assms(3) by (simp add: t_def)
  assume ok: "server (bind_host t) (bind_port t) = Inr ()" "endpoint (bind_host t) (bind_port t) = Inr ()"
  let ?a = "sync_entered server endpoint a"
  let ?b = "fold sync_step evs ?a"
  let ?r = "cleanup (w_members (ap_worker ?b)) (sa_files ?b)"
  have e: "fst (transport_enter server endpoint (ap_transport a)) = Inr ()"
    using enter(1) [OF ok] by (simp add: t_def)
  have "task_follows ?a"
    using assms(3,5) by (simp add: task_follows_def sync_entered_def daemon_enter_def)
  then have f: "task_follows ?b" "ap_transport ?b = ap_transport ?a" "sa_poll_task ?b = sa_poll_task ?a"
    using sync_steps_fields [of evs ?a] by auto
  let ?c = "?b\<lparr>ap_transport := transport_exit (ap_transport ?b), ap_worker_task := daemon_exit (ap_worker_task ?b),
      sa_poll_task := daemon_exit (sa_poll_task ?b), sa_files := snd ?r\<rparr>"
  have serve: "sync_serve server endpoint evs a = Some (map_sum id (\<lambda>_. 0) (fst ?r), ?c)"
    unfolding sync_serve_entered [OF e] by (cases ?r; cases "fst ?r") (simp_all add: Let_def)
  have "ap_transport ?a = t\<lparr>ut_open := [Send_task, Udp_endpoint, Tcp_server, Thread_pool],
      ut_stack := [Tcp_server, Udp_endpoint, Send_task, Thread_pool]\<rparr>"
    using enter(1) [OF ok] by (simp add: sync_entered_def t_def)
  then have "ut_open (transport_exit (ap_transport ?b)) = []"
    unfolding f(2) by (intro transport_exit_all) simp_all
  moreover have "daemon (daemon_exit (sa_poll_task ?b)) = Some Cancelled"
    unfolding f(3) by (simp add: sync_entered_def daemon_enter_def daemon_exit_def)
  moreover have "daemon (daemon_exit (ap_worker_task ?b)) = Some Cancelled \<and> run_result (ap_worker ?b) = None \<or>
      (\<exists>e. daemon (daemon_exit (ap_worker_task ?b)) = Some (Failed e))"
    using f(1) by (auto simp: task_follows_def daemon_exit_def)
  ultimately show "\<exists>c. let b = ?b; r = cleanup (w_members (ap_worker b)) (sa_files b)
      in sync_serve server endpoint evs a = Some (map_sum id (\<lambda>_. 0) (fst r), c) \<and>
        ap_worker c = ap_worker b \<and> sa_files c = snd r \<and> ut_open (ap_transport c) = [] \<and>
        daemon (sa_poll_task c) = Some Cancelled \<and>
        (daemon (ap_worker_task c) = Some Cancelled \<and> run_result (ap_worker c) = None \<or>
         (\<exists>e. daemon (ap_worker_task c) = Some (Failed e)))"
    unfolding Let_def using serve by (intro exI [of _ ?c] conjI) simp_all
qed

text \<open>A tool without peers, to which an acknowledgement arrives that ends its handler.\<close>

definition demo_app :: sync_app where
  "demo_app = \<lparr>ap_transport = \<lparr>ut_config = demo_config, ut_pack = demo_pack,
       ut_local_address = Address ''10.0.0.1'' 80, ut_open = [], ut_stack = []\<rparr>,
     ap_worker = demo_worker [], ap_worker_task = daemon_init,
     sa_poll = None, sa_poll_task = daemon_init, sa_pending = [], sa_files = demo_files\<rparr>"

definition demo_failure :: "worker_event list" where
  "demo_failure =
     [Receive (GossipAck \<lparr>src_name = ''me'', src_validity = []\<rparr> ''me'' 100), Handle (\<lambda>_. []) 1]"

lemma demo_failure_run:
  "map_option (\<lambda>w. (run_result w, ms_non_local (w_members w))) (worker_steps demo_failure (demo_worker [])) =
     Some (Some AssertionError, [])"
  by code_simp

lemma app_works:
  "worker_steps evs (ap_worker a) = Some w \<Longrightarrow>
     ap_worker (fold sync_step (map Work evs) a) = w \<and> sa_files (fold sync_step (map Work evs) a) = sa_files a"
  by (induction evs arbitrary: a) (auto simp: sync_step_def app_work_def split: option.splits)

lemma demo_cleanup:
  assumes "ms_non_local ms = []"
  shows "fst (cleanup ms demo_files) = Inr ()"
  using assms
  by (simp add: cleanup_def unlink_def demo_files_def lookup_def drop_node_def sync_statuses_def iterdir_def
      entry_def resolve_def py_seq_def py_bind_def)

theorem tool_closes_witness:
  "\<exists>c e. sync_serve (\<lambda>_ _. Inr ()) (\<lambda>_ _. Inr ()) (map Work demo_failure) demo_app = Some (Inr 0, c) \<and>
    ut_open (ap_transport c) = [] \<and> daemon (ap_worker_task c) = Some (Failed e)"
proof -
  let ?s = "\<lambda>(_ :: string) (_ :: py_value). Inr () :: py_error + unit"
  let ?b = "fold sync_step (map Work demo_failure) (sync_entered ?s ?s demo_app)"
  obtain w where w: "worker_steps demo_failure (demo_worker []) = Some w" "run_result w = Some AssertionError"
    "ms_non_local (w_members w) = []"
    using demo_failure_run by auto
  have "worker_steps demo_failure (ap_worker (sync_entered ?s ?s demo_app)) = Some w"
    using w(1) by (simp add: sync_entered_def demo_app_def)
  from app_works [OF this] have b: "ap_worker ?b = w" "sa_files ?b = demo_files"
    by (simp_all add: sync_entered_def demo_app_def)
  have "fst (cleanup (w_members (ap_worker ?b)) (sa_files ?b)) = Inr ()"
    using w(3) by (simp add: b demo_cleanup)
  moreover have "run_result (ap_worker demo_app) = None"
    by (simp add: demo_app_def run_result_def)
  ultimately show ?thesis
    using tool_closes [of demo_app ?s ?s "map Work demo_failure"] b w(2)
    by (auto simp: Let_def) (auto simp: demo_app_def)
qed

end
