(* ===== verification/Swim_Mirror.thy ===== *)
theory Swim_Mirror
  imports Swim_Program Swim_Worker_Table
begin

text \<open>
  The running tool as a whole: the table of the members, the notifications of its changes and the
  files. No change of another member is lost between them.
\<close>

subsection \<open>What the listener hears\<close>

text \<open>What the files of a member show. A member that is not known yet would start like this.\<close>

definition entry_of :: "members \<Rightarrow> string \<Rightarrow> status \<times> metadata option" where
  "entry_of ms n = (case map_of (ms_members ms) n of
     None \<Rightarrow> (OFFLINE, None)
   | Some m \<Rightarrow> (m_status m, m_metadata_dict m))"

definition poll_items :: "nat \<Rightarrow> members \<Rightarrow> (string list \<times> bool) option" where
  "poll_items e ms = map_of (lst_waiting (ms_listener ms)) e"

text \<open>
  The poll \<open>e\<close> is registered, it holds at least the items \<open>X\<close>, and every member whose entry is not
  the one of \<open>E\<close>; it is woken if it holds anything.
\<close>

definition overhears :: "nat \<Rightarrow> string set \<Rightarrow> (string \<Rightarrow> status \<times> metadata option) \<Rightarrow> members \<Rightarrow> bool" where
  "overhears e X E ms \<longleftrightarrow> (\<exists>items. poll_items e ms = Some (items, items \<noteq> []) \<and> X \<subseteq> set items \<and>
     (\<forall>n. entry_of ms n = E n \<or> n \<in> set items))"

lemma overhears_update:
  assumes "store_inv ms" and "settable st" and "overhears e X E ms"
  shows "overhears e X E (snd (update_common now n source clock st md ms))"
proof (rule update_common_keeps [where good = "overhears e X E", OF assms])
  fix m assume "map_of (ms_members ms) n = Some m"
  let ?ms = "update_changed n (changed now source clock (ms_next_clock ms) st md m) ms"
  obtain items where i: "poll_items e ms = Some (items, items \<noteq> [])" "X \<subseteq> set items"
    "\<forall>k. entry_of ms k = E k \<or> k \<in> set items"
    using assms(3) by (auto simp: overhears_def)
  have inv: "members_inv ms" using assms(1) by (simp add: store_inv_def)
  have "poll_items e ?ms = Some (items @ [n], True)"
    using i(1) by (simp add: poll_items_def update_changed_fields members_invD(9) [OF inv])
  moreover have "entry_of ?ms k = E k \<or> k \<in> set (items @ [n])" for k
    using i(3) by (cases "k = n") (simp_all add: entry_of_def update_changed_lookup inv)
  ultimately show "overhears e X E ?ms"
    using i(2) unfolding overhears_def by (intro exI [of _ "items @ [n]"] conjI allI) auto
qed

interpretation heard: table_property "overhears e X E" "\<lambda>n md. True" "\<lambda>n md. True" for e X E
proof
  fix ms :: members and rnd :: bytes and now clock :: int and n source :: string and v :: "bytes option"
    and st :: status and md :: "metadata option" and d :: metadata
  assume inv: "store_inv ms" and h: "overhears e X E ms"
  have "entry_of (members_get rnd now n v ms) k = entry_of ms k" for k
    by (auto simp: entry_of_def members_get_lookup check_validity_def member_init_def split: option.splits)
  then show "overhears e X E (members_get rnd now n v ms)"
    using h by (simp add: overhears_def poll_items_def members_get_fields)
  show "settable (Some st) \<Longrightarrow> overhears e X E (snd (members_update now n (Some st) None ms))"
    "overhears e X E (snd (members_update now (ms_local ms) None (Some d) ms))"
    "settable (Some st) \<Longrightarrow> overhears e X E (snd (members_apply now n source clock st md ms))"
    using inv h by (simp_all add: members_update_common members_apply_def overhears_update)
  show "overhears e X E (snd (ack_gossip n source clock ms))"
  proof (rule ack_gossip_keeps [where good = "overhears e X E", OF h])
    fix m assume m: "map_of (ms_members ms) source = Some m"
    let ?ms = "put_member source (m\<lparr>m_known_clocks := AList.update n clock (m_known_clocks m)\<rparr>) ms"
    have "entry_of ?ms k = entry_of ms k" for k using m by (simp add: entry_of_def)
    then show "overhears e X E ?ms" using h by (simp add: overhears_def poll_items_def put_member_def)
  qed
qed

subsection \<open>What the files show\<close>

text \<open>The directory and the links of a member are those of an entry.\<close>

definition mirrors :: "files \<Rightarrow> string \<Rightarrow> status \<times> metadata option \<Rightarrow> bool" where
  "mirrors fs n x \<longleftrightarrow>
     (\<exists>items. set items = (case snd x of None \<Rightarrow> {} | Some md \<Rightarrow> md) \<and> distinct (map fst items) \<and>
        (\<forall>k. lookup fs [n, k] = map_option File (map_of items k))) \<and>
     (\<forall>(d, st) \<in> set sync_statuses. lookup fs [d, n] = (if overlaps (fst x) st then Some (member_link n) else None))"

text \<open>Files that differ only elsewhere.\<close>

lemma mirrors_cong:
  assumes "\<And>k. lookup fs' [n, k] = lookup fs [n, k]"
    and "\<And>d. d \<in> fst ` set sync_statuses \<Longrightarrow> lookup fs' [d, n] = lookup fs [d, n]"
  shows "mirrors fs' n x = mirrors fs n x"
proof -
  have "(\<forall>(d, st) \<in> set sync_statuses. lookup fs' [d, n] = (if overlaps (fst x) st then Some (member_link n) else None)) =
      (\<forall>(d, st) \<in> set sync_statuses. lookup fs [d, n] = (if overlaps (fst x) st then Some (member_link n) else None))"
    by (rule ball_cong [OF refl]) (use assms(2) in force)
  then show ?thesis by (simp add: mirrors_def assms(1))
qed

lemma layout_cong:
  assumes "sync_layout n fs" and "same_device fs' = same_device fs" and "lookup fs' [] = lookup fs []"
    and "lookup fs' [n] = lookup fs [n]" and "\<And>k. lookup fs' [n, k] = lookup fs [n, k]"
    and "\<And>d. d \<in> fst ` set sync_statuses \<Longrightarrow> lookup fs' [d] = lookup fs [d] \<and> lookup fs' [d, n] = lookup fs [d, n]"
  shows "sync_layout n fs'"
  using assms by (simp add: sync_layout_def status_dir_def)

text \<open>Writing a member makes its mirror, and leaves the others.\<close>

lemma write_member_makes:
  assumes "sync_layout (m_name m) fs" and "\<not> m_local m" and "distinct (map fst items)"
    and "set items = (case m_metadata_dict m of None \<Rightarrow> {} | Some md \<Rightarrow> md)"
  defines "fs' \<equiv> snd (write_member m items fs)"
  shows "sync_layout (m_name m) fs'" and "mirrors fs' (m_name m) (m_status m, m_metadata_dict m)"
    and "n \<noteq> m_name m \<Longrightarrow> sync_layout n fs \<Longrightarrow> sync_layout n fs' \<and> mirrors fs' n x = mirrors fs n x"
proof -
  let ?m = "m_name m" and ?dirs = "fst ` set sync_statuses"
  obtain w where w: "w = fs'" "sync_layout ?m w" "\<And>n. lookup w [?m, n] = map_option File (map_of items n)"
    "\<forall>(d, st) \<in> set sync_statuses. lookup w [d, ?m] = (if overlaps (m_status m) st then Some (member_link ?m) else None)"
    "\<And>p. p \<noteq> [?m] \<Longrightarrow> \<forall>n. p \<noteq> [?m, n] \<Longrightarrow> \<forall>d \<in> ?dirs. p \<noteq> [d, ?m] \<Longrightarrow> lookup w p = lookup fs p"
    using write_member_mirrors [OF assms(1-3)] unfolding fs'_def by auto
  note rest = w(5) [unfolded w(1)]
  show l: "sync_layout ?m fs'" using w(1,2) by simp
  show "mirrors fs' ?m (m_status m, m_metadata_dict m)"
    using w(1,3,4) assms(3,4) by (auto simp: mirrors_def)
  assume n: "n \<noteq> ?m" "sync_layout n fs"
  have d: "d \<noteq> ?m" "d \<noteq> n" if "d \<in> ?dirs" for d
    using that assms(1) n(2) by (auto simp: sync_layout_def)
  have same: "lookup fs' [] = lookup fs []" "lookup fs' [n] = lookup fs [n]"
    "lookup fs' [n, k] = lookup fs [n, k]" for k
    using n d by (auto intro!: rest)
  have links: "lookup fs' [d] = lookup fs [d] \<and> lookup fs' [d, n] = lookup fs [d, n]" if "d \<in> ?dirs" for d
    using n d [OF that] by (auto intro!: rest)
  have "same_device fs' = same_device fs" using l assms(1) by (simp add: sync_layout_def)
  then show "sync_layout n fs' \<and> mirrors fs' n x = mirrors fs n x"
    using layout_cong [OF n(2) _ same links] mirrors_cong [of fs' n fs x, OF same(3)] links by simp
qed

text \<open>\<open>_read_local\<close> makes at most two paths that did not exist, and updates at most the local member.\<close>

lemma read_files_keeps: "snd (read_files p names fs) = fs"
  by (induction names) (auto simp: py_bind_def read_bytes_def split: option.splits node.splits sum.splits prod.splits)

lemma iterdir_keeps: "snd (iterdir p fs) = fs"
  by (simp add: iterdir_def split: sum.split option.split node.split)

definition adds_only :: "string list set \<Rightarrow> files \<Rightarrow> files \<Rightarrow> bool" where
  "adds_only ps fs fs' \<longleftrightarrow> same_device fs' = same_device fs \<and>
     (\<forall>q. lookup fs' q \<noteq> lookup fs q \<longrightarrow> q \<in> ps \<and> lookup fs q = None)"

lemma entry_single: "entry fs [c] = Inr q \<Longrightarrow> q = [c]"
  by (auto simp: entry_def split: option.splits node.splits)

lemma mkdir_adds: "adds_only {[c]} fs (snd (mkdir [c] fs))"
  by (auto simp: adds_only_def mkdir_def dest: entry_single split: sum.split option.split)

lemma try_link_adds: "adds_only {[c]} fs (snd (try_link q [c] fs))"
  by (auto simp: adds_only_def try_link_def Let_def py_try_def symlink_def dest: entry_single
      split: sum.splits option.splits prod.splits if_splits)

lemma adds_only_trans:
  "adds_only ps fs fs1 \<Longrightarrow> adds_only qs fs1 fs2 \<Longrightarrow> adds_only (ps \<union> qs) fs fs2"
  unfolding adds_only_def by (metis UnCI)

lemma read_local_adds:
  "adds_only {[ms_local ms], [''.local'']} fs (fst (snd (read_local now (fs, ms)))) \<and>
   (snd (snd (read_local now (fs, ms))) = ms \<or>
    (\<exists>md. snd (snd (read_local now (fs, ms))) = snd (members_update now (ms_local ms) None (Some md) ms)))"
proof -
  let ?l = "ms_local ms"
  obtain r1 fs1 where 1: "mkdir [?l] fs = (r1, fs1)" by (cases "mkdir [?l] fs")
  obtain r2 fs2 where 2: "try_link [?l] [''.local''] fs1 = (r2, fs2)" by (cases "try_link [?l] [''.local''] fs1")
  obtain r3 where 3: "iterdir [?l] fs2 = (r3, fs2)"
    using iterdir_keeps [of "[?l]" fs2] by (cases "iterdir [?l] fs2") simp
  have 4: "read_files [?l] names fs2 = (fst (read_files [?l] names fs2), fs2)" for names
    using read_files_keeps [of "[?l]" names fs2] by (simp add: prod_eq_iff)
  have a1: "adds_only {[?l]} fs fs1" using mkdir_adds [of ?l fs] 1 by simp
  have a2: "adds_only {[?l], [''.local'']} fs fs2"
    using adds_only_trans [OF a1, of "{[''.local'']}" fs2] try_link_adds [of "''.local''" fs1 "[?l]"] 2
    by (simp add: insert_commute)
  have a1': "adds_only {[?l], [''.local'']} fs fs1" using a1 by (auto simp: adds_only_def)
  show ?thesis
  proof (cases r1)
    case (Inl e)
    with 1 a1' show ?thesis by (simp add: read_local_def py_bind_def py_seq_def py_on_def)
  next
    case (Inr u)
    show ?thesis
    proof (cases r2)
      case (Inl e)
      with 1 2 Inr a2 show ?thesis by (simp add: read_local_def py_bind_def py_seq_def py_on_def)
    next
      case (Inr b)
      show ?thesis
      proof (cases r3)
        case (Inl e)
        with 1 2 3 \<open>r1 = Inr u\<close> Inr a2 show ?thesis by (simp add: read_local_def py_bind_def py_seq_def py_on_def)
      next
        case (Inr names)
        show ?thesis
          using 1 2 3 4 [of names] \<open>r1 = Inr u\<close> \<open>r2 = Inr b\<close> Inr a2
          by (cases "fst (read_files [?l] names fs2)")
            (auto simp: read_local_def py_bind_def py_seq_def py_on_def split_beta)
      qed
    qed
  qed
qed

text \<open>The listener is no part of what the worker relies on.\<close>

lemma listener_irrelevant:
  "store_inv (ms\<lparr>ms_listener := l\<rparr>) = store_inv ms" "known (ms\<lparr>ms_listener := l\<rparr>) = known ms"
  by (simp_all add: store_inv_def members_inv_def slots_known_def index_wf_def
      index_inv_def member_inv_def shuffle_at_def known_def [abs_def])

subsection \<open>The invariant of the running tool\<close>

abbreviation app_members :: "sync_app \<Rightarrow> members" where
  "app_members a \<equiv> w_members (ap_worker a)"

definition poll_waits :: "sync_app \<Rightarrow> string list" where
  "poll_waits a = (case sa_poll a of
     None \<Rightarrow> []
   | Some c \<Rightarrow> (case poll_items (cb_event c) (app_members a) of None \<Rightarrow> [] | Some (items, _) \<Rightarrow> items))"

text \<open>The members that a call of \<open>_write_member\<close> is due for.\<close>

definition due_writes :: "sync_app \<Rightarrow> string set" where
  "due_writes a = set (sa_pending a) \<union> set (poll_waits a)"

definition poll_ok :: "sync_app \<Rightarrow> bool" where
  "poll_ok a \<longleftrightarrow> daemon (sa_poll_task a) = Some Running \<and>
     (\<exists>c items. sa_poll a = Some c \<and> poll_items (cb_event c) (app_members a) = Some (items, items \<noteq> []))"

text \<open>
  For each of the names \<open>N\<close>: the entry is what it was in \<open>E\<close>, or a write is due, or the files show it.
\<close>

definition up_to_date ::
    "string set \<Rightarrow> (string \<Rightarrow> status \<times> metadata option) \<Rightarrow> string \<Rightarrow> sync_app \<Rightarrow> bool" where
  "up_to_date N E l a \<longleftrightarrow> worker_inv (ap_worker a) \<and> ms_local (app_members a) = l \<and> poll_ok a \<and>
     (\<forall>n \<in> N. sync_layout n (sa_files a) \<and>
       (entry_of (app_members a) n = E n \<or> n \<in> due_writes a \<or> mirrors (sa_files a) n (entry_of (app_members a) n)))"

text \<open>A step that changes the table, and files of no name in \<open>N\<close>.\<close>

lemma table_step:
  assumes a: "up_to_date N E l a" and c: "sa_poll a = Some c"
    and inv: "worker_inv (ap_worker b)" and l: "ms_local (app_members b) = l"
    and h: "overhears (cb_event c) (set (poll_waits a)) (entry_of (app_members a)) (app_members b)"
    and same: "sa_poll b = sa_poll a" "sa_pending b = sa_pending a" "sa_poll_task b = sa_poll_task a"
    and files: "\<And>n x. n \<in> N \<Longrightarrow> sync_layout n (sa_files b) \<and> mirrors (sa_files b) n x = mirrors (sa_files a) n x"
  shows "up_to_date N E l b"
proof -
  obtain items where i: "poll_items (cb_event c) (app_members b) = Some (items, items \<noteq> [])"
    "set (poll_waits a) \<subseteq> set items"
    "\<And>n. entry_of (app_members b) n = entry_of (app_members a) n \<or> n \<in> set items"
    using h by (auto simp: overhears_def)
  have w: "poll_waits b = items" using i(1) c by (simp add: poll_waits_def same)
  have "poll_ok b" using a i(1) c by (simp add: up_to_date_def poll_ok_def same)
  moreover have "due_writes a \<subseteq> due_writes b" using i(2) by (auto simp: due_writes_def w same)
  moreover have "entry_of (app_members b) n = entry_of (app_members a) n \<or> n \<in> due_writes b" for n
    using i(3) by (auto simp: due_writes_def w)
  ultimately show ?thesis
    using a inv l files unfolding up_to_date_def by (metis subsetD)
qed

text \<open>The table as it is.\<close>

lemma overhears_now:
  assumes "poll_ok a" and "sa_poll a = Some c"
  shows "overhears (cb_event c) (set (poll_waits a)) (entry_of (app_members a)) (app_members a)"
  using assms by (auto simp: overhears_def poll_ok_def poll_waits_def)

lemma work_step:
  assumes a: "up_to_date N E l a" and "event_ok ev"
  shows "up_to_date N E l (app_work ev a)"
proof (cases "worker_step ev (ap_worker a)")
  case None
  then show ?thesis using a by (simp add: app_work_def)
next
  case (Some w)
  have inv: "worker_inv (ap_worker a)" and p: "poll_ok a" and l: "ms_local (app_members a) = l"
    and lay: "n \<in> N \<Longrightarrow> sync_layout n (sa_files a)" for n
    using a by (auto simp: up_to_date_def)
  obtain c where c: "sa_poll a = Some c" using p by (auto simp: poll_ok_def)
  have s: "ap_worker (app_work ev a) = w" "sa_poll (app_work ev a) = sa_poll a"
    "sa_pending (app_work ev a) = sa_pending a" "sa_files (app_work ev a) = sa_files a"
    using Some by (simp_all add: app_work_def)
  have "worker_inv w" using inv assms(2) Some by (rule worker_step_inv)
  moreover have "ms_local (w_members w) = l"
    using local_kept.step_good [OF inv Some l] by (simp add: local_kept.told_packet_def split: packet.split)
  moreover have "overhears (cb_event c) (set (poll_waits a)) (entry_of (app_members a)) (w_members w)"
    using heard.step_good [OF inv Some overhears_now [OF p c]] by (simp add: heard.told_packet_def split: packet.split)
  ultimately show ?thesis
    using table_step [OF a c, of "app_work ev a"] lay by (simp add: s)
qed

lemma adds_only_layout:
  assumes "adds_only {[l], [''.local'']} fs fs'" and "sync_layout n fs" and "n \<noteq> l" and "n \<noteq> ''.local''"
  shows "sync_layout n fs' \<and> mirrors fs' n x = mirrors fs n x"
proof -
  have same: "lookup fs' q = lookup fs q" if "q \<noteq> [l]" "q \<noteq> [''.local'']" for q
    using assms(1) that by (auto simp: adds_only_def)
  have dirs: "lookup fs' [d] = lookup fs [d]" if "d \<in> fst ` set sync_statuses" for d
  proof -
    have "lookup fs [d] = Some Dir" using assms(2) that unfolding sync_layout_def status_dir_def by blast
    then show ?thesis using assms(1) unfolding adds_only_def by (metis option.distinct(1))
  qed
  have dev: "same_device fs' = same_device fs" using assms(1) by (simp add: adds_only_def)
  have "sync_layout n fs'"
    using layout_cong [OF assms(2) dev] same dirs assms(3,4) by simp
  moreover have "mirrors fs' n x = mirrors fs n x"
    by (rule mirrors_cong) (simp_all add: same)
  ultimately show ?thesis by simp
qed

lemma reload_step:
  assumes a: "up_to_date N E l a" and N: "l \<notin> N" "''.local'' \<notin> N"
  shows "up_to_date N E l (snd (sync_read now a))"
proof -
  let ?r = "read_local now (sa_files a, app_members a)"
  let ?b = "snd (sync_read now a)"
  have inv: "worker_inv (ap_worker a)" and p: "poll_ok a" and l: "ms_local (app_members a) = l"
    and lay: "n \<in> N \<Longrightarrow> sync_layout n (sa_files a)" for n
    using a by (auto simp: up_to_date_def)
  obtain c where c: "sa_poll a = Some c" using p by (auto simp: poll_ok_def)
  have s: "ap_worker ?b = (ap_worker a)\<lparr>w_members := snd (snd ?r)\<rparr>" "sa_files ?b = fst (snd ?r)"
    "sa_poll ?b = sa_poll a" "sa_pending ?b = sa_pending a" "sa_poll_task ?b = sa_poll_task a"
    by (simp_all add: sync_read_def py_on_run split_beta)
  have st: "store_inv (app_members a)" using inv by (rule worker_invD)
  have ms: "store.grows (app_members a) (snd (snd ?r)) \<and>
      overhears (cb_event c) (set (poll_waits a)) (entry_of (app_members a)) (snd (snd ?r))"
  proof (cases "snd (snd ?r) = app_members a")
    case True
    then show ?thesis using st overhears_now [OF p c] by (simp add: store.grows_refl)
  next
    case False
    then obtain md where md: "snd (snd ?r) =
        snd (members_update now (ms_local (app_members a)) None (Some md) (app_members a))"
      using read_local_adds [of "app_members a" "sa_files a" now] by auto
    show ?thesis
      unfolding md using st heard.metadata_good [OF st overhears_now [OF p c]]
      by (simp add: store.grows_steps)
  qed
  have "ms_local (snd (snd ?r)) = l" using ms l by (simp add: store.grows_def)
  moreover have "worker_inv ((ap_worker a)\<lparr>w_members := snd (snd ?r)\<rparr>)"
    using inv ms by (blast intro: members_step_inv')
  moreover have "sync_layout n (fst (snd ?r)) \<and> mirrors (fst (snd ?r)) n x = mirrors (sa_files a) n x"
    if "n \<in> N" for n x
  proof (rule adds_only_layout [OF _ lay [OF that]])
    show "adds_only {[l], [''.local'']} (sa_files a) (fst (snd ?r))"
      using read_local_adds [of "app_members a" "sa_files a" now] by (simp add: l)
    show "n \<noteq> l" "n \<noteq> ''.local''" using that N by auto
  qed
  ultimately show ?thesis
    using table_step [OF a c, of ?b] ms by (simp add: s)
qed

text \<open>A turn of the poll hands all that it holds to pending calls.\<close>

lemma poll_step:
  assumes a: "up_to_date N E l a"
  shows "up_to_date N E l (poll_turn a)" and "poll_waits (poll_turn a) = []"
proof -
  obtain c items where c: "sa_poll a = Some c"
    and i: "poll_items (cb_event c) (app_members a) = Some (items, items \<noteq> [])"
    using a by (auto simp: up_to_date_def poll_ok_def)
  let ?ms = "app_members a" and ?l = "ms_listener (app_members a)"
  have w: "poll_waits a = items" using c i by (simp add: poll_waits_def)
  define l1 where "l1 = ?l\<lparr>lst_waiting := AList.delete (cb_event c) (lst_waiting ?l)\<rparr>"
  define r where "r = (if items \<noteq> [] then (items, \<lparr>cb_event = lst_next_event ?l\<rparr>, snd (poll_begin l1)) else ([], c, ?l))"
  have "callback_round c ?l = r"
    using callback_round_cases [of ?l c items "items \<noteq> []"] i by (simp add: poll_items_def r_def l1_def Let_def)
  then have b: "poll_turn a = a\<lparr>sa_poll := Some (fst (snd r)), sa_pending := sa_pending a @ items,
      ap_worker := (ap_worker a)\<lparr>w_members := ?ms\<lparr>ms_listener := snd (snd r)\<rparr>\<rparr>\<rparr>"
    using c by (simp add: poll_turn_def Let_def split_beta) (simp add: r_def)
  let ?ms' = "?ms\<lparr>ms_listener := snd (snd r)\<rparr>"
  have e: "poll_items (cb_event (fst (snd r))) ?ms' = Some ([], False)"
    using i by (simp add: r_def poll_items_def l1_def)
  show p: "poll_waits (poll_turn a) = []" by (simp add: b poll_waits_def e)
  have d: "due_writes (poll_turn a) = due_writes a"
    unfolding due_writes_def p w by (simp add: b)
  have "poll_ok (poll_turn a)" using a e by (simp add: b up_to_date_def poll_ok_def)
  moreover have "worker_inv (ap_worker (poll_turn a))"
  proof -
    have "store.grows ?ms ?ms'"
      using worker_invD(6) [of "ap_worker a"] a
      by (simp add: up_to_date_def store.grows_def listener_irrelevant)
    then show ?thesis using a by (simp add: b up_to_date_def members_step_inv')
  qed
  ultimately show "up_to_date N E l (poll_turn a)"
    using a unfolding up_to_date_def d by (simp add: b entry_of_def)
qed

text \<open>A call of \<open>_write_member\<close> makes the mirror of its member.\<close>

lemma pending_without: "set xs - {xs ! k} \<subseteq> set (take k xs @ drop (Suc k) xs)" if "k < length xs" for xs :: "'a list"
  using that by (subst (1) id_take_nth_drop [OF that]) auto

lemma write_step:
  assumes a: "up_to_date N E l a" and N: "l \<notin> N" "\<And>n. known (app_members a) n \<Longrightarrow> n = l \<or> n \<in> N"
  shows "up_to_date N E l (write_turn k items a)"
proof (cases "write_turn k items a = a")
  case True
  then show ?thesis using a by simp
next
  case False
  let ?n = "sa_pending a ! k" and ?fs = "sa_files a"
  obtain m where k: "k < length (sa_pending a)" and m: "map_of (ms_members (app_members a)) ?n = Some m"
    and items: "set items = (case m_metadata_dict m of None \<Rightarrow> {} | Some md \<Rightarrow> md)" "distinct (map fst items)"
    and b: "write_turn k items a = a\<lparr>sa_files := snd (write_member m items ?fs),
      sa_pending := take k (sa_pending a) @ drop (Suc k) (sa_pending a)\<rparr>"
    using False by (auto simp: write_turn_def split: if_splits option.splits)
  have inv: "members_inv (app_members a)" and l: "ms_local (app_members a) = l"
    using a worker_invD(6) [of "ap_worker a"] by (auto simp: up_to_date_def store_inv_def)
  note name = members_invD(1,2) [OF inv m, unfolded l]
  let ?b = "write_turn k items a"
  have pend: "set (sa_pending a) - {?n} \<subseteq> set (sa_pending ?b)"
    unfolding b using pending_without [OF k] by simp
  have w: "poll_waits ?b = poll_waits a" by (simp add: b poll_waits_def split: option.split)
  have e: "entry_of (app_members ?b) = entry_of (app_members a)" by (simp add: b entry_of_def [abs_def])
  have files: "sync_layout n (sa_files ?b) \<and>
      (if n = ?n then mirrors (sa_files ?b) n (entry_of (app_members a) n)
       else mirrors (sa_files ?b) n (entry_of (app_members a) n) = mirrors ?fs n (entry_of (app_members a) n))" if n: "n \<in> N" for n
  proof (cases "m_local m")
    case True
    then have "sa_files ?b = ?fs" by (simp add: b write_member_def)
    moreover have "n \<noteq> ?n" using True name N(1) n by auto
    ultimately show ?thesis using a n by (simp add: up_to_date_def)
  next
    case False
    have "known (app_members a) ?n" using m by (simp add: known_def)
    then have "?n \<in> N" using N(2) name False by auto
    then have lay: "sync_layout (m_name m) ?fs" using a name by (simp add: up_to_date_def)
    note made = write_member_makes [OF lay False items(2,1)]
    have "entry_of (app_members a) ?n = (m_status m, m_metadata_dict m)" by (simp add: entry_of_def m)
    then show ?thesis
      using made(1,2) made(3) [of n] a n name by (auto simp: b up_to_date_def)
  qed
  have "worker_inv (ap_worker ?b)" "poll_ok ?b" "ms_local (app_members ?b) = l"
    using a by (simp_all add: b up_to_date_def poll_ok_def)
  moreover have "entry_of (app_members a) n = E n \<or> n \<in> due_writes ?b \<or>
      mirrors (sa_files ?b) n (entry_of (app_members a) n)" if n: "n \<in> N" for n
  proof (cases "n = ?n")
    case True
    then show ?thesis using files [OF n] by simp
  next
    case False
    have "entry_of (app_members a) n = E n \<or> n \<in> due_writes a \<or> mirrors ?fs n (entry_of (app_members a) n)"
      using a n by (simp add: up_to_date_def)
    then show ?thesis using files [OF n] False pend by (auto simp: due_writes_def w)
  qed
  ultimately show ?thesis unfolding up_to_date_def e using files by auto
qed

subsection \<open>No change is lost\<close>

lemma sync_step_up_to_date:
  assumes a: "up_to_date N E l a" and "l \<notin> N" "''.local'' \<notin> N"
    and "\<And>n. known (app_members a) n \<Longrightarrow> n = l \<or> n \<in> N" and ok: "\<And>wev. ev = Work wev \<Longrightarrow> event_ok wev"
  shows "up_to_date N E l (sync_step ev a)"
proof (cases ev)
  case (Work wev)
  then show ?thesis using work_step [OF a ok] by (simp add: sync_step_def)
next
  case (Reload now)
  then show ?thesis using reload_step [OF a assms(2,3)] by (simp add: sync_step_def)
next
  case Poll_turn
  then show ?thesis using poll_step(1) [OF a] a by (simp add: sync_step_def)
next
  case (Write k items)
  then show ?thesis using write_step [OF a assms(2,4)] by (simp add: sync_step_def)
qed

text \<open>Members are never forgotten.\<close>

interpretation known_kept: table_property "\<lambda>ms. known ms n" "\<lambda>n md. True" "\<lambda>n md. True" for n
  by standard (simp_all add: store.lookup_knows store.change_knows store.gossip_knows store.ack_knows)

lemma worker_step_grows:
  assumes inv: "worker_inv w" and "event_ok ev" and run: "worker_step ev w = Some w'"
  shows "store.grows (w_members w) (w_members w')"
  using worker_invD(6) [OF worker_step_inv [OF assms]] local_kept.step_good [OF inv run, of "ms_local (w_members w)"]
    known_kept.step_good [OF inv run]
  by (simp add: store.grows_def local_kept.told_packet_def known_kept.told_packet_def split: packet.split)

text \<open>The worker of the tool keeps its invariant, and its local member.\<close>

lemma sync_step_grows:
  assumes inv: "worker_inv (ap_worker a)" and ok: "\<And>wev. ev = Work wev \<Longrightarrow> event_ok wev"
  shows "worker_inv (ap_worker (sync_step ev a)) \<and> store.grows (app_members a) (app_members (sync_step ev a))"
proof -
  have st: "store_inv (app_members a)" using inv by (rule worker_invD)
  note same = st [THEN store.grows_refl]
  show ?thesis
  proof (cases ev)
    case (Work wev)
    then show ?thesis
      using worker_step_inv [OF inv ok] worker_step_grows [OF inv ok] inv same
      by (simp add: sync_step_def app_work_def split: option.split)
  next
    case (Reload now)
    have "store.grows (app_members a) (snd (snd (read_local now (sa_files a, app_members a))))"
      using read_local_adds [of "app_members a" "sa_files a" now] st
      by (auto simp: store.grows_refl store.grows_steps)
    then show ?thesis
      using members_step_inv' [OF inv] Reload by (simp add: sync_step_def sync_read_def py_on_run split_beta)
  next
    case Poll_turn
    have "store.grows (app_members a) ((app_members a)\<lparr>ms_listener := l\<rparr>)" for l
      using st by (simp add: store.grows_def listener_irrelevant)
    then show ?thesis
      using members_step_inv' [OF inv] inv same Poll_turn
      by (simp add: sync_step_def poll_turn_def Let_def split: option.split prod.split)
  next
    case (Write k items)
    then show ?thesis using inv same by (simp add: sync_step_def write_turn_def split: option.split)
  qed
qed

lemma sync_steps_grow:
  "worker_inv (ap_worker a) \<Longrightarrow> (\<And>wev. Work wev \<in> set evs \<Longrightarrow> event_ok wev) \<Longrightarrow>
     worker_inv (ap_worker (fold sync_step evs a)) \<and> store.grows (app_members a) (app_members (fold sync_step evs a))"
proof (induction evs arbitrary: a)
  case Nil
  then show ?case by (simp add: store.grows_refl worker_invD)
next
  case (Cons ev evs)
  have "worker_inv (ap_worker (sync_step ev a)) \<and> store.grows (app_members a) (app_members (sync_step ev a))"
    using Cons.prems by (intro sync_step_grows) auto
  then show ?case
    using Cons.IH [of "sync_step ev a"] Cons.prems(2) store.grows_trans by auto
qed

lemma sync_steps_up_to_date:
  assumes "up_to_date N E l a" and "l \<notin> N" "''.local'' \<notin> N"
    and "\<And>wev. Work wev \<in> set evs \<Longrightarrow> event_ok wev"
    and "\<And>n. known (app_members (fold sync_step evs a)) n \<Longrightarrow> n = l \<or> n \<in> N"
  shows "up_to_date N E l (fold sync_step evs a)"
  using assms(4,5)
proof (induction evs rule: rev_induct)
  case Nil
  then show ?case using assms(1) by simp
next
  case (snoc ev evs)
  let ?b = "fold sync_step evs a"
  have "worker_inv (ap_worker a)" using assms(1) by (simp add: up_to_date_def)
  then have inv: "worker_inv (ap_worker ?b)" using sync_steps_grow snoc.prems(1) by simp
  have known: "n = l \<or> n \<in> N" if "known (app_members ?b) n" for n
    using snoc.prems sync_step_grows [OF inv, of ev] that by (auto simp: store.grows_def)
  then have "up_to_date N E l ?b" using snoc.IH snoc.prems(1) by simp
  then show ?case
    using sync_step_up_to_date [of N E l ?b ev] known snoc.prems(1) assms(2,3) by simp
qed

text \<open>The first turn of the poll, from which on it hears everything.\<close>

lemma first_poll:
  assumes "worker_inv (ap_worker a)" and "sa_poll a = None" and "daemon (sa_poll_task a) = Some Running"
    and "\<And>n. n \<in> N \<Longrightarrow> sync_layout n (sa_files a)"
  shows "up_to_date N (entry_of (app_members a)) (ms_local (app_members a)) (poll_turn a)"
proof -
  let ?ms = "app_members a"
  let ?ms' = "?ms\<lparr>ms_listener := snd (poll_begin (ms_listener ?ms))\<rparr>"
  have b: "poll_turn a = a\<lparr>sa_poll := Some \<lparr>cb_event = lst_next_event (ms_listener ?ms)\<rparr>,
      ap_worker := (ap_worker a)\<lparr>w_members := ?ms'\<rparr>\<rparr>"
    using assms(2) by (simp add: poll_turn_def callback_start_def Let_def split_beta)
  have "store.grows ?ms ?ms'"
    using worker_invD(6) [OF assms(1)] by (simp add: store.grows_def listener_irrelevant)
  then have "worker_inv ((ap_worker a)\<lparr>w_members := ?ms'\<rparr>)" using assms(1) by (rule members_step_inv' [rotated])
  then show ?thesis
    using assms(3,4) by (simp add: b up_to_date_def poll_ok_def poll_items_def entry_of_def)
qed


definition mirror_start :: sync_app where
  "mirror_start = demo_app\<lparr>sa_poll_task := daemon_enter daemon_init\<rparr>"

definition mirror_events :: "sync_event list" where
  "mirror_events =
     [Work (Receive (Gossip \<lparr>src_name = ''b'', src_validity = [1]\<rparr> ''b'' 5 ONLINE (Some {(''k'', [1])}))),
      Work (Handle (\<lambda>_. []) 1), Poll_turn, Write 0 [(''k'', [1])]]"

definition mirror_end :: sync_app where
  "mirror_end = fold sync_step (Poll_turn # mirror_events) mirror_start"

lemma mirror_run:
  "(due_writes mirror_end, map fst (ms_members (app_members mirror_end)), ms_local (app_members mirror_end),
    map_option (\<lambda>m. (m_status m, m_metadata_dict m)) (map_of (ms_members (app_members mirror_end)) ''b'')) =
   ({}, [''me'', ''b''], ''me'', Some (ONLINE, Some {(''k'', [1])}))"
  by code_simp


end
