(* ===== verification/Swim_Demo_Program.thy ===== *)
theory Swim_Demo_Program
  imports Swim_Program
begin

text \<open>
  The demo program: \<open>main\<close> and \<open>run\<close> of \<open>swimprotocol/demo/__init__.py\<close>, with \<open>run_screen\<close> and the
  life of the thread of \<open>swimprotocol/demo/screen.py\<close>, and the task of \<open>swimprotocol/demo/changes.py\<close>.
  The \<open>CallbackPoll\<close> of the screen only wakes the thread, which is no change of state here.
\<close>

subsection \<open>State\<close>

text \<open>The thread of the screen, and the task that changes the token: new, in its loop, or done.\<close>

datatype screen_thread = Thread_new | Thread_running | Thread_returned | Thread_raised py_error

datatype token_task = Token_none | Token_new | Token_loop | Token_failed py_error | Token_cancelled

record demo_state = app +
  da_done :: bool
  da_thread :: screen_thread
  da_poll_task :: daemon_task
  da_typed :: bytes
  da_polls :: nat
  da_token :: token_task

text \<open>The screen and \<open>typed\<close> are made when \<open>run_screen\<close> is entered; \<open>da_polls\<close> is what is left of the
  twenty polls after a drawing.\<close>

definition demo_make ::
    "nat \<Rightarrow> environment \<Rightarrow> (string \<Rightarrow> bytes) \<Rightarrow> int \<Rightarrow> kwargs \<Rightarrow> py_error + demo_state" where
  "demo_make node E rnd now args =
     result_bind (make_app node E rnd now args) (\<lambda>a.
     Inr (app.extend a \<lparr>da_done = False, da_thread = Thread_new, da_poll_task = daemon_init,
       da_typed = [], da_polls = 0, da_token = Token_none\<rparr>))"

subsection \<open>What happens while the program waits\<close>

text \<open>
  A step of the worker; the thread draws (decoding with the given function, on a terminal of the
  given size) or polls the condition variable and, if it is not notified, the keyboard, at a time
  and with a key, -1 for none; curses fails; the task of the token has a turn.
\<close>

datatype demo_event =
    Demo_work worker_event
  | Draw "bytes \<Rightarrow> string option" int int
  | Poll_key bool int int
  | Thread_fails py_error
  | Token_turn int bytes

text \<open>A turn of the thread's loop; an exception ends the thread.\<close>

definition thread_turn :: "(py_error + 'x) \<times> demo_state \<Rightarrow> demo_state" where
  "thread_turn r = (case r of
     (Inl e, a) \<Rightarrow> a\<lparr>da_thread := Thread_raised e\<rparr>
   | (Inr _, a) \<Rightarrow> a)"

definition put_members :: "members \<Rightarrow> demo_state \<Rightarrow> demo_state" where
  "put_members ms a = a\<lparr>ap_worker := (ap_worker a)\<lparr>w_members := ms\<rparr>\<rparr>"

text \<open>The loop of \<open>Screen.main\<close>: it draws, then polls twenty times or until it is notified.\<close>

definition screen_draw :: "(bytes \<Rightarrow> string option) \<Rightarrow> int \<Rightarrow> int \<Rightarrow> demo_state \<Rightarrow> demo_state" where
  "screen_draw decode lines cols a =
     (if da_thread a = Thread_running \<and> da_polls a = 0
      then
        (case render decode lines cols (w_members (ap_worker a)) of (r, ms) \<Rightarrow>
           thread_turn (r, put_members ms (a\<lparr>da_polls := 20\<rparr>)))
      else a)"

definition screen_poll :: "bool \<Rightarrow> int \<Rightarrow> int \<Rightarrow> demo_state \<Rightarrow> demo_state" where
  "screen_poll woken now ch a =
     (if da_thread a = Thread_running \<and> da_polls a \<noteq> 0
      then
        if woken then a\<lparr>da_polls := 0\<rparr>
        else
          (case type_key (now, ch) (da_typed a, w_members (ap_worker a)) of (r, (typed, ms)) \<Rightarrow>
             thread_turn (r, put_members ms (a\<lparr>da_typed := typed, da_polls := da_polls a - 1\<rparr>)))
      else a)"

text \<open>A turn of the task; an exception ends it.\<close>

definition token_goes :: "(members, unit) py \<Rightarrow> demo_state \<Rightarrow> demo_state" where
  "token_goes m a = (case m (w_members (ap_worker a)) of
     (Inl e, ms) \<Rightarrow> put_members ms (a\<lparr>da_token := Token_failed e\<rparr>)
   | (Inr _, ms) \<Rightarrow> put_members ms (a\<lparr>da_token := Token_loop\<rparr>))"

definition token_turn :: "int \<Rightarrow> bytes \<Rightarrow> demo_state \<Rightarrow> demo_state" where
  "token_turn now new_token a = (case da_token a of
     Token_new \<Rightarrow> token_goes (py_seq randomize_begin (randomize_turn now new_token)) a
   | Token_loop \<Rightarrow> token_goes (randomize_turn now new_token) a
   | _ \<Rightarrow> a)"

definition demo_step :: "demo_event \<Rightarrow> demo_state \<Rightarrow> demo_state" where
  "demo_step ev a = (case ev of
     Demo_work wev \<Rightarrow> app_work wev a
   | Draw decode lines cols \<Rightarrow> screen_draw decode lines cols a
   | Poll_key woken now ch \<Rightarrow> screen_poll woken now ch a
   | Thread_fails e \<Rightarrow> if da_thread a = Thread_running then a\<lparr>da_thread := Thread_raised e\<rparr> else a
   | Token_turn now new_token \<Rightarrow> token_turn now new_token a)"

subsection \<open>The screen\<close>

definition screen_cancel :: "demo_state \<Rightarrow> demo_state" where
  "screen_cancel a = a\<lparr>da_done := True\<rparr>"

text \<open>
  \<open>wait_for(main_task, None)\<close> waits until the thread has ended: for ever, if nothing tells it to. Its
  last turn may raise as well (\<open>ending\<close>); what that turn still types or draws is among the events.
\<close>

definition wait_thread :: "py_error option \<Rightarrow> (demo_state, unit) coro" where
  "wait_thread ending = (\<lambda>a. case da_thread a of
     Thread_raised e \<Rightarrow> Some (Inl e, a)
   | Thread_running \<Rightarrow>
       if \<not> da_done a then None
       else (case ending of
               None \<Rightarrow> Some (Inr (), a\<lparr>da_thread := Thread_returned\<rparr>)
             | Some e \<Rightarrow> Some (Inl e, a\<lparr>da_thread := Thread_raised e\<rparr>))
   | _ \<Rightarrow> Some (Inr (), a))"

definition screen_context :: "py_error option \<Rightarrow> (demo_state, unit) coro \<times> (demo_state, unit) coro" where
  "screen_context ending =
     (ready (py_modify (\<lambda>a. a\<lparr>da_thread := Thread_running, da_poll_task := daemon_enter (da_poll_task a)\<rparr>)),
      leave [ready (py_modify screen_cancel),
        ready (py_modify (\<lambda>a. a\<lparr>da_poll_task := daemon_exit (da_poll_task a)\<rparr>)), wait_thread ending] (Inr ()))"

text \<open>The stack that \<open>change_metadata\<close> returns, whose task is made before the stack is entered.\<close>

definition token_context :: "rat option \<Rightarrow> (demo_state, unit) coro \<times> (demo_state, unit) coro" where
  "token_context interval =
     (ready (py_modify (\<lambda>a. if interval = None then a else a\<lparr>da_token := Token_new\<rparr>)),
      ready (py_modify (\<lambda>a. case da_token a of
          Token_new \<Rightarrow> a\<lparr>da_token := Token_cancelled\<rparr>
        | Token_loop \<Rightarrow> a\<lparr>da_token := Token_cancelled\<rparr>
        | _ \<Rightarrow> a)))"

subsection \<open>The program\<close>

definition demo_serve ::
    "(string \<Rightarrow> py_value \<Rightarrow> py_error + unit) \<Rightarrow> (string \<Rightarrow> py_value \<Rightarrow> py_error + unit) \<Rightarrow>
     rat option \<Rightarrow> demo_event list \<Rightarrow> py_error option \<Rightarrow> (demo_state, int) coro" where
  "demo_serve server endpoint interval evs ending =
     with_contexts
       [map_prod ready ready (transport_context server endpoint), map_prod ready ready worker_context,
        screen_context ending, token_context interval] []
       (ready (py_seq (py_modify (fold demo_step evs)) (py_return 0)))"

text \<open>
  The last \<open>--token-interval\<close> of the command line, whose text \<open>float\<close> must take (\<open>float_of\<close>; only numbers
  are intervals here).
\<close>

definition token_flag :: "string \<times> string \<Rightarrow> bool" where
  "token_flag given \<longleftrightarrow> fst given = ''-i'' \<or> fst given = ''--token-interval''"

fun token_interval :: "(string \<Rightarrow> rat option) \<Rightarrow> (string \<times> string) list \<Rightarrow> rat option \<Rightarrow> py_error + rat option" where
  "token_interval float_of [] interval = Inr interval"
| "token_interval float_of (given # options) interval =
     (if token_flag given
      then (case float_of (snd given) of
              None \<Rightarrow> Inl SystemExit
            | Some x \<Rightarrow> token_interval float_of options (Some x))
      else token_interval float_of options interval)"

definition demo_main ::
    "(string \<Rightarrow> string \<Rightarrow> (py_error + unit) list) \<Rightarrow> (string \<Rightarrow> rat option) \<Rightarrow> nat \<Rightarrow> environment \<Rightarrow>
     (string \<Rightarrow> bytes) \<Rightarrow> int \<Rightarrow> (string \<Rightarrow> py_value \<Rightarrow> py_error + unit) \<Rightarrow>
     (string \<Rightarrow> py_value \<Rightarrow> py_error + unit) \<Rightarrow> demo_event list \<Rightarrow> py_error option \<Rightarrow> (string \<times> string) list \<Rightarrow>
     (py_error + int) option" where
  "demo_main entry_points float_of node E rnd now server endpoint evs ending options =
     (case load_transport entry_points ''udp'' ''swimprotocol.transport'' of
        Inl e \<Rightarrow> Some (Inl e)
      | Inr _ \<Rightarrow>
     (case parse_options (udp_arguments ''--'') (filter (\<lambda>given. \<not> token_flag given) options) of
        Inl e \<Rightarrow> Some (Inl e)
      | Inr args \<Rightarrow>
     (case token_interval float_of options None of
        Inl e \<Rightarrow> Some (Inl e)
      | Inr interval \<Rightarrow>
     map_option config_exits
       (case demo_make node E rnd now args of
          Inl e \<Rightarrow> Some (Inl e)
        | Inr a \<Rightarrow> map_option fst (demo_serve server endpoint interval evs ending a)))))"

subsection \<open>The demo ends\<close>

definition thread_started :: "demo_state \<Rightarrow> bool" where
  "thread_started a \<longleftrightarrow> da_thread a = Thread_running \<or> (\<exists>e. da_thread a = Thread_raised e)"

lemma thread_turn_fields:
  "ap_transport (thread_turn (r, a)) = ap_transport a" "da_poll_task (thread_turn (r, a)) = da_poll_task a"
  "da_thread a = Thread_running \<Longrightarrow> thread_started (thread_turn (r, a))"
  by (cases r; simp add: thread_turn_def thread_started_def)+

lemma token_goes_fields:
  "ap_transport (token_goes m a) = ap_transport a" "da_poll_task (token_goes m a) = da_poll_task a"
  "da_thread (token_goes m a) = da_thread a"
  by (simp_all add: token_goes_def put_members_def split: prod.split sum.split)

lemma demo_step_fields:
  "ap_transport (demo_step ev a) = ap_transport a \<and> da_poll_task (demo_step ev a) = da_poll_task a \<and>
   (thread_started a \<longrightarrow> thread_started (demo_step ev a))"
proof (cases ev)
  case (Demo_work wev)
  then show ?thesis
    by (simp add: demo_step_def thread_started_def app_work_def split: option.split)
next
  case (Draw decode lines cols)
  then show ?thesis
    by (simp add: demo_step_def screen_draw_def thread_turn_fields put_members_def split: prod.split)
next
  case (Poll_key woken now ch)
  then show ?thesis
    by (simp add: demo_step_def screen_poll_def thread_turn_fields put_members_def split: prod.split)
      (simp add: thread_started_def)
next
  case (Thread_fails e)
  then show ?thesis by (simp add: demo_step_def thread_started_def)
next
  case (Token_turn now new_token)
  then show ?thesis
    by (simp add: demo_step_def token_turn_def thread_started_def token_goes_fields split: token_task.split)
qed

lemma demo_steps_fields:
  "ap_transport (fold demo_step evs a) = ap_transport a \<and> da_poll_task (fold demo_step evs a) = da_poll_task a \<and>
   (thread_started a \<longrightarrow> thread_started (fold demo_step evs a))"
proof (induction evs arbitrary: a)
  case (Cons ev evs)
  then show ?case using demo_step_fields [of ev a] by (metis fold_simps(2))
qed simp

lemma thread_turn_follows: "task_follows (thread_turn (r, a)) = task_follows a"
  by (cases r) (simp_all add: thread_turn_def task_follows_def run_result_def)

lemma put_members_follows:
  "task_follows (put_members ms a) = task_follows a"
  "task_follows (a\<lparr>da_typed := typed\<rparr>) = task_follows a"
  "task_follows (a\<lparr>da_polls := n\<rparr>) = task_follows a"
  "task_follows (a\<lparr>da_token := token\<rparr>) = task_follows a"
  by (simp_all add: put_members_def task_follows_def run_result_def)

lemma token_goes_follows: "task_follows (token_goes m a) = task_follows a"
  by (simp add: token_goes_def put_members_follows split: prod.split sum.split)

lemma demo_step_follows: "task_follows a \<Longrightarrow> task_follows (demo_step ev a)"
proof (cases ev)
  case (Demo_work wev)
  then show "task_follows a \<Longrightarrow> ?thesis" by (simp add: demo_step_def app_work_follows)
next
  case (Thread_fails e)
  then show "task_follows a \<Longrightarrow> ?thesis" by (simp add: demo_step_def task_follows_def run_result_def)
qed (simp_all add: demo_step_def screen_draw_def screen_poll_def token_turn_def
    thread_turn_follows put_members_follows token_goes_follows split: prod.split token_task.split)

lemma demo_steps_follow: "task_follows a \<Longrightarrow> task_follows (fold demo_step evs a)"
  by (induction evs arbitrary: a) (simp_all add: demo_step_follows)

text \<open>The demo once all its contexts are entered.\<close>

definition demo_entered ::
    "(string \<Rightarrow> py_value \<Rightarrow> py_error + unit) \<Rightarrow> (string \<Rightarrow> py_value \<Rightarrow> py_error + unit) \<Rightarrow> rat option \<Rightarrow>
     demo_state \<Rightarrow> demo_state" where
  "demo_entered server endpoint interval a =
     (let b = a\<lparr>ap_transport := snd (transport_enter server endpoint (ap_transport a)),
            ap_worker_task := daemon_enter (ap_worker_task a), da_thread := Thread_running,
            da_poll_task := daemon_enter (da_poll_task a)\<rparr>
      in if interval = None then b else b\<lparr>da_token := Token_new\<rparr>)"

text \<open>What leaving the contexts does after the events: the exception of the thread, if there is one, goes on.\<close>

definition thread_ends :: "py_error option \<Rightarrow> demo_state \<Rightarrow> py_error option" where
  "thread_ends ending a = (case da_thread a of Thread_raised e \<Rightarrow> Some e | _ \<Rightarrow> ending)"

definition token_running :: "demo_state \<Rightarrow> bool" where
  "token_running a \<longleftrightarrow> da_token a = Token_new \<or> da_token a = Token_loop"

definition demo_left :: "py_error option \<Rightarrow> demo_state \<Rightarrow> demo_state" where
  "demo_left ending a =
     a\<lparr>ap_transport := transport_exit (ap_transport a), ap_worker_task := daemon_exit (ap_worker_task a),
       da_done := True,
       da_thread := (case thread_ends ending a of None \<Rightarrow> Thread_returned | Some e \<Rightarrow> Thread_raised e),
       da_poll_task := daemon_exit (da_poll_task a),
       da_token := (if token_running a then Token_cancelled else da_token a)\<rparr>"

lemma wait_cancelled:
  assumes "thread_started a" and "da_done a"
  shows "wait_thread ending a =
    (case thread_ends ending a of
       None \<Rightarrow> Some (Inr (), a\<lparr>da_thread := Thread_returned\<rparr>)
     | Some e \<Rightarrow> Some (Inl e, a\<lparr>da_thread := Thread_raised e\<rparr>))"
proof -
  have same: "a = a\<lparr>da_thread := Thread_raised e\<rparr>" if "da_thread a = Thread_raised e" for e
    using that by (cases a) simp
  from assms show ?thesis
    by (auto simp: thread_started_def wait_thread_def thread_ends_def intro: same split: option.split)
qed

lemma screen_exit:
  assumes "thread_started a"
  shows "snd (screen_context ending) a =
    Some (case thread_ends ending a of None \<Rightarrow> Inr () | Some e \<Rightarrow> Inl e,
      a\<lparr>da_done := True, da_poll_task := daemon_exit (da_poll_task a),
        da_thread := (case thread_ends ending a of None \<Rightarrow> Thread_returned | Some e \<Rightarrow> Thread_raised e)\<rparr>)"
proof -
  let ?a = "a\<lparr>da_done := True, da_poll_task := daemon_exit (da_poll_task a)\<rparr>"
  have "wait_thread ending ?a = (case thread_ends ending a of
       None \<Rightarrow> Some (Inr (), ?a\<lparr>da_thread := Thread_returned\<rparr>)
     | Some e \<Rightarrow> Some (Inl e, ?a\<lparr>da_thread := Thread_raised e\<rparr>))"
    using assms wait_cancelled [of ?a ending] by (simp add: thread_started_def thread_ends_def)
  then show ?thesis
    by (simp add: screen_context_def leave_def screen_cancel_def split: option.split)
qed

lemma token_exit:
  "snd (token_context interval) a =
     Some (Inr (), a\<lparr>da_token := (if token_running a then Token_cancelled else da_token a)\<rparr>)"
proof -
  have "a\<lparr>da_token := da_token a\<rparr> = a" by simp
  then show ?thesis
    by (cases "da_token a") (simp_all add: token_context_def token_running_def)
qed

lemma demo_serve_entered:
  fixes evs :: "demo_event list"
  assumes "fst (transport_enter server endpoint (ap_transport a)) = Inr ()"
  shows "demo_serve server endpoint interval evs ending a =
    (let b = fold demo_step evs (demo_entered server endpoint interval a)
     in Some (case thread_ends ending b of None \<Rightarrow> Inr 0 | Some e \<Rightarrow> Inl e, demo_left ending b))"
proof -
  let ?a = "demo_entered server endpoint interval a"
  define b where "b = fold demo_step evs ?a"
  obtain enter_screen exit_screen where screen: "screen_context ending = (enter_screen, exit_screen)"
    by (cases "screen_context ending")
  obtain enter_token exit_token where token: "token_context interval = (enter_token, exit_token)"
    by (cases "token_context interval")
  have enter: "enter_screen x = Some (Inr (), x\<lparr>da_thread := Thread_running, da_poll_task := daemon_enter (da_poll_task x)\<rparr>)"
      "enter_token x = Some (Inr (), if interval = None then x else x\<lparr>da_token := Token_new\<rparr>)" for x
    using screen token by (auto simp: screen_context_def token_context_def)
  have started: "thread_started b"
    using demo_steps_fields [of evs ?a] by (simp add: b_def thread_started_def demo_entered_def Let_def)
  have exit_token: "exit_token b = Some (Inr (), b\<lparr>da_token := (if token_running b then Token_cancelled else da_token b)\<rparr>)"
    using token_exit [of interval b] by (simp add: token)
  let ?b = "b\<lparr>da_token := (if token_running b then Token_cancelled else da_token b)\<rparr>"
  have "thread_started ?b" "thread_ends ending ?b = thread_ends ending b"
    using started by (simp_all add: thread_started_def thread_ends_def)
  then have exit_screen: "exit_screen ?b = Some (case thread_ends ending b of None \<Rightarrow> Inr () | Some e \<Rightarrow> Inl e,
      ?b\<lparr>da_done := True, da_poll_task := daemon_exit (da_poll_task b),
        da_thread := (case thread_ends ending b of None \<Rightarrow> Thread_returned | Some e \<Rightarrow> Thread_raised e)\<rparr>)"
    using screen_exit [of ?b ending] by (simp add: screen)
  have body: "with_contexts [] [exit_token, exit_screen, x, y] (ready (py_seq (py_modify (fold demo_step evs)) (py_return 0)))
      ?a = leave [exit_token, exit_screen, x, y] (Inr 0) b" for x y
    by (simp add: b_def py_seq_def py_bind_def)
  have "with_contexts [(enter_screen, exit_screen), (enter_token, exit_token)] [x, y]
      (ready (py_seq (py_modify (fold demo_step evs)) (py_return 0)))
      (a\<lparr>ap_transport := snd (transport_enter server endpoint (ap_transport a)),
         ap_worker_task := daemon_enter (ap_worker_task a)\<rparr>) =
    leave [exit_token, exit_screen, x, y] (Inr 0) b" for x y
    unfolding body [symmetric] demo_entered_def Let_def
    by (simp add: enter split: if_split del: with_contexts.simps(1))
  then have "demo_serve server endpoint interval evs ending a =
      leave [exit_token, exit_screen, ready (snd worker_context), ready (snd (transport_context server endpoint))]
        (Inr 0) b"
    using assms by (simp add: demo_serve_def screen token transport_context_def worker_context_def on_transport_run)
  then show ?thesis
    unfolding Let_def b_def [symmetric]
    by (simp add: leave_def exit_token exit_screen worker_context_def transport_context_def on_transport_run
        demo_left_def split: option.split)
qed

text \<open>
  C35: The demo ends. Whatever happens while it waits: if the server and the socket could be opened,
  the signal ends the program (it does not wait for its screen for ever), nothing of the transport
  stays open, the thread of the screen has returned or raised, and no task of the demo runs. The
  result is 0, or the exception that ended the thread, which may have happened long ago: until the
  signal comes the member stays in the cluster without a screen.
\<close>

theorem demo_closes:
  assumes "ut_open (ap_transport a) = []" and "ut_stack (ap_transport a) = []"
    and "ap_worker_task a = daemon_init" and "da_poll_task a = daemon_init" and "run_result (ap_worker a) = None"
    and "server (bind_host (ap_transport a)) (bind_port (ap_transport a)) = Inr ()"
    and "endpoint (bind_host (ap_transport a)) (bind_port (ap_transport a)) = Inr ()"
  shows "\<exists>c. let b = fold demo_step evs (demo_entered server endpoint interval a)
    in demo_serve server endpoint interval evs ending a =
        Some (case thread_ends ending b of None \<Rightarrow> Inr 0 | Some e \<Rightarrow> Inl e, c) \<and>
      ap_worker c = ap_worker b \<and> ut_open (ap_transport c) = [] \<and> daemon (da_poll_task c) = Some Cancelled \<and>
      da_thread c = (case thread_ends ending b of None \<Rightarrow> Thread_returned | Some e \<Rightarrow> Thread_raised e) \<and>
      \<not> token_running c \<and>
      (daemon (ap_worker_task c) = Some Cancelled \<and> run_result (ap_worker c) = None \<or>
       (\<exists>e. daemon (ap_worker_task c) = Some (Failed e)))"
proof -
  let ?a = "demo_entered server endpoint interval a"
  let ?b = "fold demo_step evs ?a"
  note enter = transport_enter_run(1) [OF assms(1,2), of server endpoint, OF assms(6,7)]
  have serve: "demo_serve server endpoint interval evs ending a =
      Some (case thread_ends ending ?b of None \<Rightarrow> Inr 0 | Some e \<Rightarrow> Inl e, demo_left ending ?b)"
    using demo_serve_entered [of server endpoint a interval evs ending] enter by (simp add: Let_def)
  have f: "ap_transport ?b = ap_transport ?a" "da_poll_task ?b = da_poll_task ?a"
    using demo_steps_fields [of evs ?a] by auto
  have "task_follows ?a"
    using assms(3,5) by (simp add: task_follows_def demo_entered_def daemon_enter_def Let_def run_result_def)
  then have "task_follows ?b" by (rule demo_steps_follow)
  then have "daemon (daemon_exit (ap_worker_task ?b)) = Some Cancelled \<and> run_result (ap_worker ?b) = None \<or>
      (\<exists>e. daemon (daemon_exit (ap_worker_task ?b)) = Some (Failed e))"
    by (auto simp: task_follows_def daemon_exit_def)
  moreover have "ut_open (transport_exit (ap_transport ?b)) = []"
    unfolding f(1) using enter by (intro transport_exit_all) (simp_all add: demo_entered_def Let_def)
  moreover have "daemon (daemon_exit (da_poll_task ?b)) = Some Cancelled"
    unfolding f(2) by (simp add: demo_entered_def daemon_enter_def daemon_exit_def Let_def)
  ultimately show ?thesis
    unfolding Let_def using serve
    by (intro exI [of _ "demo_left ending ?b"] conjI) (simp_all add: demo_left_def token_running_def)
qed

text \<open>A demo of one member whose thread fails at once.\<close>

definition alone :: demo_state where
  "alone = \<lparr>ap_transport = ap_transport demo_app, ap_worker = demo_worker [], ap_worker_task = daemon_init,
     da_done = False, da_thread = Thread_new, da_poll_task = daemon_init, da_typed = [], da_polls = 0, da_token = Token_none\<rparr>"

theorem demo_closes_witness:
  "\<exists>c. demo_serve (\<lambda>_ _. Inr ()) (\<lambda>_ _. Inr ()) None [Thread_fails ValueError, Draw (\<lambda>_. None) 24 80] None alone =
      Some (Inl ValueError, c) \<and> ut_open (ap_transport c) = [] \<and> \<not> token_running c"
proof -
  let ?s = "\<lambda>(_ :: string) (_ :: py_value). Inr () :: py_error + unit"
  let ?b = "fold demo_step [Thread_fails ValueError, Draw (\<lambda>_. None) 24 80] (demo_entered ?s ?s None alone)"
  have b: "da_thread ?b = Thread_raised ValueError" "ap_worker ?b = demo_worker []"
    by (simp_all add: demo_step_def screen_draw_def demo_entered_def alone_def)
  have "run_result (demo_worker []) = None"
    by (simp add: run_result_def)
  then show ?thesis
    using demo_closes [of alone ?s ?s "[Thread_fails ValueError, Draw (\<lambda>_. None) 24 80]" None None] b
    by (auto simp: Let_def thread_ends_def) (auto simp: alone_def demo_app_def)
qed

end
